(* ===== verification/Prelude.thy ===== *)
theory Prelude
  imports Main "HOL-Library.Word"
begin

text \<open>
  What every component of the development shares: the values a Rust function can end with
  (a result, a panic, an \<^verbatim>\<open>io::Error\<close>), sequencing of such computations, checked and wrapping
  64-bit arithmetic, slices and vectors, and the generic list and arithmetic lemmas.

  An unsigned 64-bit value (\<^verbatim>\<open>u64\<close>, and \<^verbatim>\<open>usize\<close> on the 64-bit targets the program
  supports) is a natural number below \<open>2 ^ 64\<close>; every addition, subtraction and
  multiplication of the source goes through a checked operation, whose overflow is the panic of the
  debug build that the README tells the user to run. Bytes are \<open>8 word\<close>.
\<close>

section \<open>Outcomes of Rust code\<close>

type_synonym u8 = "8 word"

datatype panic =
    ArithOverflow
  | DivByZero
  | OutOfBounds
  | UnwrapNone
  | UnwrapErr
  | AssertFailed
  | ExplicitPanic
  | UnreachableCode

datatype io_kind =
    UnexpectedEof
  | InvalidData
  | WriteZero
  | OtherIo

text \<open>
  \<open>OutOfFuel\<close> is not an outcome of the program: the loops over a reader whose progress is a
  promise of a third-party crate carry fuel, and each of them has a lemma that under that promise
  the fuel chosen is enough.
\<close>

datatype error =
    Panic panic
  | IoErr io_kind
  | OutOfFuel

type_synonym 'a res = "error + 'a"

definition bindE :: "'a res \<Rightarrow> ('a \<Rightarrow> 'b res) \<Rightarrow> 'b res" where
  "bindE m f = (case m of Inl e \<Rightarrow> Inl e | Inr x \<Rightarrow> f x)"

definition is_panic :: "'a res \<Rightarrow> bool" where
  "is_panic r = (case r of Inl (Panic _) \<Rightarrow> True | _ \<Rightarrow> False)"

named_theorems outcome_simps \<open>inversion of computations that may fail\<close>

lemma bindE_Inr [simp]: "bindE (Inr x) f = f x"
  by (simp add: bindE_def)

lemma bindE_Inl [simp]: "bindE (Inl e) f = Inl e"
  by (simp add: bindE_def)

lemma bindE_eq_Inr [outcome_simps]:
  "bindE m f = Inr y \<longleftrightarrow> (\<exists>x. m = Inr x \<and> f x = Inr y)"
  by (cases m) auto

lemma bindE_eq_Inl [outcome_simps]:
  "bindE m f = Inl e \<longleftrightarrow> m = Inl e \<or> (\<exists>x. m = Inr x \<and> f x = Inl e)"
  by (cases m) auto

lemma bindE_assoc: "bindE (bindE m f) g = bindE m (\<lambda>x. bindE (f x) g)"
  by (cases m) auto

lemma bindE_cong [fundef_cong]:
  "m = m' \<Longrightarrow> (\<And>x. m' = Inr x \<Longrightarrow> f x = g x) \<Longrightarrow> bindE m f = bindE m' g"
  by (cases m') auto

lemma is_panic_simps [simp]:
  "is_panic (Inl (Panic p))" "\<not> is_panic (Inr x)" "\<not> is_panic (Inl (IoErr k))"
  "\<not> is_panic (Inl OutOfFuel)"
  by (simp_all add: is_panic_def)

section \<open>Checked and wrapping 64-bit arithmetic\<close>

definition add64 :: "nat \<Rightarrow> nat \<Rightarrow> nat res" where
  "add64 a b = (if a + b < 2 ^ 64 then Inr (a + b) else Inl (Panic ArithOverflow))"

definition sub64 :: "nat \<Rightarrow> nat \<Rightarrow> nat res" where
  "sub64 a b = (if b \<le> a then Inr (a - b) else Inl (Panic ArithOverflow))"

definition mul64 :: "nat \<Rightarrow> nat \<Rightarrow> nat res" where
  "mul64 a b = (if a * b < 2 ^ 64 then Inr (a * b) else Inl (Panic ArithOverflow))"

text \<open>\<^verbatim>\<open>u64::wrapping_sub\<close>, for operands below \<open>2 ^ 64\<close>.\<close>

definition wrapping_sub64 :: "nat \<Rightarrow> nat \<Rightarrow> nat" where
  "wrapping_sub64 a b = (a + 2 ^ 64 - b) mod 2 ^ 64"

lemma add64_eq_Inr [outcome_simps]: "add64 a b = Inr c \<longleftrightarrow> c = a + b \<and> a + b < 2 ^ 64"
  by (auto simp: add64_def)

lemma sub64_eq_Inr [outcome_simps]: "sub64 a b = Inr c \<longleftrightarrow> c = a - b \<and> b \<le> a"
  by (auto simp: sub64_def)

lemma mul64_eq_Inr [outcome_simps]: "mul64 a b = Inr c \<longleftrightarrow> c = a * b \<and> a * b < 2 ^ 64"
  by (auto simp: mul64_def)

lemma add64_ok [simp]: "a + b < 2 ^ 64 \<Longrightarrow> add64 a b = Inr (a + b)"
  by (simp add: add64_def)

lemma sub64_ok [simp]: "b \<le> a \<Longrightarrow> sub64 a b = Inr (a - b)"
  by (simp add: sub64_def)

lemma mul64_ok [simp]: "a * b < 2 ^ 64 \<Longrightarrow> mul64 a b = Inr (a * b)"
  by (simp add: mul64_def)

lemma wrapping_sub64_eq_0:
  "a < 2 ^ 64 \<Longrightarrow> b < 2 ^ 64 \<Longrightarrow> wrapping_sub64 a b = 0 \<longleftrightarrow> a = b"
proof (cases "b \<le> a")
  case True
  assume "a < 2 ^ 64"
  have "a + 2 ^ 64 - b = (a - b) + 2 ^ 64" using True by simp
  then have "wrapping_sub64 a b = (a - b) mod 2 ^ 64"
    unfolding wrapping_sub64_def by (metis mod_add_self2)
  also have "\<dots> = a - b" using \<open>a < 2 ^ 64\<close> by simp
  finally show ?thesis using True by simp
next
  case False
  moreover assume "b < 2 ^ 64"
  ultimately have "wrapping_sub64 a b = a + 2 ^ 64 - b" and "a + 2 ^ 64 - b > 0"
    by (simp_all add: wrapping_sub64_def)
  with False show ?thesis by simp
qed

section \<open>Slices and vectors\<close>

text \<open>\<^verbatim>\<open>xs[i]\<close>, \<^verbatim>\<open>xs[..n]\<close> and \<^verbatim>\<open>xs[n..]\<close>: out of range is a panic.\<close>

definition slice_get :: "'a list \<Rightarrow> nat \<Rightarrow> 'a res" where
  "slice_get xs i = (if i < length xs then Inr (xs ! i) else Inl (Panic OutOfBounds))"

definition slice_to :: "'a list \<Rightarrow> nat \<Rightarrow> 'a list res" where
  "slice_to xs n = (if n \<le> length xs then Inr (take n xs) else Inl (Panic OutOfBounds))"

definition slice_from :: "'a list \<Rightarrow> nat \<Rightarrow> 'a list res" where
  "slice_from xs n = (if n \<le> length xs then Inr (drop n xs) else Inl (Panic OutOfBounds))"

text \<open>\<^verbatim>\<open>Vec::resize\<close> cuts or pads; \<^verbatim>\<open>Vec::truncate\<close> only cuts.\<close>

definition vec_resize :: "nat \<Rightarrow> 'a \<Rightarrow> 'a list \<Rightarrow> 'a list" where
  "vec_resize n v xs = take n xs @ replicate (n - length xs) v"

definition vec_truncate :: "nat \<Rightarrow> 'a list \<Rightarrow> 'a list" where
  "vec_truncate n xs = take n xs"

lemma slice_get_eq_Inr [outcome_simps]: "slice_get xs i = Inr x \<longleftrightarrow> i < length xs \<and> x = xs ! i"
  by (auto simp: slice_get_def)

lemma slice_get_ok [simp]: "i < length xs \<Longrightarrow> slice_get xs i = Inr (xs ! i)"
  by (simp add: slice_get_def)

lemma slice_to_eq_Inr [outcome_simps]: "slice_to xs n = Inr ys \<longleftrightarrow> n \<le> length xs \<and> ys = take n xs"
  by (auto simp: slice_to_def)

lemma slice_to_ok [simp]: "n \<le> length xs \<Longrightarrow> slice_to xs n = Inr (take n xs)"
  by (simp add: slice_to_def)

lemma slice_from_eq_Inr [outcome_simps]:
  "slice_from xs n = Inr ys \<longleftrightarrow> n \<le> length xs \<and> ys = drop n xs"
  by (auto simp: slice_from_def)

lemma slice_from_ok [simp]: "n \<le> length xs \<Longrightarrow> slice_from xs n = Inr (drop n xs)"
  by (simp add: slice_from_def)

lemma length_vec_resize [simp]: "length (vec_resize n v xs) = n"
  by (simp add: vec_resize_def)

lemma length_vec_truncate [simp]: "length (vec_truncate n xs) = min (length xs) n"
  by (simp add: vec_truncate_def)

text \<open>Overwriting part of a list, the effect of a positioned write.\<close>

definition overwrite :: "'a list \<Rightarrow> nat \<Rightarrow> 'a list \<Rightarrow> 'a list" where
  "overwrite xs p ds = take p xs @ ds @ drop (p + length ds) xs"

lemma length_overwrite [simp]:
  "p + length ds \<le> length xs \<Longrightarrow> length (overwrite xs p ds) = length xs"
  by (simp add: overwrite_def)

lemma nth_overwrite:
  assumes "p + length ds \<le> length xs" and "i < length xs"
  shows "overwrite xs p ds ! i = (if p \<le> i \<and> i < p + length ds then ds ! (i - p) else xs ! i)"
  using assms by (auto simp: overwrite_def nth_append)

section \<open>Generic lemmas on lists and arithmetic\<close>

lemma find_SomeD: "find P xs = Some x \<Longrightarrow> x \<in> set xs \<and> P x"
  by (induction xs) (auto split: if_splits)

lemma count_list_update:
  assumes "i < length xs"
  shows "count_list (xs[i := y]) z + (if xs ! i = z then 1 else 0)
       = count_list xs z + (if y = z then 1 else 0)"
  using assms
proof (induction xs arbitrary: i)
  case Nil
  then show ?case by simp
next
  case (Cons x xs)
  show ?case
  proof (cases i)
    case 0
    then show ?thesis by simp
  next
    case (Suc j)
    with Cons.prems have "j < length xs" by simp
    with Cons.IH [OF this] Suc show ?thesis by auto
  qed
qed

lemma count_list_le_length: "count_list xs z \<le> length xs"
  by (induction xs) auto

lemma count_list_0_iff_notin: "count_list xs z = 0 \<longleftrightarrow> z \<notin> set xs"
  by (induction xs) auto

lemma count_list_length_iff: "count_list xs z = length xs \<longleftrightarrow> (\<forall>x \<in> set xs. x = z)"
proof (induction xs)
  case Nil
  then show ?case by simp
next
  case (Cons x xs)
  have "count_list xs z \<le> length xs" by (rule count_list_le_length)
  with Cons.IH show ?case by auto
qed

lemma div_eq_iff_nat: "0 < (c::nat) \<Longrightarrow> k div c = i \<longleftrightarrow> i * c \<le> k \<and> k < i * c + c"
  by (metis add.commute div_nat_eqI dividend_less_div_times mult.commute mult_Suc
      times_div_less_eq_dividend)

end
