(* ===== verification/Varints.thy ===== *)
theory Varints
  imports Prelude
begin

text \<open>
  The third-party crate \<^verbatim>\<open>varmint\<close>, which both versions of the program use for integers on the
  wire, is a parameter of the model: a record of its three functions, and the locale
  \<open>varint_codec\<close> with what the program relies on. \<open>usize\<close> has 64 bits on the program's
  targets, so the \<^verbatim>\<open>usize\<close> functions of the crate are the \<^verbatim>\<open>u64\<close> ones.

  The protocol's specification fixes the format (\<^verbatim>\<open>v1/specification.md\<close>, section Varint: base
  128, little-endian septets, the top bit of a byte says that another one follows). The second half
  of the theory defines that format and proves that it satisfies the locale, so the hypotheses of
  every theorem over the parameter can hold.
\<close>

section \<open>The crate as a parameter\<close>

record varint_api =
  enc_varint :: "nat \<Rightarrow> u8 list"
  dec_varint :: "u8 list \<Rightarrow> io_kind + (nat \<times> u8 list)"
  len_varint :: "nat \<Rightarrow> nat"

text \<open>
  \<open>dec_varint\<close> gives the value read and the unread rest of the input. Reading back what was
  written, the announced length, at most ten bytes, end-of-input inside a value, and progress.
\<close>

locale varint_codec =
  fixes V :: varint_api
  assumes dec_enc: "n < 2 ^ 64 \<Longrightarrow> dec_varint V (enc_varint V n @ rest) = Inr (n, rest)"
    and len_enc: "n < 2 ^ 64 \<Longrightarrow> len_varint V n = length (enc_varint V n)"
    and enc_length: "n < 2 ^ 64 \<Longrightarrow> 1 \<le> length (enc_varint V n) \<and> length (enc_varint V n) \<le> 10"
    and dec_short: "n < 2 ^ 64 \<Longrightarrow> k < length (enc_varint V n) \<Longrightarrow>
      dec_varint V (take k (enc_varint V n)) = Inl UnexpectedEof"
    and dec_progress: "dec_varint V bs = Inr (n, rest) \<Longrightarrow>
      n < 2 ^ 64 \<and> (\<exists>pre. pre \<noteq> [] \<and> bs = pre @ rest)"
begin

lemma dec_Nil: "dec_varint V [] = Inl UnexpectedEof"
  using dec_short [of 0 0] enc_length [of 0] by fastforce

lemma dec_shorter: "dec_varint V bs = Inr (n, rest) \<Longrightarrow> length rest < length bs"
  using dec_progress [of bs n rest] by auto

text \<open>Concatenated encodings are read one by one, and an encoding determines its value.\<close>

lemma enc_inject:
  assumes "n < 2 ^ 64" and "k < 2 ^ 64" and "enc_varint V n = enc_varint V k"
  shows "n = k"
  using dec_enc [OF assms(1), of "[]"] dec_enc [OF assms(2), of "[]"] assms(3) by simp

lemma concat_enc_length:
  "\<forall>n \<in> set ns. n < 2 ^ 64 \<Longrightarrow> length ns \<le> length (concat (map (enc_varint V) ns))"
proof (induction ns)
  case Nil
  then show ?case by simp
next
  case (Cons n ns)
  then show ?case using enc_length [of n] by simp
qed

end

section \<open>The base-128 format of the specification\<close>

function leb_enc :: "nat \<Rightarrow> u8 list" where
  "leb_enc n =
     (if n < 128 then [of_nat n] else of_nat (n mod 128 + 128) # leb_enc (n div 128))"
  by pat_completeness auto
termination
  by (relation "measure id") auto

declare leb_enc.simps [simp del]

text \<open>\<open>k\<close> counts the bytes read so far; the tenth byte of a 64-bit value is 0 or 1.\<close>

fun leb_dec_from :: "nat \<Rightarrow> u8 list \<Rightarrow> io_kind + (nat \<times> u8 list)" where
  "leb_dec_from k [] = Inl UnexpectedEof"
| "leb_dec_from k (b # bs) =
     (if k > 9 \<or> (k = 9 \<and> unat b > 1) then Inl InvalidData
      else if unat b < 128 then Inr (unat b, bs)
      else case leb_dec_from (Suc k) bs of
          Inl e \<Rightarrow> Inl e
        | Inr (v, rest) \<Rightarrow> Inr (unat b - 128 + 128 * v, rest))"

definition leb_dec :: "u8 list \<Rightarrow> io_kind + (nat \<times> u8 list)" where
  "leb_dec bs = leb_dec_from 0 bs"

definition leb_api :: varint_api where
  "leb_api = \<lparr>enc_varint = leb_enc, dec_varint = leb_dec, len_varint = (\<lambda>n. length (leb_enc n))\<rparr>"

lemma unat_septet: "n < 256 \<Longrightarrow> unat (of_nat n :: u8) = n"
  by (simp add: unat_of_nat take_bit_nat_def)

lemma septet_bound:
  fixes n :: nat
  assumes "n < 2 ^ (64 - 7 * k)" and "128 \<le> n" and "k \<le> 9"
  shows "k < 9" and "n div 128 < 2 ^ (64 - 7 * Suc k)"
proof -
  show k: "k < 9"
  proof (rule ccontr)
    assume "\<not> k < 9"
    with assms(3) have "k = 9" by simp
    with assms(1,2) show False by simp
  qed
  then have "(64 - 7 * k) = (64 - 7 * Suc k) + 7" by simp
  then have "n < 2 ^ (64 - 7 * Suc k) * 128"
    using assms(1) by (simp only: power_add) simp
  then show "n div 128 < 2 ^ (64 - 7 * Suc k)"
    by (rule less_mult_imp_div_less)
qed

lemma leb_dec_enc_from:
  "n < 2 ^ (64 - 7 * k) \<Longrightarrow> k \<le> 9 \<Longrightarrow> leb_dec_from k (leb_enc n @ rest) = Inr (n, rest)"
proof (induction n arbitrary: k rule: leb_enc.induct)
  case (1 n)
  show ?case
  proof (cases "n < 128")
    case True
    moreover have "k = 9 \<Longrightarrow> n \<le> 1" using "1.prems"(1) by simp
    ultimately show ?thesis
      using "1.prems" by (subst leb_enc.simps) (auto simp: unat_septet)
  next
    case False
    note kb = septet_bound [OF "1.prems"(1) _ "1.prems"(2)]
    have "leb_dec_from (Suc k) (leb_enc (n div 128) @ rest) = Inr (n div 128, rest)"
      using "1.IH" [OF False, of "Suc k"] kb False by simp
    moreover have "unat (of_nat (n mod 128 + 128) :: u8) = n mod 128 + 128"
      by (rule unat_septet) (simp add: trans_less_add1)
    ultimately show ?thesis
      using False kb by (subst leb_enc.simps) (simp del: of_nat_add)
  qed
qed

lemma leb_enc_length:
  "n < 2 ^ (64 - 7 * k) \<Longrightarrow> k \<le> 9 \<Longrightarrow> 1 \<le> length (leb_enc n) \<and> length (leb_enc n) \<le> 10 - k"
proof (induction n arbitrary: k rule: leb_enc.induct)
  case (1 n)
  show ?case
  proof (cases "n < 128")
    case True
    with "1.prems" show ?thesis by (subst (1 2) leb_enc.simps) simp
  next
    case False
    note kb = septet_bound [OF "1.prems"(1) _ "1.prems"(2)]
    with False "1.IH" [OF False, of "Suc k"] show ?thesis
      by (subst (1 2) leb_enc.simps) auto
  qed
qed

lemma leb_dec_short:
  "n < 2 ^ (64 - 7 * k) \<Longrightarrow> k \<le> 9 \<Longrightarrow> j < length (leb_enc n) \<Longrightarrow>
   leb_dec_from k (take j (leb_enc n)) = Inl UnexpectedEof"
proof (induction n arbitrary: k j rule: leb_enc.induct)
  case (1 n)
  show ?case
  proof (cases "n < 128 \<or> j = 0")
    case True
    with "1.prems" have "j = 0" by (auto simp: leb_enc.simps [of n] split: if_splits)
    then show ?thesis by simp
  next
    case False
    then have n: "\<not> n < 128" and j: "j \<noteq> 0" by auto
    note kb = septet_bound [OF "1.prems"(1) _ "1.prems"(2)]
    have enc: "leb_enc n = of_nat (n mod 128 + 128) # leb_enc (n div 128)"
      using n by (subst leb_enc.simps) simp
    have "leb_dec_from (Suc k) (take (j - 1) (leb_enc (n div 128))) = Inl UnexpectedEof"
      using "1.IH" [OF n, of "Suc k" "j - 1"] kb n j "1.prems"(3) enc by simp
    moreover have "unat (of_nat (n mod 128 + 128) :: u8) = n mod 128 + 128"
      by (rule unat_septet) (simp add: trans_less_add1)
    ultimately show ?thesis
      using n kb j by (cases j) (simp_all add: enc del: of_nat_add)
  qed
qed

lemma leb_dec_progress:
  "leb_dec_from k bs = Inr (n, rest) \<Longrightarrow>
   k \<le> 9 \<and> n < 2 ^ (64 - 7 * k) \<and> (\<exists>pre. pre \<noteq> [] \<and> bs = pre @ rest)"
proof (induction k bs arbitrary: n rest rule: leb_dec_from.induct)
  case (1 k)
  then show ?case by simp
next
  case (2 k b bs)
  show ?case
  proof (cases "unat b < 128")
    case True
    have "(2::nat) ^ 7 \<le> 2 ^ (64 - 7 * k)" if "k < 9"
      using that by (intro power_increasing) auto
    then show ?thesis
      using 2 True by (cases "k = 9") (auto split: if_splits)
  next
    case False
    with "2.prems" obtain v where k: "k < 9"
      and v: "leb_dec_from (Suc k) bs = Inr (v, rest)" and n: "n = unat b - 128 + 128 * v"
      by (cases "k = 9") (auto split: if_splits sum.splits)
    have vb: "v < 2 ^ (64 - 7 * Suc k)" and pre: "\<exists>pre. pre \<noteq> [] \<and> bs = pre @ rest"
      using "2.IH" [OF _ False v] k by auto
    have "unat b < 256" using unsigned_less [of b] by simp
    then have "n < 128 * (v + 1)" using n by simp
    also have "\<dots> \<le> 128 * 2 ^ (64 - 7 * Suc k)" using vb by simp
    also have "\<dots> = 2 ^ (64 - 7 * k)"
    proof -
      have "(64 - 7 * k) = 7 + (64 - 7 * Suc k)" using k by simp
      then show ?thesis by (simp only: power_add) simp
    qed
    finally have "n < 2 ^ (64 - 7 * k)" .
    moreover obtain pre where "pre \<noteq> []" and "bs = pre @ rest" using pre by blast
    then have "b # bs = (b # pre) @ rest" by simp
    ultimately show ?thesis using k by (metis less_imp_le list.distinct(1))
  qed
qed

interpretation leb: varint_codec leb_api
proof
  show "dec_varint leb_api (enc_varint leb_api n @ rest) = Inr (n, rest)" if "n < 2 ^ 64" for n rest
    using leb_dec_enc_from [of n 0 rest] that by (simp add: leb_api_def leb_dec_def)
  show "1 \<le> length (enc_varint leb_api n) \<and> length (enc_varint leb_api n) \<le> 10"
    if "n < 2 ^ 64" for n
    using leb_enc_length [of n 0] that by (simp add: leb_api_def)
  show "dec_varint leb_api (take k (enc_varint leb_api n)) = Inl UnexpectedEof"
    if "n < 2 ^ 64" "k < length (enc_varint leb_api n)" for n k
    using leb_dec_short [of n 0 k] that by (simp add: leb_api_def leb_dec_def)
  show "n < 2 ^ 64 \<and> (\<exists>pre. pre \<noteq> [] \<and> bs = pre @ rest)"
    if "dec_varint leb_api bs = Inr (n, rest)" for bs n rest
    using leb_dec_progress [of 0 bs n rest] that by (simp add: leb_api_def leb_dec_def)
qed (simp add: leb_api_def)

lemma leb_varint_codec: "varint_codec leb_api"
  by (rule leb.varint_codec_axioms)

end
