(* ===== verification/Codec.thy ===== *)
theory Codec
  imports Varints
begin

text \<open>
  The login message, the chunk packets and the chunk geometry of version 1
  (\<^verbatim>\<open>v1/csync/src/codec.rs\<close>, lines 1 to 175): cursors and writers of the standard library, the
  encoder and decoder of \<open>Login\<close>, \<open>Command\<close> and \<open>UploadRequest\<close>, \<open>Chunk\<close> and
  \<open>index_field_size\<close>, with the round trips and the bounds that make the packets readable.
\<close>

definition MTU :: nat where
  "MTU = 1460"

section \<open>Readers and writers of the standard library\<close>

text \<open>\<^verbatim>\<open>io::Cursor\<close>: reads start at \<open>position\<close>, which may lie past the end.\<close>

record Cursor =
  cur_data :: "u8 list"
  cur_pos :: nat

definition Cursor_new :: "u8 list \<Rightarrow> Cursor" where
  "Cursor_new bs = \<lparr>cur_data = bs, cur_pos = 0\<rparr>"

definition cur_rest :: "Cursor \<Rightarrow> u8 list" where
  "cur_rest c = drop (min (cur_pos c) (length (cur_data c))) (cur_data c)"

definition cur_read_varint :: "varint_api \<Rightarrow> Cursor \<Rightarrow> (nat \<times> Cursor) res" where
  "cur_read_varint V c =
     (case dec_varint V (cur_rest c) of
        Inl k \<Rightarrow> Inl (IoErr k)
      | Inr (n, rest) \<Rightarrow>
          Inr (n, c\<lparr>cur_pos := cur_pos c + (length (cur_rest c) - length rest)\<rparr>))"

definition cur_read_u8 :: "Cursor \<Rightarrow> (u8 \<times> Cursor) res" where
  "cur_read_u8 c =
     (case cur_rest c of
        [] \<Rightarrow> Inl (IoErr UnexpectedEof)
      | b # _ \<Rightarrow> Inr (b, c\<lparr>cur_pos := cur_pos c + 1\<rparr>))"

text \<open>\<^verbatim>\<open>Result::unwrap\<close>: an I/O error becomes a panic.\<close>

definition unwrap_res :: "'a res \<Rightarrow> 'a res" where
  "unwrap_res r = (case r of Inl (IoErr _) \<Rightarrow> Inl (Panic UnwrapErr) | _ \<Rightarrow> r)"

text \<open>
  The two writers the program uses: a growing \<^verbatim>\<open>Vec\<close> (no limit) and a byte slice (a limit),
  whose \<^verbatim>\<open>write_all\<close> stores what fits and then fails with \<^verbatim>\<open>WriteZero\<close>.
\<close>

record Writer =
  wr_out :: "u8 list"
  wr_limit :: "nat option"

definition vec_writer :: Writer where
  "vec_writer = \<lparr>wr_out = [], wr_limit = None\<rparr>"

definition slice_writer :: "nat \<Rightarrow> Writer" where
  "slice_writer n = \<lparr>wr_out = [], wr_limit = Some n\<rparr>"

definition wr_fits :: "Writer \<Rightarrow> u8 list \<Rightarrow> bool" where
  "wr_fits w bs = (case wr_limit w of None \<Rightarrow> True | Some n \<Rightarrow> length (wr_out w) + length bs \<le> n)"

definition write_all :: "Writer \<Rightarrow> u8 list \<Rightarrow> (unit res \<times> Writer)" where
  "write_all w bs =
     (if wr_fits w bs then (Inr (), w\<lparr>wr_out := wr_out w @ bs\<rparr>)
      else (Inl (IoErr WriteZero),
            w\<lparr>wr_out := take (the (wr_limit w)) (wr_out w @ bs)\<rparr>))"

text \<open>A write whose failure ends the caller: the writer is only needed on success.\<close>

definition write_seq :: "Writer \<Rightarrow> u8 list \<Rightarrow> Writer res" where
  "write_seq w bs = (case write_all w bs of (Inl e, _) \<Rightarrow> Inl e | (Inr _, w') \<Rightarrow> Inr w')"

section \<open>Login, command and upload request\<close>

text \<open>A \<^verbatim>\<open>&str\<close> is its UTF-8 bytes; \<open>utf8_valid\<close> is the check of \<^verbatim>\<open>str::from_utf8\<close>.\<close>

definition utf8_cont :: "u8 \<Rightarrow> bool" where
  "utf8_cont b \<longleftrightarrow> 0x80 \<le> unat b \<and> unat b \<le> 0xBF"

fun utf8_valid :: "u8 list \<Rightarrow> bool" where
  "utf8_valid [] = True"
| "utf8_valid (b # bs) =
     (let n = unat b in
      if n < 0x80 then utf8_valid bs
      else if 0xC2 \<le> n \<and> n \<le> 0xDF then
        (case bs of c # r \<Rightarrow> utf8_cont c \<and> utf8_valid r | _ \<Rightarrow> False)
      else if 0xE0 \<le> n \<and> n \<le> 0xEF then
        (case bs of c # d # r \<Rightarrow>
             (if n = 0xE0 then 0xA0 \<le> unat c \<and> unat c \<le> 0xBF
              else if n = 0xED then 0x80 \<le> unat c \<and> unat c \<le> 0x9F
              else utf8_cont c) \<and> utf8_cont d \<and> utf8_valid r
         | _ \<Rightarrow> False)
      else if 0xF0 \<le> n \<and> n \<le> 0xF4 then
        (case bs of c # d # e # r \<Rightarrow>
             (if n = 0xF0 then 0x90 \<le> unat c \<and> unat c \<le> 0xBF
              else if n = 0xF4 then 0x80 \<le> unat c \<and> unat c \<le> 0x8F
              else utf8_cont c) \<and> utf8_cont d \<and> utf8_cont e \<and> utf8_valid r
         | _ \<Rightarrow> False)
      else False)"

record UploadRequest =
  ur_path :: "u8 list"
  ur_length :: nat

datatype Command = CmdUploadRequest UploadRequest

record Login =
  lg_client_token :: "u8 list"
  lg_command :: Command

definition read_bytes :: "varint_api \<Rightarrow> Cursor \<Rightarrow> (u8 list \<times> Cursor) res" where
  "read_bytes V c =
     bindE (unwrap_res (cur_read_varint V c)) (\<lambda>(size, c1).
     let pos = cur_pos c1 in
     bindE (add64 pos size) (\<lambda>p.
     let c2 = c1\<lparr>cur_pos := p\<rparr> in
     bindE (slice_from (cur_data c2) pos) (\<lambda>tl.
     bindE (slice_to tl size) (\<lambda>bs. Inr (bs, c2)))))"

definition UploadRequest_encode :: "varint_api \<Rightarrow> UploadRequest \<Rightarrow> Writer \<Rightarrow> (nat \<times> Writer) res" where
  "UploadRequest_encode V req w =
     bindE (write_seq w (enc_varint V (length (ur_path req)))) (\<lambda>w1.
     bindE (write_seq w1 (ur_path req)) (\<lambda>w2.
     bindE (write_seq w2 (enc_varint V (ur_length req))) (\<lambda>w3.
     bindE (add64 (len_varint V (length (ur_path req))) (length (ur_path req))) (\<lambda>n.
     bindE (add64 n (len_varint V (ur_length req))) (\<lambda>n'. Inr (n', w3))))))"

definition UploadRequest_decode :: "varint_api \<Rightarrow> Cursor \<Rightarrow> (UploadRequest \<times> Cursor) res" where
  "UploadRequest_decode V c =
     bindE (read_bytes V c) (\<lambda>(path, c1).
     if \<not> utf8_valid path then Inl (IoErr InvalidData)
     else bindE (cur_read_varint V c1) (\<lambda>(len, c2).
       Inr (\<lparr>ur_path = path, ur_length = len\<rparr>, c2)))"

fun Command_encode :: "varint_api \<Rightarrow> Command \<Rightarrow> Writer \<Rightarrow> (nat \<times> Writer) res" where
  "Command_encode V (CmdUploadRequest req) w =
     bindE (unwrap_res (write_seq w [0])) (\<lambda>w1.
     bindE (UploadRequest_encode V req w1) (\<lambda>(n, w2).
     bindE (add64 n 1) (\<lambda>n'. Inr (n', w2))))"

definition Command_decode :: "varint_api \<Rightarrow> Cursor \<Rightarrow> (Command \<times> Cursor) res" where
  "Command_decode V c =
     bindE (cur_read_u8 c) (\<lambda>(tag, c1).
     if tag = 0 then bindE (UploadRequest_decode V c1) (\<lambda>(req, c2). Inr (CmdUploadRequest req, c2))
     else Inl (Panic ExplicitPanic))"

definition Login_encode :: "varint_api \<Rightarrow> Login \<Rightarrow> Writer \<Rightarrow> Writer res" where
  "Login_encode V l w =
     bindE (unwrap_res (write_seq w (enc_varint V (length (lg_client_token l))))) (\<lambda>w1.
     bindE (unwrap_res (write_seq w1 (lg_client_token l))) (\<lambda>w2.
     bindE (unwrap_res (Command_encode V (lg_command l) w2)) (\<lambda>(_, w3). Inr w3)))"

definition Login_decode :: "varint_api \<Rightarrow> u8 list \<Rightarrow> Login res" where
  "Login_decode V src =
     bindE (read_bytes V (Cursor_new src)) (\<lambda>(client_token, c1).
     bindE (Command_decode V c1) (\<lambda>(command, _).
     Inr \<lparr>lg_client_token = client_token, lg_command = command\<rparr>))"

section \<open>Chunks\<close>

text \<open>\<^verbatim>\<open>write_u64::<LE>\<close> and \<^verbatim>\<open>read_u64::<LE>\<close>.\<close>

fun le_bytes :: "nat \<Rightarrow> nat \<Rightarrow> u8 list" where
  "le_bytes 0 n = []"
| "le_bytes (Suc k) n = of_nat n # le_bytes k (n div 256)"

fun le_value :: "u8 list \<Rightarrow> nat" where
  "le_value [] = 0"
| "le_value (b # bs) = unat b + 256 * le_value bs"

record Chunk =
  ch_index_field_size :: nat
  ch_index :: nat
  ch_buf :: "u8 list"

definition Chunk_new :: "u8 list \<Rightarrow> nat \<Rightarrow> nat \<Rightarrow> nat \<Rightarrow> Chunk res" where
  "Chunk_new buf index index_field_size data_size =
     (let buf1 = take 0 buf in
      if \<not> (0 < index_field_size \<and> index_field_size \<le> 8) then Inl (Panic AssertFailed)
      else let buf2 = buf1 @ le_bytes 8 index in
        bindE (add64 index_field_size data_size) (\<lambda>n.
        Inr \<lparr>ch_index_field_size = index_field_size, ch_index = index,
             ch_buf = vec_resize n 0 buf2\<rparr>))"

definition Chunk_decode :: "u8 list \<Rightarrow> nat \<Rightarrow> Chunk res" where
  "Chunk_decode src index_field_size =
     (if index_field_size > 8 then Inl (Panic OutOfBounds)
      else bindE (slice_to src index_field_size) (\<lambda>hd.
        let buf = hd @ replicate (8 - index_field_size) 0 in
        Inr \<lparr>ch_index_field_size = index_field_size, ch_index = le_value buf, ch_buf = src\<rparr>))"

definition Chunk_as_ref :: "Chunk \<Rightarrow> u8 list res" where
  "Chunk_as_ref c = slice_from (ch_buf c) (ch_index_field_size c)"

text \<open>
  Writing into the slice behind the index field that \<^verbatim>\<open>as_mut\<close> gives out, as
  \<^verbatim>\<open>read_exact(file, chunk)\<close> does; the slice has a fixed length, the one \<open>Chunk_new\<close> has
  set, so bytes beyond it are not written and bytes behind shorter data stay.
\<close>

definition Chunk_fill :: "Chunk \<Rightarrow> u8 list \<Rightarrow> Chunk" where
  "Chunk_fill c ds =
     (let room = length (ch_buf c) - ch_index_field_size c
      in c\<lparr>ch_buf := overwrite (ch_buf c) (ch_index_field_size c) (take room ds)\<rparr>)"

lemma Chunk_fill_exact:
  "length (ch_buf c) = ch_index_field_size c + length ds \<Longrightarrow>
   Chunk_fill c ds = c\<lparr>ch_buf := take (ch_index_field_size c) (ch_buf c) @ ds\<rparr>"
  by (simp add: Chunk_fill_def overwrite_def)

section \<open>Chunk geometry\<close>

record ChunkInfo =
  ci_index_field_size :: nat
  ci_chunk_size :: nat
  ci_num_chunks :: nat
  ci_last_chunk_size :: nat

definition div_up :: "nat \<Rightarrow> nat \<Rightarrow> nat" where
  "div_up n c = n div c + (if n mod c \<noteq> 0 then 1 else 0)"

text \<open>The loop of \<^verbatim>\<open>index_field_size\<close>; a shift by 64 or more is an overflow panic.\<close>

function ifs_loop :: "nat \<Rightarrow> nat \<Rightarrow> (nat \<times> nat) res" where
  "ifs_loop len ifs =
     bindE (sub64 MTU ifs) (\<lambda>chunk_size.
     if chunk_size = 0 then Inl (Panic DivByZero)
     else bindE (add64 (div_up len chunk_size) 1) (\<lambda>num_chunks.
       if ifs \<ge> 8 then Inl (Panic ArithOverflow)
       else if num_chunks \<le> 2 ^ (ifs * 8) then Inr (ifs, chunk_size)
       else ifs_loop len (ifs + 1)))"
  by pat_completeness auto
termination
  by (relation "measure (\<lambda>(l, i). 8 - i)") auto

declare ifs_loop.simps [simp del]

definition index_field_size :: "nat \<Rightarrow> ChunkInfo res" where
  "index_field_size len =
     bindE (ifs_loop len 1) (\<lambda>(ifs, chunk_size).
     Inr \<lparr>ci_index_field_size = ifs, ci_chunk_size = chunk_size,
          ci_num_chunks = div_up len chunk_size,
          ci_last_chunk_size = len mod chunk_size\<rparr>)"

section \<open>The login message survives the wire\<close>

lemma write_seq_vec [simp]: "wr_limit w = None \<Longrightarrow> write_seq w bs = Inr (w\<lparr>wr_out := wr_out w @ bs\<rparr>)"
  by (simp add: write_seq_def write_all_def wr_fits_def)

lemma unwrap_res_simps [simp]:
  "unwrap_res (Inr x) = Inr x" "unwrap_res (Inl (IoErr k)) = Inl (Panic UnwrapErr)"
  "unwrap_res (Inl (Panic p)) = Inl (Panic p)"
  by (simp_all add: unwrap_res_def)

lemma unwrap_res_eq_Inr [outcome_simps]: "unwrap_res r = Inr x \<longleftrightarrow> r = Inr x"
  by (auto simp: unwrap_res_def split: sum.splits error.splits)

text \<open>The bytes a login message consists of.\<close>

definition request_bytes :: "varint_api \<Rightarrow> UploadRequest \<Rightarrow> u8 list" where
  "request_bytes V req =
     enc_varint V (length (ur_path req)) @ ur_path req @ enc_varint V (ur_length req)"

fun command_bytes :: "varint_api \<Rightarrow> Command \<Rightarrow> u8 list" where
  "command_bytes V (CmdUploadRequest req) = 0 # request_bytes V req"

definition login_bytes :: "varint_api \<Rightarrow> Login \<Rightarrow> u8 list" where
  "login_bytes V l =
     enc_varint V (length (lg_client_token l)) @ lg_client_token l @ command_bytes V (lg_command l)"

fun command_wf :: "Command \<Rightarrow> bool" where
  "command_wf (CmdUploadRequest req) \<longleftrightarrow> utf8_valid (ur_path req) \<and> ur_length req < 2 ^ 64"

definition login_wf :: "varint_api \<Rightarrow> Login \<Rightarrow> bool" where
  "login_wf V l \<longleftrightarrow> command_wf (lg_command l) \<and> length (login_bytes V l) < 2 ^ 63"

context varint_codec
begin

lemma cur_read_enc:
  assumes "n < 2 ^ 64" and "cur_rest c = enc_varint V n @ rest"
  shows "\<exists>c'. cur_read_varint V c = Inr (n, c') \<and> cur_data c' = cur_data c \<and> cur_rest c' = rest
    \<and> cur_pos c' = cur_pos c + length (enc_varint V n)"
proof -
  have "1 \<le> length (cur_rest c)" using assms enc_length [of n] by auto
  then have "cur_pos c < length (cur_data c)" by (auto simp: cur_rest_def min_def split: if_splits)
  then have rest: "cur_rest c = drop (cur_pos c) (cur_data c)" by (simp add: cur_rest_def)
  let ?c = "c\<lparr>cur_pos := cur_pos c + length (enc_varint V n)\<rparr>"
  have "cur_read_varint V c = Inr (n, ?c)"
    using assms by (simp add: cur_read_varint_def dec_enc)
  moreover have "drop (length (enc_varint V n)) (drop (cur_pos c) (cur_data c)) = rest"
    using assms(2) rest by simp
  then have "cur_rest ?c = rest"
    by (auto simp: cur_rest_def min_def add.commute)
  ultimately show ?thesis by auto
qed

lemma read_bytes_enc:
  assumes "cur_rest c = enc_varint V (length bs) @ bs @ rest"
    and "length (cur_data c) < 2 ^ 64"
  shows "\<exists>c'. read_bytes V c = Inr (bs, c') \<and> cur_data c' = cur_data c \<and> cur_rest c' = rest"
proof -
  have "length (cur_rest c) \<le> length (cur_data c)" by (simp add: cur_rest_def)
  then have n: "length bs < 2 ^ 64" using assms by simp
  obtain c1 where c1: "cur_read_varint V c = Inr (length bs, c1)" "cur_data c1 = cur_data c"
      "cur_rest c1 = bs @ rest"
    and pos1: "cur_pos c1 = cur_pos c + length (enc_varint V (length bs))"
    using cur_read_enc [OF n assms(1)] by auto
  have "1 \<le> length (cur_rest c)" using assms(1) enc_length [OF n] by auto
  then have lt: "cur_pos c < length (cur_data c)"
    by (auto simp: cur_rest_def min_def split: if_splits)
  then have "length (cur_rest c) = length (cur_data c) - cur_pos c" by (simp add: cur_rest_def)
  then have le: "cur_pos c1 + length bs \<le> length (cur_data c)"
    using assms(1) pos1 lt by simp
  then have rest: "drop (cur_pos c1) (cur_data c) = bs @ rest"
    using c1 by (simp add: cur_rest_def min_def split: if_splits)
  let ?c2 = "c1\<lparr>cur_pos := cur_pos c1 + length bs\<rparr>"
  have "read_bytes V c = Inr (bs, ?c2)"
    using c1 le assms(2) rest by (simp add: read_bytes_def Let_def)
  moreover have "cur_rest ?c2 = rest"
    using le rest c1(2) by (simp add: cur_rest_def min_def) (metis add.commute append_eq_conv_conj drop_drop)
  ultimately show ?thesis using c1(2) by auto
qed

lemma login_encode_bytes:
  assumes "login_wf V l"
  shows "Login_encode V l vec_writer = Inr (vec_writer\<lparr>wr_out := login_bytes V l\<rparr>)"
proof -
  obtain req where req: "lg_command l = CmdUploadRequest req" by (cases "lg_command l")
  have "length (request_bytes V req) < 2 ^ 63 - 1" and len: "ur_length req < 2 ^ 64"
    using assms req by (auto simp: login_wf_def login_bytes_def)
  moreover from this have path: "length (ur_path req) < 2 ^ 64" by (simp add: request_bytes_def)
  ultimately show ?thesis
    using req len_enc [OF path] len_enc [OF len]
    by (simp add: Login_encode_def UploadRequest_encode_def vec_writer_def login_bytes_def
        request_bytes_def)
qed

lemma command_decode_bytes:
  assumes "cur_rest c = command_bytes V cmd @ rest" and "length (cur_data c) < 2 ^ 64"
    and "command_wf cmd"
  shows "\<exists>c'. Command_decode V c = Inr (cmd, c') \<and> cur_rest c' = rest"
proof -
  obtain req where cmd: "cmd = CmdUploadRequest req" by (cases cmd)
  let ?c1 = "c\<lparr>cur_pos := cur_pos c + 1\<rparr>"
  have "cur_rest c \<noteq> []" using assms(1) cmd by simp
  then have "cur_pos c < length (cur_data c)" by (auto simp: cur_rest_def min_def split: if_splits)
  then have "cur_rest ?c1 = tl (cur_rest c)"
    by (simp add: cur_rest_def drop_Suc tl_drop)
  then have r1: "cur_rest ?c1 = enc_varint V (length (ur_path req)) @ ur_path req
      @ (enc_varint V (ur_length req) @ rest)"
    using assms(1) cmd by (simp add: request_bytes_def)
  obtain c2 where c2: "read_bytes V ?c1 = Inr (ur_path req, c2)"
      "cur_rest c2 = enc_varint V (ur_length req) @ rest"
    using read_bytes_enc [OF r1] assms(2) by auto
  obtain c3 where c3: "cur_read_varint V c2 = Inr (ur_length req, c3)" "cur_rest c3 = rest"
    using cur_read_enc [OF _ c2(2)] assms(3) cmd by auto
  show ?thesis
    using assms cmd c2 c3
    by (simp add: Command_decode_def cur_read_u8_def UploadRequest_decode_def)
qed

lemma login_decode_bytes:
  assumes "login_wf V l" and "length rest < 2 ^ 63"
  shows "Login_decode V (login_bytes V l @ rest) = Inr l"
proof -
  let ?c = "Cursor_new (login_bytes V l @ rest)"
  have len: "length (cur_data ?c) < 2 ^ 64" and wf: "command_wf (lg_command l)"
    using assms by (auto simp: Cursor_new_def login_wf_def)
  have "cur_rest ?c = enc_varint V (length (lg_client_token l)) @ lg_client_token l
      @ (command_bytes V (lg_command l) @ rest)"
    by (simp add: Cursor_new_def cur_rest_def login_bytes_def)
  from read_bytes_enc [OF this len] obtain c1 where
    c1: "read_bytes V ?c = Inr (lg_client_token l, c1)" "cur_data c1 = cur_data ?c"
      "cur_rest c1 = command_bytes V (lg_command l) @ rest"
    by auto
  obtain c2 where "Command_decode V c1 = Inr (lg_command l, c2)"
    using command_decode_bytes [OF c1(3) _ wf] c1(2) len by auto
  with c1 show ?thesis by (simp add: Login_decode_def)
qed

end

section \<open>Chunk headers and chunk geometry\<close>

lemma le_value_le_bytes: "le_value (le_bytes k n) = n mod 256 ^ k"
proof (induction k arbitrary: n)
  case 0
  then show ?case by simp
next
  case (Suc k)
  have "unat (of_nat n :: u8) = n mod 256" by (simp add: unat_of_nat take_bit_nat_def)
  then show ?case by (simp add: Suc.IH mod_mult2_eq)
qed

lemma length_le_bytes [simp]: "length (le_bytes k n) = k"
  by (induction k arbitrary: n) auto

lemma take_le_bytes: "j \<le> k \<Longrightarrow> take j (le_bytes k n) = le_bytes j n"
proof (induction k arbitrary: j n)
  case 0
  then show ?case by simp
next
  case (Suc k)
  then show ?case by (cases j) auto
qed

lemma le_value_append_zeros [simp]: "le_value (bs @ replicate m 0) = le_value bs"
proof (induction bs)
  case Nil
  then show ?case by (induction m) auto
next
  case (Cons b bs)
  then show ?case by simp
qed

lemma le_value_bound: "le_value bs < 256 ^ length bs"
proof (induction bs)
  case Nil
  then show ?case by simp
next
  case (Cons b bs)
  have "unat b < 256" using unsigned_less [of b] by simp
  with Cons.IH show ?case by simp
qed

lemma Chunk_decode_eq:
  assumes "ifs \<le> 8" and "ifs \<le> length src"
  shows "Chunk_decode src ifs =
    Inr \<lparr>ch_index_field_size = ifs, ch_index = le_value (take ifs src), ch_buf = src\<rparr>"
  using assms by (simp add: Chunk_decode_def Let_def)

lemma Chunk_new_header:
  assumes "0 < ifs" and "ifs \<le> 8" and "ifs + n < 2 ^ 64"
  shows "\<exists>c. Chunk_new buf i ifs n = Inr c \<and> ch_index c = i \<and> ch_index_field_size c = ifs
    \<and> length (ch_buf c) = ifs + n \<and> take ifs (ch_buf c) = le_bytes ifs i"
  using assms by (simp add: Chunk_new_def vec_resize_def take_le_bytes Let_def)

lemma div_up_bounds:
  assumes "0 < c"
  shows "n \<le> div_up n c * c" and "div_up n c * c < n + c"
proof -
  define q r where "q = n div c" and "r = n mod c"
  have n: "n = q * c + r" and r: "r < c" using assms by (simp_all add: q_def r_def)
  have d: "div_up n c * c = q * c + (if r = 0 then 0 else c)"
    by (simp add: div_up_def q_def r_def algebra_simps)
  show "n \<le> div_up n c * c" unfolding d using n r by simp
  show "div_up n c * c < n + c" unfolding d using n r by simp
qed

lemma less_div_up_iff:
  assumes "0 < c"
  shows "i < div_up n c \<longleftrightarrow> i * c < n"
proof
  assume "i < div_up n c"
  then have "(i + 1) * c \<le> div_up n c * c" by (intro mult_le_mono) auto
  with div_up_bounds(2) [OF assms, of n] show "i * c < n" by simp
next
  assume "i * c < n"
  with div_up_bounds(1) [OF assms, of n] have "i * c < div_up n c * c"
    by linarith
  then show "i < div_up n c" by simp
qed

lemma div_up_le: "div_up n c \<le> n div c + 1"
  by (simp add: div_up_def)

lemma ifs_loop_correct:
  "len < 2 ^ 64 \<Longrightarrow> 1 \<le> i \<Longrightarrow> i \<le> 7 \<Longrightarrow>
   \<exists>j. ifs_loop len i = Inr (j, MTU - j) \<and> i \<le> j \<and> j \<le> 7
     \<and> div_up len (MTU - j) < 256 ^ j
     \<and> (\<forall>k. i \<le> k \<longrightarrow> k < j \<longrightarrow> 256 ^ k \<le> div_up len (MTU - k))"
proof (induction len i rule: ifs_loop.induct)
  case (1 len i)
  have pow: "(2::nat) ^ (i * 8) = 256 ^ i"
    using power_mult [of "2::nat" 8 i] by (simp add: mult.commute)
  have "div_up len (MTU - i) \<le> len div (MTU - i) + 1" by (rule div_up_le)
  also have "\<dots> \<le> len div 1453 + 1"
    using "1.prems" by (simp add: MTU_def div_le_mono2)
  also have "\<dots> < 2 ^ 55" using "1.prems"(1) by simp
  finally have small: "div_up len (MTU - i) < 2 ^ 55" .
  then have unfold: "ifs_loop len i =
      (if div_up len (MTU - i) < 256 ^ i then Inr (i, MTU - i) else ifs_loop len (i + 1))"
    using "1.prems" by (subst ifs_loop.simps) (auto simp: MTU_def pow)
  show ?case
  proof (cases "div_up len (MTU - i) < 256 ^ i")
    case True
    with unfold "1.prems" show ?thesis by auto
  next
    case False
    have "i \<noteq> 7" using False small by auto
    then obtain j where j: "ifs_loop len (i + 1) = Inr (j, MTU - j)" "i + 1 \<le> j" "j \<le> 7"
      "div_up len (MTU - j) < 256 ^ j"
      "\<forall>k. i + 1 \<le> k \<longrightarrow> k < j \<longrightarrow> 256 ^ k \<le> div_up len (MTU - k)"
      using "1.IH" [of "MTU - i" "div_up len (MTU - i) + 1"] "1.prems" small False pow
      by (auto simp: MTU_def)
    moreover have "256 ^ k \<le> div_up len (MTU - k)" if "i \<le> k" "k < j" for k
      using that j(5) False by (cases "k = i") auto
    ultimately show ?thesis using unfold False by auto
  qed
qed

text \<open>What \<open>index_field_size\<close> computes, as one predicate.\<close>

definition geometry :: "nat \<Rightarrow> ChunkInfo \<Rightarrow> bool" where
  "geometry len ci \<longleftrightarrow>
     1 \<le> ci_index_field_size ci \<and> ci_index_field_size ci \<le> 7
     \<and> ci_chunk_size ci = MTU - ci_index_field_size ci
     \<and> ci_num_chunks ci = div_up len (ci_chunk_size ci)
     \<and> ci_num_chunks ci < 256 ^ ci_index_field_size ci
     \<and> ci_last_chunk_size ci = len mod ci_chunk_size ci"

lemma geometryD:
  assumes "geometry len ci"
  shows "1 \<le> ci_index_field_size ci" and "ci_index_field_size ci \<le> 7"
    and "ci_chunk_size ci = MTU - ci_index_field_size ci"
    and "ci_num_chunks ci = div_up len (ci_chunk_size ci)"
    and "ci_num_chunks ci < 256 ^ ci_index_field_size ci"
    and "ci_last_chunk_size ci = len mod ci_chunk_size ci"
  using assms unfolding geometry_def by blast+

lemma index_field_size_geometry:
  assumes "len < 2 ^ 64"
  shows "\<exists>ci. index_field_size len = Inr ci \<and> geometry len ci"
  using ifs_loop_correct [OF assms, of 1] by (auto simp: index_field_size_def geometry_def)

lemma geometry_chunk_size: "geometry len ci \<Longrightarrow> 1453 \<le> ci_chunk_size ci \<and> ci_chunk_size ci \<le> 1459"
  by (auto simp: geometry_def MTU_def)

lemma geometry_num_chunks:
  "geometry len ci \<Longrightarrow> i < ci_num_chunks ci \<longleftrightarrow> i * ci_chunk_size ci < len"
proof -
  assume g: "geometry len ci"
  then have "0 < ci_chunk_size ci" using geometry_chunk_size [of len ci] by simp
  with g show ?thesis by (simp add: geometry_def less_div_up_iff del: diff_is_0_eq)
qed

section \<open>Properties\<close>

text \<open>C22: a login message is read back from its datagram exactly as it was written, whatever bytes
  follow it.\<close>

theorem login_roundtrip:
  assumes "varint_codec V" and "login_wf V l" and "length rest < 2 ^ 63"
  shows "\<exists>w. Login_encode V l vec_writer = Inr w \<and> Login_decode V (wr_out w @ rest) = Inr l"
  using varint_codec.login_encode_bytes [OF assms(1,2)] varint_codec.login_decode_bytes [OF assms]
  by auto

theorem login_roundtrip_witness:
  "\<exists>w. Login_encode leb_api
      \<lparr>lg_client_token = [7, 200], lg_command = CmdUploadRequest \<lparr>ur_path = [97, 47, 98], ur_length = 300\<rparr>\<rparr>
      vec_writer = Inr w
    \<and> Login_decode leb_api (wr_out w @ [1, 2])
      = Inr \<lparr>lg_client_token = [7, 200], lg_command = CmdUploadRequest \<lparr>ur_path = [97, 47, 98], ur_length = 300\<rparr>\<rparr>"
proof -
  have "login_wf leb_api
      \<lparr>lg_client_token = [7, 200], lg_command = CmdUploadRequest \<lparr>ur_path = [97, 47, 98], ur_length = 300\<rparr>\<rparr>"
    by (simp add: login_wf_def login_bytes_def request_bytes_def leb_api_def leb_enc.simps)
  from login_roundtrip [OF leb_varint_codec this, of "[1, 2]"] show ?thesis by simp
qed

text \<open>A login datagram with an unknown command tag makes the decoder panic instead of returning the
  error that the caller handles, and so does an empty datagram.\<close>

theorem login_decode_panics:
  assumes "varint_codec V" and "length token < 2 ^ 63" and "length rest < 2 ^ 62" and "tag \<noteq> 0"
  shows "Login_decode V (enc_varint V (length token) @ token @ tag # rest) = Inl (Panic ExplicitPanic)
    \<and> Login_decode V [] = Inl (Panic UnwrapErr)"
proof
  let ?src = "enc_varint V (length token) @ token @ tag # rest"
  have "length (enc_varint V (length token)) \<le> 10"
    using varint_codec.enc_length [OF assms(1)] assms(2) by simp
  then have len: "length (cur_data (Cursor_new ?src)) < 2 ^ 64"
    using assms(2,3) by (simp add: Cursor_new_def)
  have "cur_rest (Cursor_new ?src) = enc_varint V (length token) @ token @ (tag # rest)"
    by (simp add: Cursor_new_def cur_rest_def)
  from varint_codec.read_bytes_enc [OF assms(1) this len] obtain c1 where
    c1: "read_bytes V (Cursor_new ?src) = Inr (token, c1)" "cur_rest c1 = tag # rest"
    by auto
  then show "Login_decode V ?src = Inl (Panic ExplicitPanic)"
    using assms(4) by (simp add: Login_decode_def Command_decode_def cur_read_u8_def)
  show "Login_decode V [] = Inl (Panic UnwrapErr)"
    using varint_codec.dec_Nil [OF assms(1)]
    by (simp add: Login_decode_def read_bytes_def cur_read_varint_def Cursor_new_def cur_rest_def)
qed

theorem login_decode_panics_witness:
  "Login_decode leb_api (leb_enc 1 @ [65] @ [9]) = Inl (Panic ExplicitPanic)"
  using login_decode_panics [OF leb_varint_codec, of "[65]" "[]" 9] by (simp add: leb_api_def)

text \<open>C23: a chunk made for some data and filled with it is read back from its packet with its index and
  exactly this data, for every index the field can hold, whatever buffer it is made from.\<close>

theorem chunk_roundtrip:
  assumes "0 < ifs" and "ifs \<le> 8" and "ifs + length data < 2 ^ 64" and "i < 256 ^ ifs"
  shows "\<exists>c c'. Chunk_new buf i ifs (length data) = Inr c
    \<and> Chunk_decode (ch_buf (Chunk_fill c data)) ifs = Inr c'
    \<and> ch_index c' = i \<and> Chunk_as_ref c' = Inr data"
proof -
  obtain c where c: "Chunk_new buf i ifs (length data) = Inr c" "ch_index_field_size c = ifs"
    "length (ch_buf c) = ifs + length data" "take ifs (ch_buf c) = le_bytes ifs i"
    using Chunk_new_header [OF assms(1-3), of buf i] by blast
  then have "ch_buf (Chunk_fill c data) = le_bytes ifs i @ data" by (simp add: Chunk_fill_exact)
  then have "Chunk_decode (ch_buf (Chunk_fill c data)) ifs
      = Inr \<lparr>ch_index_field_size = ifs, ch_index = i, ch_buf = le_bytes ifs i @ data\<rparr>"
    using assms(2,4) by (simp add: Chunk_decode_eq le_value_le_bytes)
  then show ?thesis using c(1) by (auto simp: Chunk_as_ref_def)
qed

theorem chunk_roundtrip_witness:
  "\<exists>c c'. Chunk_new [9, 9] 258 2 (length [1, 2, 3 :: u8]) = Inr c
    \<and> Chunk_decode (ch_buf (Chunk_fill c [1, 2, 3])) 2 = Inr c'
    \<and> ch_index c' = 258 \<and> Chunk_as_ref c' = Inr [1, 2, 3]"
  using chunk_roundtrip [of 2 "[1, 2, 3]" 258 "[9, 9]"] by simp

text \<open>C24: for every 64-bit length the search for the index field size ends without a panic; the field
  can number every chunk and the end marker, a packet fits one datagram, and the chunks cover the
  file: all of it, and none of them starts beyond its end.\<close>

theorem index_field_size_correct:
  assumes "len < 2 ^ 64"
  shows "\<exists>ci. index_field_size len = Inr ci
    \<and> 1 \<le> ci_index_field_size ci \<and> ci_index_field_size ci \<le> 7
    \<and> ci_index_field_size ci + ci_chunk_size ci = MTU
    \<and> ci_num_chunks ci < 256 ^ ci_index_field_size ci
    \<and> len \<le> ci_num_chunks ci * ci_chunk_size ci
    \<and> (\<forall>i. i < ci_num_chunks ci \<longleftrightarrow> i * ci_chunk_size ci < len)
    \<and> ci_last_chunk_size ci = len mod ci_chunk_size ci"
proof -
  obtain ci where ci: "index_field_size len = Inr ci" "geometry len ci"
    using index_field_size_geometry [OF assms] by blast
  have "ci_index_field_size ci + ci_chunk_size ci = MTU"
    using geometryD(2,3) [OF ci(2)] by (simp add: MTU_def)
  moreover have "len \<le> ci_num_chunks ci * ci_chunk_size ci"
    using geometryD(4) [OF ci(2)] geometry_chunk_size [OF ci(2)] div_up_bounds(1) by simp
  ultimately show ?thesis
    using ci(1) geometryD(1,2,5,6) [OF ci(2)] geometry_num_chunks [OF ci(2)] by blast
qed

theorem index_field_size_correct_witness:
  "(1000000 :: nat) < 2 ^ 64 \<and> (\<exists>ci. index_field_size 1000000 = Inr ci \<and> 1000000 \<le> ci_num_chunks ci * ci_chunk_size ci)"
  using index_field_size_correct [of 1000000] by auto

end
