(* ===== verification/Chunking.thy ===== *)
theory Chunking
  imports Prelude
begin

text \<open>
  A byte sequence cut into chunks of one size, as both versions of the program cut files and blocks:
  the chunks, what a write inside one chunk does to all of them, and that equal chunks mean equal
  sequences.
\<close>

definition chunk_of :: "nat \<Rightarrow> 'a list \<Rightarrow> nat \<Rightarrow> 'a list" where
  "chunk_of s xs i = take s (drop (i * s) xs)"

lemma length_chunk_of:
  "length (chunk_of s c i) = min (s) (length c - i * s)"
  by (auto simp: chunk_of_def)

lemma nth_chunk_of:
  "k < length (chunk_of s c i) \<Longrightarrow> chunk_of s c i ! k = c ! (i * s + k)"
  by (auto simp: chunk_of_def)

lemma chunk_position:
  assumes "i * s + k = j * s + l" and "k < s" and "l < (s::nat)"
  shows "i = j"
proof -
  have "i = (i * s + k) div s" using assms(2) by simp
  also have "\<dots> = j" unfolding assms(1) using assms(3) by simp
  finally show ?thesis .
qed

lemma write_inside_chunk_of:
  assumes "w + length ds \<le> length (chunk_of s c i)" and "ds \<noteq> []"
  shows "i * s + w + length ds \<le> length c"
proof -
  have "0 < length ds" using assms(2) by simp
  with assms(1) show ?thesis unfolding length_chunk_of by linarith
qed

text \<open>A write inside chunk \<open>i\<close> leaves the other chunks alone and fills its own.\<close>

lemma chunk_of_overwrite_other:
  assumes "w + length ds \<le> length (chunk_of s c i)" and "j \<noteq> i"
  shows "chunk_of s (overwrite c (i * s + w) ds) j = chunk_of s c j"
proof (cases "ds = []")
  case True
  then show ?thesis by (simp add: overwrite_def)
next
  case False
  let ?c = "overwrite c (i * s + w) ds"
  have le: "i * s + w + length ds \<le> length c"
    using assms(1) False by (rule write_inside_chunk_of)
  show ?thesis
  proof (rule nth_equalityI)
    show "length (chunk_of s ?c j) = length (chunk_of s c j)"
      using le by (simp add: length_chunk_of)
  next
    fix k
    assume k: "k < length (chunk_of s ?c j)"
    then have k': "k < length (chunk_of s c j)" and ks: "k < s"
      and pos: "j * s + k < length c"
      using le by (auto simp: length_chunk_of)
    have "\<not> (i * s + w \<le> j * s + k \<and> j * s + k < i * s + w + length ds)"
    proof
      assume rng: "i * s + w \<le> j * s + k \<and> j * s + k < i * s + w + length ds"
      let ?l = "j * s + k - i * s"
      have "i * s + ?l = j * s + k" and "?l < s"
        using rng assms(1) by (auto simp: length_chunk_of)
      then have "i = j" using ks by (intro chunk_position [of i s ?l j k]) auto
      with assms(2) show False by simp
    qed
    then show "chunk_of s ?c j ! k = chunk_of s c j ! k"
      using k k' pos le by (auto simp: nth_chunk_of nth_overwrite)
  qed
qed

lemma chunk_of_overwrite_prefix:
  assumes "w + length ds \<le> length (chunk_of s c i)"
  shows "take (w + length ds) (chunk_of s (overwrite c (i * s + w) ds) i)
    = take w (chunk_of s c i) @ ds"
proof (cases "ds = []")
  case True
  then show ?thesis by (simp add: overwrite_def)
next
  case False
  let ?c = "overwrite c (i * s + w) ds"
  have le: "i * s + w + length ds \<le> length c"
    using assms False by (rule write_inside_chunk_of)
  then have len: "length (chunk_of s ?c i) = length (chunk_of s c i)"
    by (simp add: length_chunk_of)
  show ?thesis
  proof (rule nth_equalityI)
    show "length (take (w + length ds) (chunk_of s ?c i)) = length (take w (chunk_of s c i) @ ds)"
      using assms len by simp
  next
    fix k
    assume "k < length (take (w + length ds) (chunk_of s ?c i))"
    then have k: "k < w + length ds" and kc: "k < length (chunk_of s c i)"
      using len by simp_all
    then have "i * s + k < length c" by (auto simp: length_chunk_of)
    then show "take (w + length ds) (chunk_of s ?c i) ! k = (take w (chunk_of s c i) @ ds) ! k"
      using k kc len le assms by (simp add: nth_chunk_of nth_overwrite nth_append)
  qed
qed

text \<open>Sequences of one length with the same chunks, as far as chunks start inside them, are equal.\<close>

lemma chunk_of_all:
  assumes "0 < s" and "length c = length src"
    and "\<And>i. i * s < length src \<Longrightarrow> chunk_of s c i = chunk_of s src i"
  shows "c = src"
proof (rule nth_equalityI)
  fix k
  assume k: "k < length c"
  let ?i = "k div s"
  have k_eq: "?i * s + k mod s = k" by simp
  then have le: "?i * s \<le> k" by linarith
  then have "?i * s < length src" using k assms(2) by linarith
  then have eq: "chunk_of s c ?i = chunk_of s src ?i" by (rule assms(3))
  have "k mod s < length (chunk_of s c ?i)"
    using k k_eq assms(1) le by (auto simp: length_chunk_of less_diff_conv)
  then show "c ! k = src ! k"
    using nth_chunk_of [of "k mod s" s c ?i] nth_chunk_of [of "k mod s" s src ?i] eq k_eq by simp
qed (simp add: assms(2))

end
