(* ===== verification/Packets.thy ===== *)
theory Packets
  imports Codec Chunking
begin

text \<open>
  The data packets of one source file: what chunk \<open>i\<close> of a byte sequence is, the packet that
  carries it and the packet that ends an upload. Client and server are both specified by these.
\<close>

section \<open>Packets of one source file\<close>

definition chunk_data :: "ChunkInfo \<Rightarrow> u8 list \<Rightarrow> nat \<Rightarrow> u8 list" where
  "chunk_data ci src i = chunk_of (ci_chunk_size ci) src i"

definition data_packet :: "ChunkInfo \<Rightarrow> u8 list \<Rightarrow> nat \<Rightarrow> u8 list" where
  "data_packet ci src i = le_bytes (ci_index_field_size ci) i @ chunk_data ci src i"

definition fin_packet :: "ChunkInfo \<Rightarrow> u8 list" where
  "fin_packet ci = le_bytes (ci_index_field_size ci) (ci_num_chunks ci)"

definition genuine :: "ChunkInfo \<Rightarrow> u8 list \<Rightarrow> u8 list \<Rightarrow> bool" where
  "genuine ci src p \<longleftrightarrow>
     p = fin_packet ci \<or> (\<exists>i < ci_num_chunks ci. p = data_packet ci src i)"

section \<open>Chunks of the file\<close>

lemma length_chunk_data:
  "length (chunk_data ci c i) = min (ci_chunk_size ci) (length c - i * ci_chunk_size ci)"
  by (simp add: chunk_data_def length_chunk_of)

lemma write_inside_chunk:
  assumes "w + length ds \<le> length (chunk_data ci c i)" and "ds \<noteq> []"
  shows "i * ci_chunk_size ci + w + length ds \<le> length c"
  using assms unfolding chunk_data_def by (rule write_inside_chunk_of)

lemma chunk_data_overwrite_other:
  assumes "w + length ds \<le> length (chunk_data ci c i)" and "j \<noteq> i"
  shows "chunk_data ci (overwrite c (i * ci_chunk_size ci + w) ds) j = chunk_data ci c j"
  using assms unfolding chunk_data_def by (rule chunk_of_overwrite_other)

lemma chunk_data_overwrite_prefix:
  assumes "w + length ds \<le> length (chunk_data ci c i)"
  shows "take (w + length ds) (chunk_data ci (overwrite c (i * ci_chunk_size ci + w) ds) i)
    = take w (chunk_data ci c i) @ ds"
  using assms unfolding chunk_data_def by (rule chunk_of_overwrite_prefix)

end
