(* ===== verification/Bit_Map.thy ===== *)
theory Bit_Map
  imports Prelude
begin

text \<open>
  The crate \<^verbatim>\<open>v1/bitte-ein-bit\<close> (\<^verbatim>\<open>lib.rs\<close>, \<^verbatim>\<open>range.rs\<close>): a bitmap over a
  byte buffer with a cached number of zero bits, its iterator and its range arguments. The record,
  every method, the abstraction \<open>bits\<close> to a list of booleans, the invariant \<open>bm_ok\<close>, the interface
  \<open>bit_array\<close> other components rely on, and its interpretation on the methods.
\<close>

unbundle bit_operations_syntax

section \<open>The bitmap and its methods\<close>

record BitMap =
  bm_buf :: "u8 list"
  bm_num_bits :: nat
  bm_zeroes :: nat

definition BitMap_check :: "BitMap \<Rightarrow> nat \<Rightarrow> unit res" where
  "BitMap_check m i = (if i > bm_num_bits m then Inl (Panic ExplicitPanic) else Inr ())"

definition bitmask :: "nat \<Rightarrow> u8" where
  "bitmask i = push_bit (i mod 8) 1"

definition BitMap_get :: "BitMap \<Rightarrow> nat \<Rightarrow> bool res" where
  "BitMap_get m i =
     bindE (BitMap_check m i) (\<lambda>_.
     bindE (slice_get (bm_buf m) (i div 8)) (\<lambda>byte.
     Inr (byte AND bitmask i = bitmask i)))"

text \<open>Returns the old value and the changed map.\<close>

definition BitMap_set :: "BitMap \<Rightarrow> nat \<Rightarrow> bool \<Rightarrow> (bool \<times> BitMap) res" where
  "BitMap_set m i new =
     bindE (BitMap_check m i) (\<lambda>_.
     bindE (slice_get (bm_buf m) (i div 8)) (\<lambda>byte.
     let old = (byte AND bitmask i = bitmask i) in
     if old \<noteq> new then
       let byte1 = byte AND NOT (bitmask i);
           byte2 = byte1 OR push_bit (i mod 8) (if new then 1 else 0);
           m1 = m\<lparr>bm_buf := (bm_buf m)[i div 8 := byte2]\<rparr>
       in bindE (if new then sub64 (bm_zeroes m) 1 else add64 (bm_zeroes m) 1) (\<lambda>z.
          Inr (old, m1\<lparr>bm_zeroes := z\<rparr>))
     else Inr (old, m)))"

definition BitMap_flip_bit :: "BitMap \<Rightarrow> nat \<Rightarrow> (bool \<times> BitMap) res" where
  "BitMap_flip_bit m i =
     bindE (BitMap_check m i) (\<lambda>_.
     bindE (slice_get (bm_buf m) (i div 8)) (\<lambda>byte.
     let byte1 = byte XOR bitmask i;
         m1 = m\<lparr>bm_buf := (bm_buf m)[i div 8 := byte1]\<rparr>;
         new = (byte1 = bitmask i)
     in bindE (if new then sub64 (bm_zeroes m) 1 else add64 (bm_zeroes m) 1) (\<lambda>z.
        Inr (new, m1\<lparr>bm_zeroes := z\<rparr>))))"

definition BitMap_reset :: "BitMap \<Rightarrow> BitMap" where
  "BitMap_reset m = m\<lparr>bm_buf := map (\<lambda>_. 0) (bm_buf m), bm_zeroes := bm_num_bits m\<rparr>"

definition BitMap_ones :: "BitMap \<Rightarrow> nat res" where
  "BitMap_ones m = sub64 (bm_num_bits m) (bm_zeroes m)"

definition BitMap_all :: "BitMap \<Rightarrow> bool" where
  "BitMap_all m = (bm_zeroes m = 0)"

definition BitMap_any :: "BitMap \<Rightarrow> bool" where
  "BitMap_any m = (bm_zeroes m \<noteq> bm_num_bits m)"

definition BitMap_index :: "BitMap \<Rightarrow> nat \<Rightarrow> bool res" where
  "BitMap_index m i = bindE (BitMap_get m i) (\<lambda>b. if b then Inr True else Inr False)"

section \<open>Ranges and iteration\<close>

datatype RangeArgument =
    Range nat nat
  | RangeFrom nat
  | RangeTo nat
  | RangeFull

fun range_start :: "RangeArgument \<Rightarrow> nat option" where
  "range_start (Range a b) = Some a"
| "range_start (RangeFrom a) = Some a"
| "range_start (RangeTo b) = None"
| "range_start RangeFull = None"

fun range_end :: "RangeArgument \<Rightarrow> nat option" where
  "range_end (Range a b) = Some b"
| "range_end (RangeFrom a) = None"
| "range_end (RangeTo b) = Some b"
| "range_end RangeFull = None"

record Iter =
  it_bitmap :: BitMap
  it_front :: nat
  it_back :: nat

definition BitMap_iter_range :: "BitMap \<Rightarrow> RangeArgument \<Rightarrow> Iter" where
  "BitMap_iter_range m r =
     \<lparr>it_bitmap = m,
      it_front = (case range_start r of Some a \<Rightarrow> a | None \<Rightarrow> 0),
      it_back = (case range_end r of Some b \<Rightarrow> b | None \<Rightarrow> bm_num_bits m)\<rparr>"

definition BitMap_iter :: "BitMap \<Rightarrow> Iter" where
  "BitMap_iter m = BitMap_iter_range m RangeFull"

definition Iter_next :: "Iter \<Rightarrow> (bool option \<times> Iter) res" where
  "Iter_next it =
     (if it_front it = it_back it then Inr (None, it)
      else let front = it_front it in
        bindE (add64 (it_front it) 1) (\<lambda>front'.
        bindE (BitMap_get (it_bitmap it) front) (\<lambda>b.
        Inr (Some b, it\<lparr>it_front := front'\<rparr>))))"

definition Iter_next_back :: "Iter \<Rightarrow> (bool option \<times> Iter) res" where
  "Iter_next_back it =
     (if it_front it = it_back it then Inr (None, it)
      else bindE (sub64 (it_back it) 1) (\<lambda>back'.
        bindE (BitMap_get (it_bitmap it) back') (\<lambda>b.
        Inr (Some b, it\<lparr>it_back := back'\<rparr>))))"

text \<open>
  How many items an iterator can still yield before an access past the map panics: the reason a
  \<^verbatim>\<open>for\<close> loop over it ends, also when \<open>front\<close> starts beyond \<open>back\<close>.
\<close>

definition iter_left :: "Iter \<Rightarrow> nat" where
  "iter_left it = Suc (bm_num_bits (it_bitmap it)) - it_front it"

lemma iter_left_next:
  "Iter_next it = Inr (Some b, it') \<Longrightarrow> iter_left it' < iter_left it"
  by (auto simp: Iter_next_def iter_left_def BitMap_get_def BitMap_check_def outcome_simps Let_def
      split: if_splits)

text \<open>Draining an iterator, as \<^verbatim>\<open>filter(..).count()\<close> and \<^verbatim>\<open>for\<close> do.\<close>

function Iter_collect :: "Iter \<Rightarrow> bool list res" where
  "Iter_collect it =
     (case Iter_next it of
        Inl e \<Rightarrow> Inl e
      | Inr (None, _) \<Rightarrow> Inr []
      | Inr (Some b, it') \<Rightarrow> bindE (Iter_collect it') (\<lambda>bs. Inr (b # bs)))"
  by pat_completeness auto
termination
  by (relation "measure iter_left") (auto dest: iter_left_next)

declare Iter_collect.simps [simp del]

definition BitMap_with_length :: "u8 list \<Rightarrow> nat \<Rightarrow> BitMap res" where
  "BitMap_with_length buf num_bits =
     bindE (mul64 (length buf) 8) (\<lambda>cap.
     if cap < num_bits then Inl (Panic ExplicitPanic)
     else let m = \<lparr>bm_buf = buf, bm_num_bits = num_bits, bm_zeroes = 0\<rparr> in
       bindE (Iter_collect (BitMap_iter m)) (\<lambda>bs.
       Inr (m\<lparr>bm_zeroes := length (filter (\<lambda>x. \<not> x) bs)\<rparr>)))"

definition BitMap_new :: "u8 list \<Rightarrow> BitMap res" where
  "BitMap_new buf = bindE (mul64 (length buf) 8) (\<lambda>num_bits. BitMap_with_length buf num_bits)"

definition BitMap_from :: "u8 list \<Rightarrow> BitMap res" where
  "BitMap_from buf = BitMap_new buf"

definition BitMap_into_iter :: "BitMap \<Rightarrow> Iter" where
  "BitMap_into_iter m = BitMap_iter m"

definition BitMap_zeroes :: "BitMap \<Rightarrow> nat" where
  "BitMap_zeroes m = bm_zeroes m"

definition BitMap_num_bits :: "BitMap \<Rightarrow> nat" where
  "BitMap_num_bits m = bm_num_bits m"

definition BitMap_get_ref :: "BitMap \<Rightarrow> u8 list" where
  "BitMap_get_ref m = bm_buf m"

text \<open>What the caller writes through \<^verbatim>\<open>get_mut\<close> replaces the buffer; the cached count is not updated.\<close>

definition BitMap_get_mut :: "(u8 list \<Rightarrow> u8 list) \<Rightarrow> BitMap \<Rightarrow> BitMap" where
  "BitMap_get_mut f m = m\<lparr>bm_buf := f (bm_buf m)\<rparr>"

definition BitMap_into_inner :: "BitMap \<Rightarrow> u8 list" where
  "BitMap_into_inner m = bm_buf m"

section \<open>Abstraction and invariant\<close>

definition bit_at :: "BitMap \<Rightarrow> nat \<Rightarrow> bool" where
  "bit_at m i = bit (bm_buf m ! (i div 8)) (i mod 8)"

definition bits :: "BitMap \<Rightarrow> bool list" where
  "bits m = map (bit_at m) [0..<bm_num_bits m]"

definition bm_fits :: "BitMap \<Rightarrow> bool" where
  "bm_fits m \<longleftrightarrow> bm_num_bits m \<le> 8 * length (bm_buf m) \<and> 8 * length (bm_buf m) < 2 ^ 64"

definition bm_ok :: "BitMap \<Rightarrow> bool" where
  "bm_ok m \<longleftrightarrow> bm_fits m \<and> bm_zeroes m = count_list (bits m) False"

section \<open>The interface the rest of the program relies on\<close>

locale bit_array =
  fixes get :: "'m \<Rightarrow> nat \<Rightarrow> bool res"
    and upd :: "'m \<Rightarrow> nat \<Rightarrow> bool \<Rightarrow> (bool \<times> 'm) res"
    and zeros :: "'m \<Rightarrow> nat"
    and full :: "'m \<Rightarrow> bool"
    and view :: "'m \<Rightarrow> bool list"
    and ok :: "'m \<Rightarrow> bool"
  assumes get_view: "ok m \<Longrightarrow> i < length (view m) \<Longrightarrow> get m i = Inr (view m ! i)"
    and upd_view: "ok m \<Longrightarrow> i < length (view m) \<Longrightarrow>
      \<exists>m'. upd m i b = Inr (view m ! i, m') \<and> ok m' \<and> view m' = (view m)[i := b]"
    and zeros_view: "ok m \<Longrightarrow> zeros m = count_list (view m) False"
    and full_view: "ok m \<Longrightarrow> full m \<longleftrightarrow> (\<forall>b \<in> set (view m). b)"
begin

lemma upd_ok:
  assumes "ok m" and "i < length (view m)" and "upd m i b = Inr (old, m')"
  shows "ok m' \<and> old = view m ! i \<and> view m' = (view m)[i := b]"
  using upd_view [OF assms(1,2), of b] assms(3) by auto

lemma get_after_upd:
  assumes "ok m" and "i < length (view m)" and "j < length (view m)"
    and "upd m i b = Inr (old, m')"
  shows "get m' j = Inr (if i = j then b else view m ! j)"
  using upd_ok [OF assms(1,2,4)] assms(2,3) by (simp add: get_view nth_list_update)

lemma zeros_after_set:
  assumes "ok m" and "i < length (view m)" and "upd m i True = Inr (old, m')"
  shows "zeros m' + (if old then 0 else 1) = zeros m"
  using upd_ok [OF assms] assms(1) count_list_update [OF assms(2), of True False]
  by (auto simp: zeros_view)

lemma set_twice:
  assumes "ok m" and "i < length (view m)" and "upd m i True = Inr (old, m')"
    and "upd m' i True = Inr (old', m'')"
  shows "old' \<and> view m'' = view m' \<and> zeros m'' = zeros m'"
  using upd_ok [OF assms(1-3)] upd_ok [of m' i True old' m''] assms(2,4)
  by (auto simp: zeros_view)

lemma full_iff_zeros: "ok m \<Longrightarrow> full m \<longleftrightarrow> zeros m = 0"
  by (auto simp: full_view zeros_view count_list_0_iff_notin) metis

end

section \<open>The methods satisfy the interface\<close>

lemma bit_power_u8: "n < 8 \<Longrightarrow> bit (2 ^ n :: u8) k \<longleftrightarrow> k = n"
  by (auto simp: bit_exp_iff)

lemma bit_bitmask: "bit (bitmask i) k \<longleftrightarrow> k = i mod 8"
  by (simp add: bitmask_def bit_power_u8)

lemma and_bitmask: "(byte AND bitmask i = bitmask i) \<longleftrightarrow> bit byte (i mod 8)"
proof
  assume "byte AND bitmask i = bitmask i"
  then have "bit (byte AND bitmask i) (i mod 8) \<longleftrightarrow> bit (bitmask i) (i mod 8)" by simp
  then show "bit byte (i mod 8)" by (simp add: bit_and_iff bit_bitmask)
next
  assume "bit byte (i mod 8)"
  then show "byte AND bitmask i = bitmask i"
    by (intro bit_eqI) (auto simp: bit_and_iff bit_bitmask)
qed

lemma bit_set_byte:
  assumes "k < 8"
  shows "bit ((byte AND NOT (bitmask i)) OR push_bit (i mod 8) (if new then 1 else (0::u8))) k
    \<longleftrightarrow> (if k = i mod 8 then new else bit byte k)"
  using assms
  by (auto simp: bit_or_iff bit_and_iff bit_not_iff bit_bitmask bit_power_u8)

lemma length_bits [simp]: "length (bits m) = bm_num_bits m"
  by (simp add: bits_def)

lemma nth_bits [simp]: "i < bm_num_bits m \<Longrightarrow> bits m ! i = bit_at m i"
  by (simp add: bits_def)

lemma bm_fits_byte: "bm_fits m \<Longrightarrow> i < bm_num_bits m \<Longrightarrow> i div 8 < length (bm_buf m)"
  by (simp add: bm_fits_def less_mult_imp_div_less mult.commute)

lemma BitMap_get_fits: "bm_fits m \<Longrightarrow> i < bm_num_bits m \<Longrightarrow> BitMap_get m i = Inr (bit_at m i)"
  by (simp add: BitMap_get_def BitMap_check_def bm_fits_byte and_bitmask bit_at_def)

lemma bits_update_byte:
  assumes "bm_fits m" and "i < bm_num_bits m"
    and "\<And>k. k < 8 \<Longrightarrow> bit byte' k = (if k = i mod 8 then new else bit (bm_buf m ! (i div 8)) k)"
  shows "bits (m\<lparr>bm_buf := (bm_buf m)[i div 8 := byte']\<rparr>) = (bits m)[i := new]"
proof (rule nth_equalityI)
  fix j
  assume "j < length (bits (m\<lparr>bm_buf := (bm_buf m)[i div 8 := byte']\<rparr>))"
  then have j: "j < bm_num_bits m" by simp
  have "(i div 8 = j div 8 \<and> i mod 8 = j mod 8) \<longleftrightarrow> i = j"
    by (metis div_mult_mod_eq)
  then show "bits (m\<lparr>bm_buf := (bm_buf m)[i div 8 := byte']\<rparr>) ! j = (bits m)[i := new] ! j"
    using j assms(2) assms(3) [of "j mod 8"] bm_fits_byte [OF assms(1,2)]
    by (auto simp: bit_at_def nth_list_update)
qed simp

lemma bits_zeroes_irrelevant [simp]: "bits (m\<lparr>bm_zeroes := z\<rparr>) = bits m"
  by (simp add: bits_def bit_at_def [abs_def])

lemma zeros_bound: "bm_ok m \<Longrightarrow> bm_zeroes m \<le> bm_num_bits m \<and> bm_num_bits m < 2 ^ 64"
  using count_list_le_length [of "bits m" False] by (simp add: bm_ok_def bm_fits_def)

lemma BitMap_set_ok:
  assumes "bm_ok m" and "i < bm_num_bits m"
  shows "\<exists>m'. BitMap_set m i new = Inr (bit_at m i, m') \<and> bm_ok m' \<and> bits m' = (bits m)[i := new]"
proof (cases "bit_at m i = new")
  case True
  then have "(bits m)[i := new] = bits m"
    using list_update_id [of "bits m" i] assms(2) by simp
  with True assms show ?thesis
    by (auto simp: BitMap_set_def BitMap_check_def bm_fits_byte and_bitmask bm_ok_def
        bit_at_def Let_def)
next
  case False
  let ?byte = "bm_buf m ! (i div 8)"
  let ?byte' = "(?byte AND NOT (bitmask i)) OR push_bit (i mod 8) (if new then 1 else 0)"
  let ?m1 = "m\<lparr>bm_buf := (bm_buf m)[i div 8 := ?byte']\<rparr>"
  let ?z = "if new then bm_zeroes m - 1 else bm_zeroes m + 1"
  have fits: "bm_fits m" and z: "bm_zeroes m = count_list (bits m) False"
    using assms(1) by (auto simp: bm_ok_def)
  have upd: "bits ?m1 = (bits m)[i := new]"
    using fits assms(2) by (rule bits_update_byte) (simp only: bit_set_byte)
  have cnt: "count_list (bits ?m1) False + (if bit_at m i then 0 else 1)
      = bm_zeroes m + (if new then 0 else 1)"
    using count_list_update [of i "bits m" new False] assms(2)
    by (auto simp: upd z split: if_splits)
  have le: "count_list (bits ?m1) False \<le> bm_num_bits m"
    using count_list_le_length [of "bits ?m1" False] by simp
  have lim: "bm_num_bits m < 2 ^ 64" using fits by (simp add: bm_fits_def)
  have zn: "(if new then sub64 (bm_zeroes m) 1 else add64 (bm_zeroes m) 1) = Inr ?z"
    using cnt le lim False by (auto simp: add64_def sub64_def)
  have "BitMap_set m i new = Inr (bit_at m i, ?m1\<lparr>bm_zeroes := ?z\<rparr>)"
    using fits assms(2) False zn
    by (simp add: BitMap_set_def BitMap_check_def bm_fits_byte and_bitmask bit_at_def Let_def)
  moreover have "bm_ok (?m1\<lparr>bm_zeroes := ?z\<rparr>)"
    using fits cnt False by (auto simp: bm_ok_def bm_fits_def)
  ultimately show ?thesis using upd by auto
qed

interpretation bm: bit_array BitMap_get BitMap_set bm_zeroes BitMap_all bits bm_ok
proof
  show "BitMap_get m i = Inr (bits m ! i)" if "bm_ok m" "i < length (bits m)" for m i
    using that by (simp add: bm_ok_def BitMap_get_fits)
  show "\<exists>m'. BitMap_set m i b = Inr (bits m ! i, m') \<and> bm_ok m' \<and> bits m' = (bits m)[i := b]"
    if "bm_ok m" "i < length (bits m)" for m i b
    using BitMap_set_ok [of m i b] that by simp
  show "BitMap_all m \<longleftrightarrow> (\<forall>b \<in> set (bits m). b)" if "bm_ok m" for m
    using that by (auto simp: BitMap_all_def bm_ok_def count_list_0_iff_notin) metis
qed (simp add: bm_ok_def)

section \<open>Iteration and construction\<close>

lemma Iter_collect_range:
  assumes "bm_fits (it_bitmap it)" and "it_front it \<le> it_back it"
    and "it_back it \<le> bm_num_bits (it_bitmap it)"
  shows "Iter_collect it = Inr (map (bit_at (it_bitmap it)) [it_front it..<it_back it])"
  using assms
proof (induction it rule: Iter_collect.induct)
  case (1 it)
  show ?case
  proof (cases "it_front it = it_back it")
    case True
    then show ?thesis by (subst Iter_collect.simps) (simp add: Iter_next_def)
  next
    case False
    let ?it = "it\<lparr>it_front := Suc (it_front it)\<rparr>"
    have lt: "it_front it < it_back it" using False "1.prems" by simp
    then have "it_front it + 1 < 2 ^ 64" using "1.prems" by (simp add: bm_fits_def)
    then have nxt: "Iter_next it = Inr (Some (bit_at (it_bitmap it) (it_front it)), ?it)"
      using "1.prems" lt by (simp add: Iter_next_def BitMap_get_fits Let_def)
    have "Iter_collect ?it = Inr (map (bit_at (it_bitmap it)) [Suc (it_front it)..<it_back it])"
      using "1.IH" [OF nxt refl refl] "1.prems" lt by simp
    then show ?thesis
      using lt by (subst Iter_collect.simps) (simp add: nxt upt_conv_Cons)
  qed
qed

lemma Iter_collect_iter: "bm_fits m \<Longrightarrow> Iter_collect (BitMap_iter m) = Inr (bits m)"
  by (simp add: BitMap_iter_def BitMap_iter_range_def Iter_collect_range bits_def)

lemma count_list_filter_not: "length (filter (\<lambda>x. \<not> x) bs) = count_list bs False"
  by (induction bs) auto

lemma BitMap_with_length_ok:
  assumes "num_bits \<le> 8 * length buf" and "8 * length buf < 2 ^ 64"
  shows "\<exists>m. BitMap_with_length buf num_bits = Inr m \<and> bm_ok m \<and> bm_buf m = buf
    \<and> bm_num_bits m = num_bits"
proof -
  let ?m = "\<lparr>bm_buf = buf, bm_num_bits = num_bits, bm_zeroes = 0\<rparr>"
  have "bm_fits ?m" using assms by (simp add: bm_fits_def)
  then have "BitMap_with_length buf num_bits
      = Inr (?m\<lparr>bm_zeroes := count_list (bits ?m) False\<rparr>)"
    using assms by (simp add: BitMap_with_length_def Iter_collect_iter count_list_filter_not
        mult.commute Let_def)
  moreover have "bits (?m\<lparr>bm_zeroes := count_list (bits ?m) False\<rparr>) = bits ?m"
    by (rule bits_zeroes_irrelevant)
  ultimately show ?thesis
    using \<open>bm_fits ?m\<close> by (auto simp: bm_ok_def bm_fits_def)
qed

lemma BitMap_new_ok:
  assumes "8 * length buf < 2 ^ 64"
  shows "\<exists>m. BitMap_new buf = Inr m \<and> bm_ok m \<and> bm_buf m = buf \<and> bm_num_bits m = 8 * length buf"
  using BitMap_with_length_ok [of "8 * length buf" buf] assms
  by (simp add: BitMap_new_def mult.commute)

lemma BitMap_with_length_small:
  assumes "length buf * 8 < num_bits" and "8 * length buf < 2 ^ 64"
  shows "BitMap_with_length buf num_bits = Inl (Panic ExplicitPanic)"
  using assms by (simp add: BitMap_with_length_def mult.commute)

lemma bits_zero_buf:
  assumes "bm_fits m" and "\<forall>b \<in> set (bm_buf m). b = 0"
  shows "bits m = replicate (bm_num_bits m) False"
proof (rule nth_equalityI)
  fix i
  assume "i < length (bits m)"
  then have "i < bm_num_bits m" by simp
  moreover from this have "bm_buf m ! (i div 8) = 0"
    using assms bm_fits_byte nth_mem by blast
  ultimately show "bits m ! i = replicate (bm_num_bits m) False ! i"
    by (simp add: bit_at_def)
qed simp

lemma BitMap_reset_ok:
  assumes "bm_ok m"
  shows "bm_ok (BitMap_reset m) \<and> bits (BitMap_reset m) = replicate (bm_num_bits m) False"
proof -
  have fits: "bm_fits (BitMap_reset m)"
    using assms by (simp add: bm_ok_def bm_fits_def BitMap_reset_def)
  have "bits (BitMap_reset m) = replicate (bm_num_bits (BitMap_reset m)) False"
    by (rule bits_zero_buf [OF fits]) (simp add: BitMap_reset_def)
  then have "bits (BitMap_reset m) = replicate (bm_num_bits m) False"
    by (simp add: BitMap_reset_def)
  moreover have "count_list (replicate n False) False = n" for n by (induction n) auto
  ultimately show ?thesis using fits by (simp add: bm_ok_def BitMap_reset_def)
qed

section \<open>Where the methods leave their documentation\<close>

text \<open>
  \<open>flip_bit\<close> compares the whole byte with the mask, so the value it returns, and the direction in
  which it corrects the cached count, is right only when the other seven bits of the byte are clear.
\<close>

lemma xor_bitmask_eq:
  "(byte XOR bitmask i = bitmask i) \<longleftrightarrow> byte = 0"
proof
  assume eq: "byte XOR bitmask i = bitmask i"
  show "byte = 0"
  proof (rule bit_eqI)
    fix k
    have "bit (byte XOR bitmask i) k \<longleftrightarrow> bit (bitmask i) k" by (simp only: eq)
    then show "bit byte k \<longleftrightarrow> bit 0 k" by (auto simp: bit_xor_iff)
  qed
qed simp

lemma BitMap_flip_bit_value:
  assumes "bm_ok m" and "i < bm_num_bits m" and "BitMap_flip_bit m i = Inr (new, m')"
  shows "(new \<longleftrightarrow> bm_buf m ! (i div 8) = 0) \<and> bits m' = (bits m)[i := \<not> bit_at m i]"
proof -
  let ?b = "bm_buf m ! (i div 8) XOR bitmask i"
  have fits: "bm_fits m" using assms(1) by (simp add: bm_ok_def)
  have "bits (m\<lparr>bm_buf := (bm_buf m)[i div 8 := ?b]\<rparr>) = (bits m)[i := \<not> bit_at m i]"
    using fits assms(2)
    by (rule bits_update_byte) (auto simp: bit_xor_iff bit_bitmask bit_at_def)
  then show ?thesis
    using assms(3) fits assms(2)
    by (auto simp: BitMap_flip_bit_def BitMap_check_def bm_fits_byte xor_bitmask_eq Let_def
        outcome_simps split: if_splits)
qed

section \<open>Properties\<close>

text \<open>C11: \<^verbatim>\<open>set\<close> on a well-formed bitmap implements the update of a list of booleans: it returns the
  old bit, keeps the invariant with the cached number of zeroes, and changes no other bit, as
  \<^verbatim>\<open>get\<close> sees it.\<close>

theorem bitmap_set_refines:
  assumes "bm_ok m" and "i < bm_num_bits m"
  shows "\<exists>m'. BitMap_set m i b = Inr (bits m ! i, m') \<and> bm_ok m' \<and> bits m' = (bits m)[i := b]
    \<and> (\<forall>j < bm_num_bits m. BitMap_get m' j = Inr (if i = j then b else bits m ! j))"
proof -
  obtain m' where "BitMap_set m i b = Inr (bits m ! i, m')" "bm_ok m'" "bits m' = (bits m)[i := b]"
    using bm.upd_view [of m i b] assms by auto
  moreover from this have "BitMap_get m' j = Inr (if i = j then b else bits m ! j)"
    if "j < bm_num_bits m" for j
    using bm.get_after_upd [of m i j b] assms that by simp
  ultimately show ?thesis by blast
qed

theorem bitmap_set_refines_witness:
  "bm_ok \<lparr>bm_buf = [5], bm_num_bits = 6, bm_zeroes = 4\<rparr> \<and>
   (\<exists>m'. BitMap_set \<lparr>bm_buf = [5], bm_num_bits = 6, bm_zeroes = 4\<rparr> 1 True = Inr (False, m')
     \<and> bm_ok m' \<and> bits m' = [True, True, True, False, False, False])"
proof -
  let ?m = "\<lparr>bm_buf = [5], bm_num_bits = 6, bm_zeroes = 4\<rparr> :: BitMap"
  have bits: "bits ?m = [True, False, True, False, False, False]"
    by (simp add: bits_def bit_at_def upt_rec numeral_2_eq_2)
  have ok: "bm_ok ?m" by (simp add: bm_ok_def bm_fits_def bits)
  show ?thesis using bitmap_set_refines [OF ok, of 1 True] ok by (simp add: bits) blast
qed

text \<open>C25: a bitmap opened over a buffer is well-formed, keeps the buffer, counts its zero bits, and its
  iterator yields exactly the bits of the buffer; a buffer that is too small is refused with a panic.\<close>

theorem bitmap_with_length_correct:
  assumes "8 * length buf < 2 ^ 64"
  shows "if num_bits \<le> 8 * length buf then
      \<exists>m. BitMap_with_length buf num_bits = Inr m \<and> bm_ok m \<and> bm_buf m = buf
        \<and> bm_num_bits m = num_bits \<and> Iter_collect (BitMap_iter m) = Inr (bits m)
        \<and> bm_zeroes m = length (filter (\<lambda>i. \<not> bit (buf ! (i div 8)) (i mod 8)) [0..<num_bits])
    else BitMap_with_length buf num_bits = Inl (Panic ExplicitPanic)"
proof (cases "num_bits \<le> 8 * length buf")
  case True
  then obtain m where m: "BitMap_with_length buf num_bits = Inr m" "bm_ok m" "bm_buf m = buf"
    "bm_num_bits m = num_bits"
    using BitMap_with_length_ok assms by blast
  then have "bits m = map (\<lambda>i. bit (buf ! (i div 8)) (i mod 8)) [0..<num_bits]"
    by (simp add: bits_def bit_at_def)
  then have "bm_zeroes m = length (filter (\<lambda>i. \<not> bit (buf ! (i div 8)) (i mod 8)) [0..<num_bits])"
    using m(2) count_list_filter_not [of "bits m"] by (simp add: bm_ok_def filter_map comp_def)
  moreover have "Iter_collect (BitMap_iter m) = Inr (bits m)"
    using m(2) by (simp add: bm_ok_def Iter_collect_iter)
  ultimately show ?thesis using True m by auto
next
  case False
  then show ?thesis using BitMap_with_length_small [of buf num_bits] assms by simp
qed

theorem bitmap_with_length_correct_witness:
  "8 * length [255, 1 :: u8] < 2 ^ 64 \<and> (\<exists>m. BitMap_with_length [255, 1] 12 = Inr m \<and> bm_zeroes m = 3)"
proof -
  have "length (filter (\<lambda>i. \<not> bit ([255, 1 :: u8] ! (i div 8)) (i mod 8)) [0..<12]) = 3"
    by code_simp
  then show ?thesis using bitmap_with_length_correct [of "[255, 1]" 12] by auto
qed

text \<open>The bounds check of the accessors. \<^verbatim>\<open>get\<close> panics exactly for indices beyond
  \<^verbatim>\<open>num_bits\<close> and at the end of the buffer, so the index \<^verbatim>\<open>num_bits\<close> itself, which the
  documentation calls out of range, is answered from the padding bits of the last byte.\<close>

theorem bitmap_get_panics_iff:
  assumes "bm_fits m"
  shows "is_panic (BitMap_get m i) \<longleftrightarrow> bm_num_bits m < i \<or> i = 8 * length (bm_buf m)"
proof (cases "bm_num_bits m < i")
  case True
  then show ?thesis by (simp add: BitMap_get_def BitMap_check_def)
next
  case False
  have "i div 8 < length (bm_buf m) \<longleftrightarrow> i < 8 * length (bm_buf m)"
    by (simp add: less_mult_imp_div_less mult.commute div_less_iff_less_mult)
  then show ?thesis
    using False assms
    by (auto simp: BitMap_get_def BitMap_check_def slice_get_def bm_fits_def)
qed

theorem bitmap_get_panics_iff_witness:
  "bm_fits \<lparr>bm_buf = [0], bm_num_bits = 5, bm_zeroes = 5\<rparr>
   \<and> \<not> is_panic (BitMap_get \<lparr>bm_buf = [0], bm_num_bits = 5, bm_zeroes = 5\<rparr> 5)
   \<and> is_panic (BitMap_get \<lparr>bm_buf = [0], bm_num_bits = 5, bm_zeroes = 5\<rparr> 6)"
proof -
  have ok: "bm_fits \<lparr>bm_buf = [0], bm_num_bits = 5, bm_zeroes = 5\<rparr>" by (simp add: bm_fits_def)
  show ?thesis
    using bitmap_get_panics_iff [OF ok, of 5] bitmap_get_panics_iff [OF ok, of 6] ok by simp
qed

text \<open>Setting the bit at index \<^verbatim>\<open>num_bits\<close>, which the check lets through when the map does not end
  at a byte boundary, changes no bit of the map but lowers the cached number of zeroes, so the map
  can report that all bits are set while one is missing.\<close>

theorem bitmap_set_past_end:
  assumes "bm_ok m" and "bm_num_bits m < 8 * length (bm_buf m)" and "\<not> bit_at m (bm_num_bits m)"
    and "0 < bm_zeroes m"
  shows "\<exists>m'. BitMap_set m (bm_num_bits m) True = Inr (False, m') \<and> bits m' = bits m
    \<and> bm_zeroes m' + 1 = count_list (bits m') False \<and> \<not> bm_ok m'"
proof -
  let ?i = "bm_num_bits m"
  let ?byte' = "(bm_buf m ! (?i div 8) AND NOT (bitmask ?i)) OR push_bit (?i mod 8) 1"
  let ?m' = "m\<lparr>bm_buf := (bm_buf m)[?i div 8 := ?byte'], bm_zeroes := bm_zeroes m - 1\<rparr>"
  have i: "?i div 8 < length (bm_buf m)"
    using assms(2) by (simp add: div_less_iff_less_mult mult.commute)
  have "bit_at ?m' j = bit_at m j" if "j < ?i" for j
  proof -
    have "\<not> (j div 8 = ?i div 8 \<and> j mod 8 = ?i mod 8)"
      using that by (metis div_mult_mod_eq less_irrefl)
    then show ?thesis
      using i bit_set_byte [of "j mod 8" "bm_buf m ! (?i div 8)" ?i True]
      by (auto simp: bit_at_def nth_list_update)
  qed
  then have same: "bits ?m' = bits m" by (simp add: bits_def)
  have "BitMap_set m ?i True = Inr (False, ?m')"
    using i assms(3,4)
    by (simp add: BitMap_set_def BitMap_check_def and_bitmask bit_at_def Let_def)
  moreover have "bm_zeroes ?m' + 1 = count_list (bits ?m') False"
    unfolding same using assms(1,4) by (simp add: bm_ok_def)
  ultimately show ?thesis using same by (auto simp: bm_ok_def)
qed

theorem bitmap_set_past_end_witness:
  "bm_ok \<lparr>bm_buf = [0], bm_num_bits = 1, bm_zeroes = 1\<rparr> \<and>
   (\<exists>m'. BitMap_set \<lparr>bm_buf = [0], bm_num_bits = 1, bm_zeroes = 1\<rparr> 1 True = Inr (False, m') \<and> \<not> bm_ok m')"
proof -
  have ok: "bm_ok \<lparr>bm_buf = [0], bm_num_bits = 1, bm_zeroes = 1\<rparr>"
    by (simp add: bm_ok_def bm_fits_def bits_def bit_at_def)
  then show ?thesis using bitmap_set_past_end [OF ok] by (auto simp: bit_at_def)
qed

text \<open>\<^verbatim>\<open>flip_bit\<close> inverts the bit and no other, but the new value it returns is right only when the
  other seven bits of the byte are clear: it compares the whole byte with the mask.\<close>

theorem bitmap_flip_bit_result:
  assumes "bm_ok m" and "i < bm_num_bits m" and "BitMap_flip_bit m i = Inr (new, m')"
  shows "bits m' = (bits m)[i := \<not> bits m ! i] \<and> (new \<longleftrightarrow> bm_buf m ! (i div 8) = 0)"
  using BitMap_flip_bit_value [OF assms] assms(2) by simp

theorem bitmap_flip_bit_result_witness:
  "bm_ok \<lparr>bm_buf = [1], bm_num_bits = 2, bm_zeroes = 1\<rparr> \<and>
   (\<exists>m'. BitMap_flip_bit \<lparr>bm_buf = [1], bm_num_bits = 2, bm_zeroes = 1\<rparr> 1 = Inr (False, m')
     \<and> bits m' = [True, True])"
proof -
  let ?m = "\<lparr>bm_buf = [1], bm_num_bits = 2, bm_zeroes = 1\<rparr> :: BitMap"
  have bits: "bits ?m = [True, False]" by (simp add: bits_def bit_at_def upt_rec numeral_2_eq_2)
  then have ok: "bm_ok ?m" by (simp add: bm_ok_def bm_fits_def)
  obtain new m' where run: "BitMap_flip_bit ?m 1 = Inr (new, m')"
    by (auto simp: BitMap_flip_bit_def BitMap_check_def bitmask_def Let_def)
  have "bits m' = [True, True] \<and> \<not> new" using bitmap_flip_bit_result [OF ok _ run] bits by (simp add: bit_at_def)
  with run ok show ?thesis by auto
qed

end
