(* ===== verification/Runlength.thy ===== *)
theory Runlength
  imports Bit_Map Codec
begin

text \<open>
  Status updates of version 1 (\<^verbatim>\<open>v1/csync/src/codec.rs\<close>, lines 177 to 257): the run-length
  encoder of the server's bitmap, the iterator that reads it back, and the client's list of missing
  ranges with its cursor. The specification side is \<open>runs\<close> and \<open>expand\<close> on lists of booleans;
  the results are that a status update, truncated or not, tells the client exactly the missing
  chunks of the part of the bitmap it covers, that it reads as "done" only for a full bitmap, and
  that the cursor visits the missing chunks in increasing order.
\<close>

section \<open>Writing the runs of a bitmap\<close>

text \<open>
  One \<^verbatim>\<open>match w.write_u64_varint(count)\<close>: \<open>Some written\<close> to go on, \<open>None\<close> for the early
  return when the writer is full.
\<close>

definition rle_write :: "varint_api \<Rightarrow> nat \<Rightarrow> nat \<Rightarrow> Writer \<Rightarrow> (nat option \<times> Writer) res" where
  "rle_write V count written w =
     (case write_all w (enc_varint V count) of
        (Inr _, w') \<Rightarrow> bindE (add64 written (len_varint V count)) (\<lambda>n. Inr (Some n, w'))
      | (Inl (IoErr WriteZero), w') \<Rightarrow> Inr (None, w')
      | (Inl e, _) \<Rightarrow> Inl e)"

function rle_loop ::
    "varint_api \<Rightarrow> Iter \<Rightarrow> nat \<Rightarrow> bool \<Rightarrow> nat \<Rightarrow> Writer \<Rightarrow> (nat \<times> Writer) res" where
  "rle_loop V it count prev_val written w =
     (case Iter_next it of
        Inl e \<Rightarrow> Inl e
      | Inr (None, _) \<Rightarrow>
          bindE (rle_write V count written w) (\<lambda>(r, w').
          case r of Some n \<Rightarrow> Inr (n, w') | None \<Rightarrow> Inr (written, w'))
      | Inr (Some b, it') \<Rightarrow>
          (if b = prev_val then
             bindE (add64 count 1) (\<lambda>count'. rle_loop V it' count' prev_val written w)
           else
             bindE (rle_write V count written w) (\<lambda>(r, w').
             case r of Some n \<Rightarrow> rle_loop V it' 1 b n w' | None \<Rightarrow> Inr (written, w'))))"
  by pat_completeness auto
termination
  by (relation "measure (\<lambda>(V, it, c, p, n, w). iter_left it)") (auto dest: iter_left_next)

declare rle_loop.simps [simp del]

definition write_runlength_encoded :: "varint_api \<Rightarrow> BitMap \<Rightarrow> Writer \<Rightarrow> (nat \<times> Writer) res" where
  "write_runlength_encoded V bitmap w = rle_loop V (BitMap_iter bitmap) 0 True 0 w"

section \<open>Reading runs back\<close>

text \<open>
  \<^verbatim>\<open>RunlengthIter::next\<close> on the unread bytes: the value and the rest, \<open>None\<close> at the end of
  the input, a panic on any other read error.
\<close>

definition RunlengthIter_next :: "varint_api \<Rightarrow> u8 list \<Rightarrow> ((nat \<times> u8 list) option) res" where
  "RunlengthIter_next V bs =
     (case dec_varint V bs of
        Inr (x, rest) \<Rightarrow> Inr (Some (x, rest))
      | Inl UnexpectedEof \<Rightarrow> Inr None
      | Inl _ \<Rightarrow> Inl (Panic ExplicitPanic))"

text \<open>\<^verbatim>\<open>scan(0, |a, x| { *a += x; Some(*a) })\<close> over that iterator, drained.\<close>

fun status_sums :: "varint_api \<Rightarrow> nat \<Rightarrow> nat \<Rightarrow> u8 list \<Rightarrow> nat list res" where
  "status_sums V 0 a bs = Inl OutOfFuel"
| "status_sums V (Suc fuel) a bs =
     bindE (RunlengthIter_next V bs) (\<lambda>r.
     case r of
       None \<Rightarrow> Inr []
     | Some (x, rest) \<Rightarrow>
         bindE (add64 a x) (\<lambda>a'.
         bindE (status_sums V fuel a' rest) (\<lambda>l. Inr (a' # l))))"

text \<open>\<^verbatim>\<open>itertools::tuples\<close> on pairs: an odd last element is dropped.\<close>

fun tuples :: "'a list \<Rightarrow> ('a \<times> 'a) list" where
  "tuples (x # y # r) = (x, y) # tuples r"
| "tuples _ = []"

record MissingRanges =
  mr_missing :: "(nat \<times> nat) list"
  mr_cursor :: nat

definition MissingRanges_default :: MissingRanges where
  "MissingRanges_default = \<lparr>mr_missing = [], mr_cursor = 0\<rparr>"

definition parse_status_update ::
    "varint_api \<Rightarrow> MissingRanges \<Rightarrow> u8 list \<Rightarrow> (bool \<times> MissingRanges) res" where
  "parse_status_update V mr update =
     bindE (status_sums V (Suc (length update)) 0 update) (\<lambda>sums.
     let missing = tuples sums in
     Inr (missing = [], \<lparr>mr_missing = missing, mr_cursor = 0\<rparr>))"

definition advance_cursor :: "MissingRanges \<Rightarrow> nat \<Rightarrow> (nat option) res" where
  "advance_cursor mr cur =
     bindE (add64 cur 1) (\<lambda>cur'.
     case find (\<lambda>(from, to). to > cur') (mr_missing mr) of
       None \<Rightarrow> Inr None
     | Some (from, _) \<Rightarrow> Inr (Some (max cur' from)))"

definition next_chunk :: "MissingRanges \<Rightarrow> (nat option \<times> MissingRanges) res" where
  "next_chunk mr =
     (case find (\<lambda>(from, to). to > mr_cursor mr) (mr_missing mr) of
        None \<Rightarrow> Inr (None, mr)
      | Some (from, _) \<Rightarrow>
          let cur = max (mr_cursor mr) from in
          bindE (add64 cur 1) (\<lambda>cur'. Inr (Some cur, mr\<lparr>mr_cursor := cur'\<rparr>)))"

section \<open>Specification: runs of a list of booleans\<close>

fun runs_from :: "bool \<Rightarrow> nat \<Rightarrow> bool list \<Rightarrow> nat list" where
  "runs_from p c [] = [c]"
| "runs_from p c (b # bs) = (if b = p then runs_from p (c + 1) bs else c # runs_from b 1 bs)"

definition runs :: "bool list \<Rightarrow> nat list" where
  "runs bs = runs_from True 0 bs"

fun expand :: "bool \<Rightarrow> nat list \<Rightarrow> bool list" where
  "expand p [] = []"
| "expand p (n # ns) = replicate n p @ expand (\<not> p) ns"

fun sums :: "nat \<Rightarrow> nat list \<Rightarrow> nat list" where
  "sums a [] = []"
| "sums a (n # ns) = (a + n) # sums (a + n) ns"

definition covered :: "(nat \<times> nat) list \<Rightarrow> nat set" where
  "covered rs = {i. \<exists>(f, t) \<in> set rs. f \<le> i \<and> i < t}"

definition ranges_ok :: "(nat \<times> nat) list \<Rightarrow> bool" where
  "ranges_ok rs \<longleftrightarrow>
     sorted_wrt (\<lambda>(f, t) (f', t'). t \<le> f') rs \<and> (\<forall>(f, t) \<in> set rs. f < t \<and> t < 2 ^ 64)"

text \<open>The encodings of \<open>ns\<close>, as many as fit.\<close>

fun emit :: "varint_api \<Rightarrow> nat list \<Rightarrow> nat \<Rightarrow> Writer \<Rightarrow> nat \<times> Writer" where
  "emit V [] written w = (written, w)"
| "emit V (n # ns) written w =
     (case write_all w (enc_varint V n) of
        (Inr _, w') \<Rightarrow> emit V ns (written + length (enc_varint V n)) w'
      | (Inl _, w') \<Rightarrow> (written, w'))"

lemma expand_runs_from: "expand p (runs_from p c bs) = replicate c p @ bs"
proof (induction bs arbitrary: p c)
  case Nil
  then show ?case by simp
next
  case (Cons b bs)
  show ?case
  proof (cases "b = p")
    case True
    then show ?thesis by (simp add: Cons.IH replicate_append_same)
  next
    case False
    then have "b = (\<not> p)" by auto
    then show ?thesis using Cons.IH [of "\<not> p" 1] by simp
  qed
qed

lemma expand_runs [simp]: "expand True (runs bs) = bs"
  by (simp add: runs_def expand_runs_from)

lemma length_expand [simp]: "length (expand p ns) = sum_list ns"
  by (induction ns arbitrary: p) auto

lemma sum_list_runs [simp]: "sum_list (runs bs) = length bs"
  by (metis expand_runs length_expand)

lemma expand_take: "expand p (take k ns) = take (sum_list (take k ns)) (expand p ns)"
proof (induction ns arbitrary: p k)
  case Nil
  then show ?case by simp
next
  case (Cons n ns)
  then show ?case by (cases k) auto
qed

lemma runs_from_pos: "0 < c \<Longrightarrow> \<forall>n \<in> set (runs_from p c bs). 0 < n"
  by (induction bs arbitrary: p c) auto

lemma runs_tl_pos: "\<forall>n \<in> set (tl (runs_from p c bs)). 0 < n"
proof (induction bs arbitrary: p c)
  case Nil
  then show ?case by simp
next
  case (Cons b bs)
  then show ?case using runs_from_pos [of 1 b bs] by simp
qed

lemma runs_nonempty [simp]: "runs_from p c bs \<noteq> []"
  by (induction bs arbitrary: p c) auto

lemma length_runs_from: "length (runs_from p c bs) = 1 \<longleftrightarrow> (\<forall>b \<in> set bs. b = p)"
proof (induction bs arbitrary: c)
  case Nil
  then show ?case by simp
next
  case (Cons b bs)
  then show ?case by auto
qed

section \<open>What a status update contains\<close>

context varint_codec
begin

abbreviation enc_all :: "nat list \<Rightarrow> u8 list" where
  "enc_all ns \<equiv> concat (map (enc_varint V) ns)"

lemma rle_write_eq:
  assumes "n < 2 ^ 64" and "written + 10 < 2 ^ 64"
  shows "rle_write V n written w =
    (case write_all w (enc_varint V n) of
       (Inr _, w') \<Rightarrow> Inr (Some (written + length (enc_varint V n)), w')
     | (Inl _, w') \<Rightarrow> Inr (None, w'))"
  using assms enc_length [OF assms(1)] len_enc [OF assms(1)]
  by (auto simp: rle_write_def write_all_def)

lemma rle_loop_emit:
  assumes "bm_fits (it_bitmap it)" and "it_front it \<le> it_back it"
    and "it_back it \<le> bm_num_bits (it_bitmap it)"
    and "count + (it_back it - it_front it) < 2 ^ 64"
    and "written + 10 * (it_back it - it_front it) + 10 < 2 ^ 64"
  shows "rle_loop V it count p written w =
    Inr (emit V (runs_from p count (map (bit_at (it_bitmap it)) [it_front it..<it_back it])) written w)"
  using assms
proof (induction "it_back it - it_front it" arbitrary: it count p written w)
  case 0
  then have "Iter_next it = Inr (None, it)" by (simp add: Iter_next_def)
  with 0 show ?case
    by (subst rle_loop.simps) (auto simp: rle_write_eq write_all_def)
next
  case (Suc d)
  let ?it = "it\<lparr>it_front := Suc (it_front it)\<rparr>"
  let ?b = "bit_at (it_bitmap it) (it_front it)"
  let ?rest = "map (bit_at (it_bitmap it)) [Suc (it_front it)..<it_back it]"
  have lt: "it_front it < it_back it" using Suc.hyps(2) by simp
  then have "it_front it + 1 < 2 ^ 64" using Suc.prems by (simp add: bm_fits_def)
  then have nxt: "Iter_next it = Inr (Some ?b, ?it)"
    using Suc.prems lt by (simp add: Iter_next_def BitMap_get_fits Let_def)
  have bits: "map (bit_at (it_bitmap it)) [it_front it..<it_back it] = ?b # ?rest"
    using lt by (simp add: upt_conv_Cons)
  have IH: "rle_loop V ?it c q n w' = Inr (emit V (runs_from q c ?rest) n w')"
    if "c + d < 2 ^ 64" "n + 10 * d + 10 < 2 ^ 64" for c q n w'
    using Suc.hyps(1) [of ?it c n q w'] Suc.hyps(2) Suc.prems lt that by simp
  have enc: "length (enc_varint V count) \<le> 10" using enc_length [of count] Suc.prems(4) by simp
  show ?case
  proof (cases "?b = p")
    case True
    then show ?thesis
      using Suc.prems Suc.hyps(2) lt IH [of "Suc count" written p w]
      by (subst rle_loop.simps) (simp add: nxt bits)
  next
    case False
    then show ?thesis
      using Suc.prems Suc.hyps(2) lt enc IH [of 1 "written + length (enc_varint V count)" ?b]
      by (subst rle_loop.simps) (auto simp: nxt bits rle_write_eq write_all_def)
  qed
qed

lemma write_runlength_emit:
  assumes "bm_fits m" and "bm_num_bits m < 2 ^ 60"
  shows "write_runlength_encoded V m w = Inr (emit V (runs (bits m)) 0 w)"
  using rle_loop_emit [of "BitMap_iter m" 0 0 True w] assms
  by (simp add: write_runlength_encoded_def BitMap_iter_def BitMap_iter_range_def runs_def bits_def)

text \<open>The emitted bytes are the encodings of a prefix of the runs, cut only by the writer's limit.\<close>

lemma emit_prefix:
  assumes "wr_limit w = lim" and "length (wr_out w) = written"
    and "\<And>L. lim = Some L \<Longrightarrow> written \<le> L"
  shows "\<exists>k w'. k \<le> length ns
    \<and> emit V ns written w = (written + length (enc_all (take k ns)), w')
    \<and> take (written + length (enc_all (take k ns))) (wr_out w') = wr_out w @ enc_all (take k ns)
    \<and> (k < length ns \<longrightarrow>
         (\<exists>L. lim = Some L \<and> L < written + length (enc_all (take (Suc k) ns))))"
  using assms
proof (induction ns arbitrary: w written)
  case Nil
  then show ?case by auto
next
  case (Cons n ns)
  let ?e = "enc_varint V n"
  show ?case
  proof (cases "wr_fits w ?e")
    case True
    let ?w = "w\<lparr>wr_out := wr_out w @ ?e\<rparr>"
    have lim: "wr_limit ?w = lim" and len: "length (wr_out ?w) = written + length ?e"
      using Cons.prems by simp_all
    have bnd: "\<And>L. lim = Some L \<Longrightarrow> written + length ?e \<le> L"
      using True Cons.prems by (auto simp: wr_fits_def)
    obtain k w' where k: "k \<le> length ns"
      "emit V ns (written + length ?e) ?w = (written + length ?e + length (enc_all (take k ns)), w')"
      "take (written + length ?e + length (enc_all (take k ns))) (wr_out w')
         = wr_out ?w @ enc_all (take k ns)"
      "k < length ns \<longrightarrow>
         (\<exists>L. lim = Some L \<and> L < written + length ?e + length (enc_all (take (Suc k) ns)))"
      using Cons.IH [OF lim len bnd] by blast
    then show ?thesis
      using True by (intro exI [of _ "Suc k"] exI [of _ w']) (auto simp: write_all_def add.assoc)
  next
    case False
    then obtain L where L: "lim = Some L" "L < written + length ?e"
      using Cons.prems by (auto simp: wr_fits_def split: option.splits)
    then have "take written (take L (wr_out w @ ?e)) = wr_out w"
      using Cons.prems by (simp add: min_def)
    then show ?thesis
      using False Cons.prems L by (intro exI [of _ 0]) (auto simp: write_all_def)
  qed
qed

lemma enc_all_upper:
  "(\<And>n. n \<in> set ns \<Longrightarrow> n < 2 ^ 64) \<Longrightarrow> length (enc_all ns) \<le> 10 * length ns"
proof (induction ns)
  case Nil
  then show ?case by simp
next
  case (Cons n ns)
  have "length (enc_all ns) \<le> 10 * length ns" using Cons by simp
  moreover have "length (enc_varint V n) \<le> 10" using enc_length [of n] Cons.prems [of n] by simp
  ultimately show ?case by simp
qed

lemma enc_all_take_le: "length (enc_all (take k ns)) \<le> length (enc_all ns)"
proof -
  have "enc_all ns = enc_all (take k ns) @ enc_all (drop k ns)"
    by (metis append_take_drop_id concat_append map_append)
  then show ?thesis by simp
qed

text \<open>Reading the bytes back gives the prefix sums, and the fuel chosen is enough.\<close>

lemma status_sums_enc:
  assumes "a + sum_list ns < 2 ^ 64" and "length (enc_all ns) < fuel"
  shows "status_sums V fuel a (enc_all ns) = Inr (sums a ns)"
  using assms
proof (induction ns arbitrary: a fuel)
  case Nil
  then show ?case by (cases fuel) (simp_all add: RunlengthIter_next_def dec_Nil)
next
  case (Cons n ns)
  then obtain f where fuel: "fuel = Suc f" by (cases fuel) auto
  have n: "n < 2 ^ 64" using Cons.prems(1) by simp
  have "length (enc_all ns) < f" using Cons.prems(2) fuel enc_length [OF n] by simp
  then have "status_sums V f (a + n) (enc_all ns) = Inr (sums (a + n) ns)"
    using Cons.IH [of "a + n" f] Cons.prems(1) by simp
  then show ?case
    using Cons.prems(1) fuel n by (simp add: RunlengthIter_next_def dec_enc)
qed

lemma status_sums_no_fuel: "length bs < fuel \<Longrightarrow> status_sums V fuel a bs \<noteq> Inl OutOfFuel"
proof (induction fuel arbitrary: a bs)
  case 0
  then show ?case by simp
next
  case (Suc f)
  show ?case
  proof (cases "dec_varint V bs")
    case (Inl k)
    then show ?thesis by (cases k) (auto simp: RunlengthIter_next_def)
  next
    case (Inr xr)
    obtain x rest where xr: "xr = (x, rest)" by (cases xr)
    have "length rest < f" using dec_shorter [of bs x rest] Inr xr Suc.prems by simp
    then have "status_sums V f a' rest \<noteq> Inl OutOfFuel" for a' by (rule Suc.IH)
    then show ?thesis
      using Inr xr by (auto simp: RunlengthIter_next_def outcome_simps add64_def)
  qed
qed

lemma parse_status_enc:
  assumes "sum_list ns < 2 ^ 64"
  shows "parse_status_update V mr (enc_all ns) =
    Inr (tuples (sums 0 ns) = [], \<lparr>mr_missing = tuples (sums 0 ns), mr_cursor = 0\<rparr>)"
  using status_sums_enc [of 0 ns "Suc (length (enc_all ns))"] assms
  by (simp add: parse_status_update_def Let_def del: status_sums.simps)

end

section \<open>The missing ranges are the missing chunks\<close>

lemma covered_Nil [simp]: "covered [] = {}"
  by (simp add: covered_def)

lemma covered_Cons: "covered ((f, t) # rs) = {f..<t} \<union> covered rs"
  by (auto simp: covered_def)

lemma mem_covered_Cons: "x \<in> covered ((f, t) # rs) \<longleftrightarrow> f \<le> x \<and> x < t \<or> x \<in> covered rs"
  by (auto simp: covered_def)

lemma mem_covered_tuples_sums:
  "x \<in> covered (tuples (sums a ns)) \<longleftrightarrow>
     a \<le> x \<and> x < a + sum_list ns \<and> \<not> expand True ns ! (x - a)"
proof (induction ns arbitrary: a rule: induct_list012)
  case 1
  then show ?case by simp
next
  case (2 n)
  then show ?case by auto
next
  case (3 ones zeros ns)
  let ?s = "a + ones + zeros"
  have IH: "x \<in> covered (tuples (sums ?s ns)) \<longleftrightarrow>
      ?s \<le> x \<and> x < ?s + sum_list ns \<and> \<not> expand True ns ! (x - ?s)"
    by (rule "3.IH"(1))
  consider "x < a" | "a \<le> x" "x < a + ones" | "a + ones \<le> x" "x < ?s"
    | "?s \<le> x" "x < ?s + sum_list ns" | "?s + sum_list ns \<le> x"
    by linarith
  then show ?case
    by cases (auto simp: mem_covered_Cons IH nth_append)
qed

lemma covered_runs_prefix:
  "covered (tuples (sums 0 (take k (runs bs))))
     = {i. i < sum_list (take k (runs bs)) \<and> \<not> bs ! i}"
  using expand_take [of True k "runs bs"] by (auto simp: mem_covered_tuples_sums)

lemma sum_list_take_le: "sum_list (take k ns) \<le> sum_list (ns :: nat list)"
proof -
  have "sum_list ns = sum_list (take k ns) + sum_list (drop k ns)"
    by (metis append_take_drop_id sum_list_append)
  then show ?thesis by simp
qed

lemma tuples_sums_bounds:
  "(f, t) \<in> set (tuples (sums a ns)) \<Longrightarrow> a \<le> f \<and> t \<le> a + sum_list ns"
proof (induction ns arbitrary: a rule: induct_list012)
  case (3 ones zeros ns)
  then consider "f = a + ones" "t = a + ones + zeros"
    | "(f, t) \<in> set (tuples (sums (a + ones + zeros) ns))"
    by auto
  then show ?case
  proof cases
    case 1
    then show ?thesis by simp
  next
    case 2
    from "3.IH"(1) [OF this] show ?thesis by simp
  qed
qed auto

lemma ranges_ok_sums:
  assumes "\<forall>n \<in> set (tl ns). 0 < n" and "a + sum_list ns < 2 ^ 64"
  shows "ranges_ok (tuples (sums a ns))"
  using assms
proof (induction ns arbitrary: a rule: induct_list012)
  case (3 ones zeros ns)
  let ?s = "a + ones + zeros"
  have "\<forall>n \<in> set (tl ns). 0 < n" using "3.prems"(1)
    by (cases ns) auto
  then have "ranges_ok (tuples (sums ?s ns))"
    using "3.IH"(1) [of ?s] "3.prems"(2) by (simp add: add.assoc)
  then show ?case
    using "3.prems" by (auto simp: ranges_ok_def dest!: tuples_sums_bounds)
qed (auto simp: ranges_ok_def)

lemma tuples_sums_eq_Nil: "tuples (sums a ns) = [] \<longleftrightarrow> length ns < 2"
proof (cases ns)
  case (Cons n ms)
  then show ?thesis by (cases ms) auto
qed simp

lemma tl_take: "tl (take k ns) = take (k - 1) (tl ns)"
  by (cases ns; cases k) auto

lemma ranges_ok_nonempty: "ranges_ok rs \<Longrightarrow> rs \<noteq> [] \<Longrightarrow> covered rs \<noteq> {}"
proof -
  assume "ranges_ok rs" and "rs \<noteq> []"
  then obtain f t rs' where "rs = (f, t) # rs'" and "f < t"
    by (cases rs) (auto simp: ranges_ok_def)
  then show ?thesis by (auto simp: covered_Cons)
qed

section \<open>The cursor over the missing ranges\<close>

lemma ranges_ok_Cons:
  "ranges_ok ((f, t) # rs) \<longleftrightarrow>
     f < t \<and> t < 2 ^ 64 \<and> (\<forall>i \<in> covered rs. t \<le> i) \<and> ranges_ok rs"
  (is "?L \<longleftrightarrow> ?R")
proof
  assume ?L
  then show ?R by (fastforce simp: ranges_ok_def covered_def)
next
  assume R: ?R
  have "t \<le> f'" if "(f', t') \<in> set rs" for f' t'
  proof -
    have "f' < t'" using R that by (auto simp: ranges_ok_def)
    then have "f' \<in> covered rs" using that by (auto simp: covered_def)
    with R show ?thesis by auto
  qed
  with R show ?L by (auto simp: ranges_ok_def)
qed

lemma find_range_None:
  assumes "find (\<lambda>(f, t). c < t) rs = None"
  shows "\<forall>i \<in> covered rs. i < c"
  using assms by (fastforce simp: covered_def find_None_iff)

lemma find_range_Some:
  assumes "ranges_ok rs" and "find (\<lambda>(f, t). c < t) rs = Some (f, t)"
  shows "max c f \<in> covered rs \<and> max c f + 1 < 2 ^ 64 \<and> (\<forall>i \<in> covered rs. c \<le> i \<longrightarrow> max c f \<le> i)"
  using assms
proof (induction rs)
  case Nil
  then show ?case by simp
next
  case (Cons r rs)
  obtain f' t' where r: "r = (f', t')" by (cases r)
  have ok: "f' < t'" "t' < 2 ^ 64" "\<forall>i \<in> covered rs. t' \<le> i" "ranges_ok rs"
    using Cons.prems(1) r by (auto simp: ranges_ok_Cons)
  show ?case
  proof (cases "c < t'")
    case True
    then have ft: "f = f'" "t = t'" using Cons.prems(2) r by auto
    have "max c f' < t'" using True ok by simp
    moreover have "\<forall>i \<in> covered (r # rs). c \<le> i \<longrightarrow> max c f' \<le> i"
      using r ok(3) \<open>max c f' < t'\<close> by (fastforce simp: mem_covered_Cons)
    moreover have "max c f' \<in> covered (r # rs)"
      using r \<open>max c f' < t'\<close> by (simp add: mem_covered_Cons)
    ultimately show ?thesis using ft ok(2) by auto
  next
    case False
    then have "find (\<lambda>(f, t). c < t) rs = Some (f, t)" using Cons.prems(2) r by simp
    from Cons.IH [OF ok(4) this] show ?thesis
      using r False by (auto simp: mem_covered_Cons)
  qed
qed

lemma next_chunk_spec:
  assumes "ranges_ok (mr_missing mr)"
  shows "\<exists>r mr'. next_chunk mr = Inr (r, mr') \<and> mr_missing mr' = mr_missing mr
    \<and> (case r of
         None \<Rightarrow> mr' = mr \<and> (\<forall>i \<in> covered (mr_missing mr). i < mr_cursor mr)
       | Some i \<Rightarrow> mr_cursor mr' = i + 1 \<and> i \<in> covered (mr_missing mr) \<and> mr_cursor mr \<le> i
           \<and> (\<forall>j \<in> covered (mr_missing mr). mr_cursor mr \<le> j \<longrightarrow> i \<le> j))"
proof (cases "find (\<lambda>(from, to). mr_cursor mr < to) (mr_missing mr)")
  case None
  from find_range_None [OF this] None show ?thesis by (simp add: next_chunk_def)
next
  case (Some ft)
  obtain f t where ft: "ft = (f, t)" by (cases ft)
  have "find (\<lambda>(f, t). mr_cursor mr < t) (mr_missing mr) = Some (f, t)" using Some ft by simp
  from find_range_Some [OF assms this] Some ft show ?thesis
    by (simp add: next_chunk_def Let_def)
qed

text \<open>The chunks the cursor still has to visit, and \<open>n\<close> calls of \<open>next_chunk\<close> in a row.\<close>

definition pending :: "MissingRanges \<Rightarrow> nat set" where
  "pending mr = {i \<in> covered (mr_missing mr). mr_cursor mr \<le> i}"

fun next_chunks :: "nat \<Rightarrow> MissingRanges \<Rightarrow> nat list res" where
  "next_chunks 0 mr = Inr []"
| "next_chunks (Suc n) mr =
     bindE (next_chunk mr) (\<lambda>(r, mr').
     case r of None \<Rightarrow> Inr [] | Some i \<Rightarrow> bindE (next_chunks n mr') (\<lambda>is. Inr (i # is)))"

lemma finite_covered [simp]: "finite (covered rs)"
proof -
  have "covered rs = (\<Union>(f, t) \<in> set rs. {f..<t})" by (fastforce simp: covered_def)
  then show ?thesis by (simp add: split_beta)
qed

lemma next_chunk_pending:
  assumes "ranges_ok (mr_missing mr)"
  shows "if pending mr = {} then next_chunk mr = Inr (None, mr)
    else \<exists>mr'. next_chunk mr = Inr (Some (Min (pending mr)), mr')
      \<and> ranges_ok (mr_missing mr') \<and> mr_missing mr' = mr_missing mr
      \<and> pending mr' = pending mr - {Min (pending mr)}"
proof -
  obtain r mr' where nc: "next_chunk mr = Inr (r, mr')" and mm: "mr_missing mr' = mr_missing mr"
    and cs: "case r of
         None \<Rightarrow> mr' = mr \<and> (\<forall>i \<in> covered (mr_missing mr). i < mr_cursor mr)
       | Some i \<Rightarrow> mr_cursor mr' = i + 1 \<and> i \<in> covered (mr_missing mr) \<and> mr_cursor mr \<le> i
           \<and> (\<forall>j \<in> covered (mr_missing mr). mr_cursor mr \<le> j \<longrightarrow> i \<le> j)"
    using next_chunk_spec [OF assms] by auto
  show ?thesis
  proof (cases r)
    case None
    then have "pending mr = {}" using cs by (fastforce simp: pending_def)
    with None nc cs show ?thesis by simp
  next
    case (Some i)
    have "finite (pending mr)" by (simp add: pending_def)
    moreover have "i \<in> pending mr" "\<forall>j \<in> pending mr. i \<le> j" using cs Some by (auto simp: pending_def)
    ultimately have "Min (pending mr) = i" by (intro Min_eqI) auto
    moreover have "pending mr' = pending mr - {i}"
      using cs Some mm by (auto simp: pending_def)
    ultimately show ?thesis using \<open>i \<in> pending mr\<close> nc Some mm assms by auto
  qed
qed

lemma next_chunks_all:
  assumes "ranges_ok (mr_missing mr)" and "card (pending mr) \<le> n"
  shows "next_chunks n mr = Inr (sorted_list_of_set (pending mr))"
  using assms
proof (induction n arbitrary: mr)
  case 0
  have "finite (pending mr)" by (simp add: pending_def)
  with 0 show ?case by simp
next
  case (Suc n)
  have fin: "finite (pending mr)" by (simp add: pending_def)
  show ?case
  proof (cases "pending mr = {}")
    case True
    with next_chunk_pending [OF Suc.prems(1)] show ?thesis by simp
  next
    case False
    then obtain mr' where mr': "next_chunk mr = Inr (Some (Min (pending mr)), mr')"
      "ranges_ok (mr_missing mr')" "pending mr' = pending mr - {Min (pending mr)}"
      using next_chunk_pending [OF Suc.prems(1)] by auto
    have "card (pending mr') \<le> n" using Suc.prems(2) mr'(3) fin False by (simp add: card_Diff_singleton)
    from Suc.IH [OF mr'(2) this] mr' show ?thesis
      using sorted_list_of_set_nonempty [OF fin False] by simp
  qed
qed

section \<open>What the client learns from a status update\<close>

context varint_codec
begin

lemma two_runs_fit:
  assumes "\<And>n. n \<in> set ns \<Longrightarrow> n < 2 ^ 64" and "k \<le> length ns"
    and "k < length ns \<longrightarrow> L < length (enc_all (take (Suc k) ns))" and "20 \<le> L"
  shows "k = length ns \<or> 2 \<le> k"
proof (rule ccontr)
  assume "\<not> (k = length ns \<or> 2 \<le> k)"
  then have lt: "k < length ns" and "k < 2" using assms(2) by auto
  have "length (enc_all (take (Suc k) ns)) \<le> 10 * length (take (Suc k) ns)"
    by (rule enc_all_upper) (blast dest: in_set_takeD assms(1))
  also have "\<dots> \<le> 20" using \<open>k < 2\<close> by simp
  finally show False using assms(3,4) lt by simp
qed

lemma one_run_iff_all:
  assumes "bm_ok m"
  shows "length (runs (bits m)) < 2 \<longleftrightarrow> BitMap_all m"
proof -
  have "length (runs (bits m)) < 2 \<longleftrightarrow> length (runs (bits m)) = 1"
    by (metis One_nat_def Suc_1 length_0_conv less_2_cases_iff runs_def runs_nonempty)
  then show ?thesis
    using bm.full_view [OF assms] length_runs_from [of True 0 "bits m"] by (simp add: runs_def)
qed

lemma status_update_exact:
  assumes "bm_ok m" and "bm_num_bits m < 2 ^ 60" and "20 \<le> L"
  shows "\<exists>n w mr' stop. write_runlength_encoded V m (slice_writer L) = Inr (n, w)
    \<and> n \<le> length (wr_out w)
    \<and> parse_status_update V mr (take n (wr_out w)) = Inr (BitMap_all m, mr')
    \<and> mr_cursor mr' = 0 \<and> ranges_ok (mr_missing mr')
    \<and> covered (mr_missing mr') = {i. i < stop \<and> \<not> bits m ! i} \<and> stop \<le> bm_num_bits m
    \<and> (BitMap_all m \<or> covered (mr_missing mr') \<noteq> {})
    \<and> (length (enc_all (runs (bits m))) \<le> L \<longrightarrow> stop = bm_num_bits m)"
proof -
  let ?ns = "runs (bits m)"
  have fits: "bm_fits m" using assms(1) by (simp add: bm_ok_def)
  have lens: "sum_list ?ns < 2 ^ 60" using assms(2) by simp
  have elem: "n < 2 ^ 64" if "n \<in> set ?ns" for n
    using member_le_sum_list [OF that] lens by simp
  obtain k w where k: "k \<le> length ?ns"
    "emit V ?ns 0 (slice_writer L) = (length (enc_all (take k ?ns)), w)"
    "take (length (enc_all (take k ?ns))) (wr_out w) = enc_all (take k ?ns)"
    "k < length ?ns \<longrightarrow> L < length (enc_all (take (Suc k) ?ns))"
    using emit_prefix [of "slice_writer L" "Some L" 0 ?ns] by (auto simp: slice_writer_def)
  let ?n = "length (enc_all (take k ?ns))"
  let ?ms = "tuples (sums 0 (take k ?ns))"
  let ?mr = "\<lparr>mr_missing = ?ms, mr_cursor = 0\<rparr>" and ?stop = "sum_list (take k ?ns)"
  have written: "write_runlength_encoded V m (slice_writer L) = Inr (?n, w)"
    using write_runlength_emit [OF fits assms(2)] k(2) by simp
  have nle: "?n \<le> length (wr_out w)"
    using arg_cong [OF k(3), of length] by simp
  have sum: "sum_list (take k ?ns) < 2 ^ 64"
    using sum_list_take_le [of k ?ns] lens by simp
  have two: "k = length ?ns \<or> 2 \<le> k" using elem k(1,4) assms(3) by (rule two_runs_fit)
  have one: "length ?ns < 2 \<longleftrightarrow> BitMap_all m" by (rule one_run_iff_all [OF assms(1)])
  have nil: "?ms = [] \<longleftrightarrow> BitMap_all m"
    using two one k(1) by (auto simp: tuples_sums_eq_Nil)
  have rok: "ranges_ok ?ms"
    using runs_tl_pos [of True 0 "bits m"] sum
    by (intro ranges_ok_sums) (auto simp: tl_take runs_def dest: in_set_takeD)
  have "length (enc_all ?ns) \<le> L \<longrightarrow> sum_list (take k ?ns) = bm_num_bits m"
  proof (intro impI)
    assume le: "length (enc_all ?ns) \<le> L"
    have "length (enc_all (take (Suc k) ?ns)) \<le> length (enc_all ?ns)"
      by (rule enc_all_take_le)
    with k(1,4) le have "k = length ?ns" by fastforce
    then show "sum_list (take k ?ns) = bm_num_bits m" by simp
  qed
  moreover have "sum_list (take k ?ns) \<le> bm_num_bits m"
    using sum_list_take_le [of k ?ns] by simp
  moreover have "BitMap_all m \<or> covered ?ms \<noteq> {}"
    using nil ranges_ok_nonempty [OF rok] by blast
  moreover have "parse_status_update V mr (take ?n (wr_out w))
      = Inr (BitMap_all m, \<lparr>mr_missing = ?ms, mr_cursor = 0\<rparr>)"
    using k(3) parse_status_enc [OF sum, of mr] nil by simp
  ultimately have "write_runlength_encoded V m (slice_writer L) = Inr (?n, w)
      \<and> ?n \<le> length (wr_out w)
      \<and> parse_status_update V mr (take ?n (wr_out w)) = Inr (BitMap_all m, ?mr)
      \<and> mr_cursor ?mr = 0 \<and> ranges_ok (mr_missing ?mr)
      \<and> covered (mr_missing ?mr) = {i. i < ?stop \<and> \<not> bits m ! i} \<and> ?stop \<le> bm_num_bits m
      \<and> (BitMap_all m \<or> covered (mr_missing ?mr) \<noteq> {})
      \<and> (length (enc_all ?ns) \<le> L \<longrightarrow> ?stop = bm_num_bits m)"
    using written nle rok covered_runs_prefix [of k "bits m"] by simp
  then show ?thesis by blast
qed

end

section \<open>Properties\<close>

text \<open>C9: the run-length encoding of a bitmap into a buffer of at least twenty bytes never fails, and a
  client that reads what was written learns exactly which chunks are missing up to some point: up to
  the end when all runs fit the buffer, and never an empty list while something is missing.\<close>

theorem status_update_roundtrip:
  assumes "varint_codec V" and "bm_ok m" and "bm_num_bits m < 2 ^ 60" and "20 \<le> L"
  shows "\<exists>n w mr' stop. write_runlength_encoded V m (slice_writer L) = Inr (n, w)
    \<and> n \<le> length (wr_out w)
    \<and> parse_status_update V mr (take n (wr_out w)) = Inr (BitMap_all m, mr')
    \<and> mr_cursor mr' = 0 \<and> ranges_ok (mr_missing mr') \<and> stop \<le> bm_num_bits m
    \<and> covered (mr_missing mr') = {i. i < stop \<and> \<not> bits m ! i}
    \<and> (BitMap_all m \<or> covered (mr_missing mr') \<noteq> {})
    \<and> (length (concat (map (enc_varint V) (runs (bits m)))) \<le> L \<longrightarrow> stop = bm_num_bits m)"
  using varint_codec.status_update_exact [OF assms] by blast

theorem status_update_roundtrip_witness:
  "\<exists>n w mr'. write_runlength_encoded leb_api \<lparr>bm_buf = [5], bm_num_bits = 6, bm_zeroes = 4\<rparr> (slice_writer 20) = Inr (n, w)
    \<and> parse_status_update leb_api MissingRanges_default (take n (wr_out w)) = Inr (False, mr')
    \<and> covered (mr_missing mr') \<noteq> {}"
proof -
  let ?m = "\<lparr>bm_buf = [5], bm_num_bits = 6, bm_zeroes = 4\<rparr> :: BitMap"
  have "bits ?m = [True, False, True, False, False, False]"
    by (simp add: bits_def bit_at_def upt_rec numeral_2_eq_2)
  then have ok: "bm_ok ?m" by (simp add: bm_ok_def bm_fits_def)
  have "\<not> BitMap_all ?m" by (simp add: BitMap_all_def)
  with status_update_roundtrip [OF leb_varint_codec ok, of 20 MissingRanges_default] show ?thesis
    by (simp del: nth_bits) blast
qed

text \<open>C12: asking for the next chunk again and again visits every missing chunk the cursor has not
  passed, each once and in increasing order, and then reports that there is none.\<close>

theorem next_chunks_in_order:
  assumes "ranges_ok (mr_missing mr)"
  shows "next_chunks (Suc (card (pending mr))) mr = Inr (sorted_list_of_set (pending mr))
    \<and> (pending mr = {} \<longrightarrow> next_chunk mr = Inr (None, mr))"
  using next_chunks_all [OF assms, of "Suc (card (pending mr))"] next_chunk_pending [OF assms] by auto

theorem next_chunks_in_order_witness:
  "ranges_ok (mr_missing \<lparr>mr_missing = [(1, 3), (5, 6)], mr_cursor = 2\<rparr>)
   \<and> next_chunks 3 \<lparr>mr_missing = [(1, 3), (5, 6)], mr_cursor = 2\<rparr> = Inr [2, 5]"
proof -
  let ?mr = "\<lparr>mr_missing = [(1, 3), (5, 6)], mr_cursor = 2\<rparr>"
  have p: "pending ?mr = {2, 5}" by (auto simp: pending_def covered_def)
  have ok: "ranges_ok (mr_missing ?mr)" by (simp add: ranges_ok_def)
  from next_chunks_in_order [OF ok] ok show ?thesis unfolding p by (simp add: numeral_3_eq_3)
qed

end
