(* ===== verification/Client.thy ===== *)
theory Client
  imports Packets Runlength
begin

text \<open>
  The uploading client (\<^verbatim>\<open>v1/csync/src/client.rs\<close>): the login message, the loop that sends the
  chunks the last status update reported missing while it waits for the next update, and the final
  packet. The loop state holds either the future that reads and sends one chunk or the buffer of the
  idle client. One \<open>client_event\<close> is one completed future: the chunk's datagram went out, a
  datagram came in, or one of them failed. The file's contents are an argument; \<open>cl_out\<close> lists the
  datagrams sent, oldest first.
\<close>

section \<open>State\<close>

text \<open>
  The boxed future of \<^verbatim>\<open>do_chunk\<close> is the chunk buffer to fill and the file position to read at; its
  error result, for an idle client, is the buffer.
\<close>

datatype chunk_send =
    SendChunk Chunk nat
  | SendIdle "u8 list"

record Client =
  cl_chunk_info :: ChunkInfo
  cl_missing :: MissingRanges
  cl_send :: chunk_send
  cl_recv_buf :: "u8 list"
  cl_out :: "u8 list list"
  cl_finished :: bool

datatype client_event =
    ChunkSent
  | StatusUpdate "u8 list"
  | ClientIoErr

section \<open>Operations\<close>

definition do_chunk :: "ChunkInfo \<Rightarrow> MissingRanges \<Rightarrow> u8 list \<Rightarrow> (chunk_send \<times> MissingRanges) res" where
  "do_chunk ci missing send_buf =
     bindE (next_chunk missing) (\<lambda>(next, missing').
     case next of
       None \<Rightarrow> Inr (SendIdle send_buf, missing')
     | Some chunk_cursor \<Rightarrow>
         bindE (sub64 (ci_num_chunks ci) 1) (\<lambda>last.
         let payload = (if chunk_cursor = last then ci_last_chunk_size ci else ci_chunk_size ci) in
         bindE (Chunk_new send_buf chunk_cursor (ci_index_field_size ci) payload) (\<lambda>chunk.
         bindE (mul64 chunk_cursor (ci_chunk_size ci)) (\<lambda>off.
         Inr (SendChunk chunk off, missing')))))"

text \<open>\<^verbatim>\<open>read_exact\<close> of \<open>n\<close> bytes at a position.\<close>

definition read_exact_at :: "u8 list \<Rightarrow> nat \<Rightarrow> nat \<Rightarrow> u8 list res" where
  "read_exact_at src off n =
     (if n = 0 \<or> off + n \<le> length src then Inr (take n (drop off src)) else Inl (IoErr UnexpectedEof))"

text \<open>Running the future of \<^verbatim>\<open>do_chunk\<close>: the datagram it sends.\<close>

definition send_chunk :: "u8 list \<Rightarrow> Chunk \<Rightarrow> nat \<Rightarrow> u8 list res" where
  "send_chunk src chunk off =
     bindE (Chunk_as_ref chunk) (\<lambda>buf.
     bindE (read_exact_at src off (length buf)) (\<lambda>ds.
     Inr (ch_buf (Chunk_fill chunk ds))))"

text \<open>The received datagram in a buffer of \<open>MTU\<close> bytes, and its length.\<close>

definition recv_dgram :: "u8 list \<Rightarrow> u8 list \<Rightarrow> u8 list \<times> nat" where
  "recv_dgram buf d =
     (let got = take (length buf) d in (overwrite buf 0 got, length got))"

definition client_fin :: "u8 list \<Rightarrow> Client \<Rightarrow> Client res" where
  "client_fin send_buf c =
     bindE (Chunk_new send_buf (ci_num_chunks (cl_chunk_info c)) (ci_index_field_size (cl_chunk_info c)) 0)
       (\<lambda>chunk. Inr (c\<lparr>cl_out := cl_out c @ [ch_buf chunk], cl_finished := True\<rparr>))"

definition client_next :: "u8 list \<Rightarrow> Client \<Rightarrow> Client res" where
  "client_next send_buf c =
     bindE (do_chunk (cl_chunk_info c) (cl_missing c) send_buf) (\<lambda>(cs, missing).
     Inr (c\<lparr>cl_send := cs, cl_missing := missing\<rparr>))"

definition client_step :: "varint_api \<Rightarrow> u8 list \<Rightarrow> client_event \<Rightarrow> Client \<Rightarrow> Client res" where
  "client_step V src ev c =
     (case ev of
        ClientIoErr \<Rightarrow> Inl (Panic UnwrapErr)
      | ChunkSent \<Rightarrow>
          (case cl_send c of
             SendChunk chunk off \<Rightarrow>
               bindE (unwrap_res (send_chunk src chunk off)) (\<lambda>pkt.
               client_next pkt (c\<lparr>cl_out := cl_out c @ [pkt]\<rparr>))
           | SendIdle buf \<Rightarrow> Inr c)
      | StatusUpdate d \<Rightarrow>
          (let (buf, recv_len) = recv_dgram (cl_recv_buf c) d in
           bindE (slice_to buf recv_len) (\<lambda>update.
           bindE (parse_status_update V (cl_missing c) update) (\<lambda>(done, missing).
           let c1 = c\<lparr>cl_recv_buf := buf, cl_missing := missing\<rparr> in
           if done then client_fin (case cl_send c of SendChunk _ _ \<Rightarrow> buf | SendIdle send_buf \<Rightarrow> send_buf) c1
           else case cl_send c of
               SendChunk chunk off \<Rightarrow> Inr c1
             | SendIdle send_buf \<Rightarrow> client_next send_buf c1))))"

definition client_login :: "u8 list \<Rightarrow> nat \<Rightarrow> Login" where
  "client_login filename filesize =
     \<lparr>lg_client_token = map (\<lambda>c. of_nat (of_char c)) ''roflcopter'',
      lg_command = CmdUploadRequest \<lparr>ur_path = filename, ur_length = filesize\<rparr>\<rparr>"

text \<open>Start of \<^verbatim>\<open>client_once\<close>: the login message goes out, and the first \<^verbatim>\<open>do_chunk\<close> runs.\<close>

definition client_once_start :: "varint_api \<Rightarrow> u8 list \<Rightarrow> u8 list \<Rightarrow> Client res" where
  "client_once_start V filename src =
     bindE (index_field_size (length src)) (\<lambda>ci.
     bindE (Login_encode V (client_login filename (length src)) vec_writer) (\<lambda>w.
     client_next (wr_out w)
       \<lparr>cl_chunk_info = ci, cl_missing = MissingRanges_default, cl_send = SendIdle [],
        cl_recv_buf = replicate MTU 0, cl_out = [wr_out w], cl_finished = False\<rparr>))"

text \<open>The loop of \<^verbatim>\<open>client_once\<close> over the futures that complete, until it breaks.\<close>

fun client_loop :: "varint_api \<Rightarrow> u8 list \<Rightarrow> client_event list \<Rightarrow> Client \<Rightarrow> Client res" where
  "client_loop V src [] c = Inr c"
| "client_loop V src (ev # evs) c =
     (if cl_finished c then Inr c
      else bindE (client_step V src ev c) (\<lambda>c'. client_loop V src evs c'))"

section \<open>What the client sends\<close>

text \<open>How many bytes of the file \<^verbatim>\<open>do_chunk\<close> puts into a chunk, and the packet that results.\<close>

definition payload :: "ChunkInfo \<Rightarrow> nat \<Rightarrow> nat" where
  "payload ci i = (if i = ci_num_chunks ci - 1 then ci_last_chunk_size ci else ci_chunk_size ci)"

definition client_packet :: "ChunkInfo \<Rightarrow> u8 list \<Rightarrow> nat \<Rightarrow> u8 list" where
  "client_packet ci src i =
     le_bytes (ci_index_field_size ci) i @ take (payload ci i) (drop (i * ci_chunk_size ci) src)"

definition send_ok :: "ChunkInfo \<Rightarrow> chunk_send \<Rightarrow> bool" where
  "send_ok ci cs \<longleftrightarrow> (case cs of
     SendIdle _ \<Rightarrow> True
   | SendChunk chunk off \<Rightarrow>
       ch_index chunk < ci_num_chunks ci \<and> off = ch_index chunk * ci_chunk_size ci
       \<and> ch_index_field_size chunk = ci_index_field_size ci
       \<and> length (ch_buf chunk) = ci_index_field_size ci + payload ci (ch_index chunk)
       \<and> take (ci_index_field_size ci) (ch_buf chunk) = le_bytes (ci_index_field_size ci) (ch_index chunk))"

definition missing_ok :: "ChunkInfo \<Rightarrow> MissingRanges \<Rightarrow> bool" where
  "missing_ok ci mr \<longleftrightarrow> ranges_ok (mr_missing mr) \<and> covered (mr_missing mr) \<subseteq> {..<ci_num_chunks ci}"

definition client_inv :: "u8 list \<Rightarrow> Client \<Rightarrow> bool" where
  "client_inv src c \<longleftrightarrow>
     geometry (length src) (cl_chunk_info c) \<and> length src < 2 ^ 63 \<and> length (cl_recv_buf c) = MTU
     \<and> missing_ok (cl_chunk_info c) (cl_missing c) \<and> send_ok (cl_chunk_info c) (cl_send c)"

lemma last_chunk_end:
  assumes "geometry len ci" and "i < ci_num_chunks ci"
  shows "i * ci_chunk_size ci + payload ci i \<le> len"
proof -
  let ?s = "ci_chunk_size ci"
  have pos: "0 < ?s" using geometry_chunk_size [OF assms(1)] by simp
  have n: "ci_num_chunks ci = div_up len ?s" and l: "ci_last_chunk_size ci = len mod ?s"
    by (rule geometryD [OF assms(1)])+
  show ?thesis
  proof (cases "i = ci_num_chunks ci - 1")
    case True
    then have "i \<le> len div ?s" using n by (simp add: div_up_def)
    then have "i * ?s \<le> len div ?s * ?s" by (rule mult_le_mono1)
    then have "i * ?s + len mod ?s \<le> len" using div_mult_mod_eq [of len ?s] by linarith
    with True l show ?thesis by (simp add: payload_def)
  next
    case False
    then have "Suc i < ci_num_chunks ci" using assms(2) by simp
    then have "Suc i * ?s < len" using geometry_num_chunks [OF assms(1)] by blast
    with False show ?thesis by (simp add: payload_def)
  qed
qed

text \<open>
  When the length is not a multiple of the chunk size, every packet carries its whole chunk; when it
  is one, the packet of the last chunk carries no data at all.
\<close>

lemma payload_chunk:
  assumes "geometry (length src) ci" and "i < ci_num_chunks ci"
    and "ci_last_chunk_size ci \<noteq> 0 \<or> Suc i < ci_num_chunks ci"
  shows "client_packet ci src i = data_packet ci src i"
proof -
  let ?s = "ci_chunk_size ci"
  have "take (payload ci i) (drop (i * ?s) src) = chunk_data ci src i"
  proof (cases "i = ci_num_chunks ci - 1")
    case False
    then show ?thesis by (simp add: payload_def chunk_data_def chunk_of_def)
  next
    case True
    then have l: "length src mod ?s \<noteq> 0" and i: "i = length src div ?s"
      using assms geometryD(4,6) [OF assms(1)] by (auto simp: div_up_def)
    have "length (drop (i * ?s) src) = length src mod ?s"
      by (simp add: i modulo_nat_def mult.commute)
    moreover have "length src mod ?s \<le> ?s"
      using geometry_chunk_size [OF assms(1)] by (simp add: less_imp_le)
    ultimately show ?thesis
      using True geometryD(6) [OF assms(1)] by (simp add: payload_def chunk_data_def chunk_of_def)
  qed
  then show ?thesis by (simp add: client_packet_def data_packet_def)
qed

lemma send_chunk_packet:
  assumes "geometry (length src) ci" and "send_ok ci (SendChunk chunk off)"
  shows "send_chunk src chunk off = Inr (client_packet ci src (ch_index chunk))"
proof -
  let ?i = "ch_index chunk" and ?k = "ci_index_field_size ci"
  have ok: "?i < ci_num_chunks ci" "off = ?i * ci_chunk_size ci" "ch_index_field_size chunk = ?k"
    "length (ch_buf chunk) = ?k + payload ci ?i" "take ?k (ch_buf chunk) = le_bytes ?k ?i"
    using assms(2) by (auto simp: send_ok_def)
  have "read_exact_at src off (payload ci ?i) = Inr (take (payload ci ?i) (drop off src))"
    using last_chunk_end [OF assms(1) ok(1)] ok(2) by (simp add: read_exact_at_def)
  moreover have "length (take (payload ci ?i) (drop off src)) = payload ci ?i"
    using last_chunk_end [OF assms(1) ok(1)] ok(2) by simp
  ultimately show ?thesis
    using ok by (simp add: send_chunk_def Chunk_as_ref_def Chunk_fill_exact client_packet_def)
qed

lemma payload_le: "geometry len ci \<Longrightarrow> payload ci i \<le> 1459"
proof -
  assume g: "geometry len ci"
  have "len mod ci_chunk_size ci < ci_chunk_size ci"
    using geometry_chunk_size [OF g] by (intro mod_less_divisor) simp
  then have "ci_last_chunk_size ci \<le> 1459"
    using geometry_chunk_size [OF g] geometryD(6) [OF g] by linarith
  then show ?thesis using geometry_chunk_size [OF g] by (simp add: payload_def)
qed

text \<open>\<^verbatim>\<open>do_chunk\<close> takes the smallest missing chunk that the cursor has not passed.\<close>

lemma do_chunk_spec:
  assumes g: "geometry len ci" and len: "len < 2 ^ 63" and ok: "missing_ok ci mr"
  shows "\<exists>cs mr'. do_chunk ci mr buf = Inr (cs, mr') \<and> missing_ok ci mr' \<and> send_ok ci cs
    \<and> mr_missing mr' = mr_missing mr
    \<and> (if pending mr = {} then cs = SendIdle buf \<and> mr' = mr
       else (\<exists>chunk off. cs = SendChunk chunk off \<and> ch_index chunk = Min (pending mr))
         \<and> pending mr' = pending mr - {Min (pending mr)})"
proof (cases "pending mr = {}")
  case True
  with next_chunk_pending [of mr] ok show ?thesis
    by (simp add: do_chunk_def missing_ok_def send_ok_def)
next
  case False
  let ?i = "Min (pending mr)" and ?k = "ci_index_field_size ci"
  obtain mr' where nxt: "next_chunk mr = Inr (Some ?i, mr')" and mr': "mr_missing mr' = mr_missing mr"
    "pending mr' = pending mr - {?i}"
    using next_chunk_pending [of mr] ok False by (auto simp: missing_ok_def)
  have "?i \<in> pending mr" using False by (intro Min_in) (auto simp: pending_def)
  then have i: "?i < ci_num_chunks ci" using ok by (auto simp: pending_def missing_ok_def)
  then have "?i * ci_chunk_size ci < len" using geometry_num_chunks [OF g] by blast
  then have off: "mul64 ?i (ci_chunk_size ci) = Inr (?i * ci_chunk_size ci)"
    using len by (intro mul64_ok) simp
  have "0 < ?k" "?k \<le> 8" "?k + payload ci ?i < 2 ^ 64"
    using geometryD(1,2) [OF g] payload_le [OF g, of ?i] by simp_all
  from Chunk_new_header [OF this] obtain chunk where
    chunk: "Chunk_new buf ?i ?k (payload ci ?i) = Inr chunk" "ch_index chunk = ?i"
      "ch_index_field_size chunk = ?k" "length (ch_buf chunk) = ?k + payload ci ?i"
      "take ?k (ch_buf chunk) = le_bytes ?k ?i"
    by blast
  have "sub64 (ci_num_chunks ci) 1 = Inr (ci_num_chunks ci - 1)" using i by simp
  then have "do_chunk ci mr buf = Inr (SendChunk chunk (?i * ci_chunk_size ci), mr')"
    using nxt off chunk(1) by (simp add: do_chunk_def payload_def Let_def)
  then show ?thesis
    using False mr' ok chunk i by (simp add: missing_ok_def send_ok_def)
qed

section \<open>The loop keeps its invariant\<close>

lemma client_next_inv:
  assumes "client_inv src c"
  shows "\<exists>c'. client_next buf c = Inr c' \<and> client_inv src c' \<and> cl_out c' = cl_out c
    \<and> cl_finished c' = cl_finished c \<and> cl_chunk_info c' = cl_chunk_info c"
proof -
  have "geometry (length src) (cl_chunk_info c)" "length src < 2 ^ 63"
    "missing_ok (cl_chunk_info c) (cl_missing c)"
    using assms by (simp_all add: client_inv_def)
  from do_chunk_spec [OF this, of buf] obtain cs mr' where
    "do_chunk (cl_chunk_info c) (cl_missing c) buf = Inr (cs, mr')"
    "missing_ok (cl_chunk_info c) mr'" "send_ok (cl_chunk_info c) cs"
    by blast
  then show ?thesis using assms by (simp add: client_next_def client_inv_def)
qed

lemma client_step_sent:
  assumes inv: "client_inv src c"
  shows "\<exists>c'. client_step V src ChunkSent c = Inr c' \<and> client_inv src c'
    \<and> cl_finished c' = cl_finished c \<and> cl_chunk_info c' = cl_chunk_info c
    \<and> (case cl_send c of
         SendIdle _ \<Rightarrow> c' = c
       | SendChunk chunk _ \<Rightarrow> ch_index chunk < ci_num_chunks (cl_chunk_info c)
           \<and> cl_out c' = cl_out c @ [client_packet (cl_chunk_info c) src (ch_index chunk)])"
proof (cases "cl_send c")
  case (SendIdle buf)
  then show ?thesis using inv by (simp add: client_step_def)
next
  case (SendChunk chunk off)
  let ?p = "client_packet (cl_chunk_info c) src (ch_index chunk)"
  have ok: "geometry (length src) (cl_chunk_info c)" "send_ok (cl_chunk_info c) (SendChunk chunk off)"
    using inv SendChunk by (simp_all add: client_inv_def)
  then have i: "ch_index chunk < ci_num_chunks (cl_chunk_info c)" by (simp add: send_ok_def)
  have "client_inv src (c\<lparr>cl_out := cl_out c @ [?p]\<rparr>)" using inv by (simp add: client_inv_def)
  from client_next_inv [OF this, of ?p] show ?thesis
    using SendChunk send_chunk_packet [OF ok] i by (auto simp: client_step_def)
qed

lemma recv_dgram_fits:
  assumes "length buf = MTU" and "length d \<le> MTU"
  shows "recv_dgram buf d = (overwrite buf 0 d, length d) \<and> length (overwrite buf 0 d) = MTU
    \<and> slice_to (overwrite buf 0 d) (length d) = Inr d"
  using assms by (simp add: recv_dgram_def overwrite_def Let_def)

lemma client_fin_packet:
  assumes "geometry (length src) (cl_chunk_info c)"
  shows "client_fin buf c =
    Inr (c\<lparr>cl_out := cl_out c @ [fin_packet (cl_chunk_info c)], cl_finished := True\<rparr>)"
proof -
  have "0 < ci_index_field_size (cl_chunk_info c)" "ci_index_field_size (cl_chunk_info c) \<le> 8"
    using geometryD(1,2) [OF assms] by simp_all
  then show ?thesis
    by (simp add: client_fin_def Chunk_new_def fin_packet_def vec_resize_def take_le_bytes Let_def)
qed

lemma client_step_status:
  assumes inv: "client_inv src c" and len: "length d \<le> MTU"
    and parse: "parse_status_update V (cl_missing c) d = Inr (done, mr)"
    and mr: "missing_ok (cl_chunk_info c) mr"
  shows "\<exists>c'. client_step V src (StatusUpdate d) c = Inr c' \<and> client_inv src c'
    \<and> cl_chunk_info c' = cl_chunk_info c \<and> cl_finished c' = (cl_finished c \<or> done)
    \<and> cl_out c' = cl_out c @ (if done then [fin_packet (cl_chunk_info c)] else [])"
proof -
  let ?buf = "overwrite (cl_recv_buf c) 0 d"
  let ?c1 = "c\<lparr>cl_recv_buf := ?buf, cl_missing := mr\<rparr>"
  have buf: "recv_dgram (cl_recv_buf c) d = (?buf, length d)" "length ?buf = MTU"
    "slice_to ?buf (length d) = Inr d"
    using recv_dgram_fits [of "cl_recv_buf c" d] inv len by (simp_all add: client_inv_def)
  have inv1: "client_inv src ?c1" using inv buf(2) mr by (simp add: client_inv_def)
  have g: "geometry (length src) (cl_chunk_info ?c1)" using inv1 by (simp add: client_inv_def)
  show ?thesis
  proof (cases "done")
    case True
    then show ?thesis
      using buf parse inv1 client_fin_packet [OF g]
      by (simp add: client_step_def client_inv_def Let_def)
  next
    case False
    show ?thesis
    proof (cases "cl_send c")
      case (SendChunk chunk off)
      then show ?thesis using False buf parse inv1 by (simp add: client_step_def Let_def)
    next
      case (SendIdle b)
      then show ?thesis
        using False buf parse client_next_inv [OF inv1, of b] by (auto simp: client_step_def Let_def)
    qed
  qed
qed

context varint_codec
begin

lemma client_once_start_inv:
  assumes "length src < 2 ^ 63" and "login_wf V (client_login filename (length src))"
  shows "\<exists>c. client_once_start V filename src = Inr c \<and> client_inv src c
    \<and> index_field_size (length src) = Inr (cl_chunk_info c) \<and> \<not> cl_finished c
    \<and> cl_out c = [login_bytes V (client_login filename (length src))]"
proof -
  let ?b = "login_bytes V (client_login filename (length src))"
  obtain ci where ci: "index_field_size (length src) = Inr ci" "geometry (length src) ci"
    using index_field_size_geometry [of "length src"] assms(1) by auto
  let ?c = "\<lparr>cl_chunk_info = ci, cl_missing = MissingRanges_default, cl_send = SendIdle [],
     cl_recv_buf = replicate MTU 0, cl_out = [?b], cl_finished = False\<rparr>"
  have "client_inv src ?c"
    using ci assms(1) by (simp add: client_inv_def missing_ok_def send_ok_def ranges_ok_def
        MissingRanges_default_def)
  from client_next_inv [OF this, of ?b] show ?thesis
    using ci login_encode_bytes [OF assms(2)] by (auto simp: client_once_start_def)
qed

end

section \<open>Properties\<close>

text \<open>C20: whenever the client's loop has sent a datagram, it is the packet of one chunk of the file, and
  the loop goes on without a panic; when the file's length is not a multiple of the chunk size, the
  packet carries the whole chunk.\<close>

theorem client_sends_chunks:
  assumes "client_inv src c" and "cl_send c = SendChunk chunk off"
  shows "\<exists>c'. client_step V src ChunkSent c = Inr c' \<and> client_inv src c'
    \<and> cl_out c' = cl_out c @ [client_packet (cl_chunk_info c) src (ch_index chunk)]
    \<and> ch_index chunk < ci_num_chunks (cl_chunk_info c)
    \<and> (ci_last_chunk_size (cl_chunk_info c) \<noteq> 0 \<longrightarrow>
         client_packet (cl_chunk_info c) src (ch_index chunk) = data_packet (cl_chunk_info c) src (ch_index chunk))"
proof -
  have g: "geometry (length src) (cl_chunk_info c)" using assms(1) by (simp add: client_inv_def)
  obtain c' where "client_step V src ChunkSent c = Inr c'" "client_inv src c'"
    "ch_index chunk < ci_num_chunks (cl_chunk_info c)"
    "cl_out c' = cl_out c @ [client_packet (cl_chunk_info c) src (ch_index chunk)]"
    using client_step_sent [OF assms(1), of V] assms(2) by auto
  then show ?thesis using payload_chunk [OF g] by blast
qed

definition demo_client :: Client where
  "demo_client = \<lparr>cl_chunk_info = \<lparr>ci_index_field_size = 1, ci_chunk_size = 1459, ci_num_chunks = 1,
       ci_last_chunk_size = 3\<rparr>, cl_missing = \<lparr>mr_missing = [(0, 1)], mr_cursor = 1\<rparr>,
     cl_send = SendChunk \<lparr>ch_index_field_size = 1, ch_index = 0, ch_buf = [0, 0, 0, 0]\<rparr> 0,
     cl_recv_buf = replicate MTU 0, cl_out = [], cl_finished = False\<rparr>"

lemma demo_client_inv: "client_inv [1, 2, 3] demo_client"
  by (simp add: client_inv_def demo_client_def geometry_def MTU_def div_up_def missing_ok_def ranges_ok_def
      covered_def send_ok_def payload_def)

theorem client_sends_chunks_witness:
  "\<exists>c'. client_step leb_api [1, 2, 3] ChunkSent demo_client = Inr c' \<and> cl_out c' = [[0, 1, 2, 3]]"
proof -
  have "cl_send demo_client = SendChunk \<lparr>ch_index_field_size = 1, ch_index = 0, ch_buf = [0, 0, 0, 0]\<rparr> 0"
    by (simp add: demo_client_def)
  from client_sends_chunks [OF demo_client_inv this, of leb_api] show ?thesis
    by (auto simp: demo_client_def client_packet_def payload_def)
qed

text \<open>C36: when the file's length is a multiple of the chunk size, the client never sends the data of the
  last chunk: \<^verbatim>\<open>do_chunk\<close> takes the size of the last chunk from \<^verbatim>\<open>index_field_size\<close>, which computes it
  as the remainder, 0. Whenever the next missing chunk is the last one, the datagram that goes out is
  its index and nothing else, although a whole chunk of the file belongs to it.\<close>

theorem last_chunk_lost:
  assumes "length src < 2 ^ 63" and "0 < length src" and "index_field_size (length src) = Inr ci"
    and "length src mod ci_chunk_size ci = 0" and "next_chunk mr = Inr (Some (ci_num_chunks ci - 1), mr')"
  shows "\<exists>chunk off. do_chunk ci mr buf = Inr (SendChunk chunk off, mr') \<and>
    send_chunk src chunk off = Inr (le_bytes (ci_index_field_size ci) (ci_num_chunks ci - 1)) \<and>
    length (chunk_data ci src (ci_num_chunks ci - 1)) = ci_chunk_size ci"
proof -
  let ?s = "ci_chunk_size ci" and ?q = "length src div ci_chunk_size ci" and ?ifs = "ci_index_field_size ci"
  have g: "geometry (length src) ci"
    using index_field_size_geometry [of "length src"] assms(1,3) by auto
  have n: "ci_num_chunks ci = ?q" and last: "ci_last_chunk_size ci = 0"
    using geometryD(4,6) [OF g] assms(4) by (simp_all add: div_up_def)
  have len: "length src = ?q * ?s" using assms(4) by auto
  then have "0 < ?q" using assms(2) by (metis mult_0 not_gr0)
  then obtain k where k: "?q = Suc k" by (cases ?q) auto
  then have src: "length src = k * ?s + ?s" using len by simp
  then have data: "length (chunk_data ci src k) = ?s" by (simp add: length_chunk_data)
  have off: "mul64 k ?s = Inr (k * ?s)" using src assms(1) by (simp add: mul64_def)
  have "0 < ?ifs" "?ifs \<le> 8" using geometryD(1,2) [OF g] by simp_all
  then obtain c where c: "Chunk_new buf k ?ifs 0 = Inr c" "ch_index_field_size c = ?ifs"
      "length (ch_buf c) = ?ifs" "take ?ifs (ch_buf c) = le_bytes ?ifs k"
    using Chunk_new_header [of ?ifs 0 buf k] by auto
  have "do_chunk ci mr buf = Inr (SendChunk c (k * ?s), mr')"
    using assms(5) n k last off c(1) by (simp add: do_chunk_def sub64_def)
  moreover have "send_chunk src c (k * ?s) = Inr (le_bytes ?ifs k)"
    using c by (simp add: send_chunk_def Chunk_as_ref_def read_exact_at_def Chunk_fill_exact)
  ultimately show ?thesis using data n k by simp
qed

theorem last_chunk_lost_witness:
  "\<exists>ci chunk off mr'. index_field_size 1459 = Inr ci \<and>
     do_chunk ci \<lparr>mr_missing = [(0, 1)], mr_cursor = 0\<rparr> [] = Inr (SendChunk chunk off, mr') \<and>
     send_chunk (replicate 1459 7) chunk off = Inr [0]"
proof -
  let ?ci = "\<lparr>ci_index_field_size = 1, ci_chunk_size = 1459, ci_num_chunks = 1, ci_last_chunk_size = 0\<rparr>"
  have ci: "index_field_size 1459 = Inr ?ci"
    by (simp add: index_field_size_def ifs_loop.simps MTU_def div_up_def)
  have "next_chunk \<lparr>mr_missing = [(0, 1)], mr_cursor = 0\<rparr> = Inr (Some (ci_num_chunks ?ci - 1), \<lparr>mr_missing = [(0, 1)], mr_cursor = 1\<rparr>)"
    by (simp add: next_chunk_def)
  from last_chunk_lost [of "replicate 1459 7" ?ci, OF _ _ _ _ this, of "[]"] ci show ?thesis by auto
qed

end
