(* ===== verification/Congestion.thy ===== *)
theory Congestion
  imports Prelude Complex_Main
begin

text \<open>
  The server's bookkeeping of round-trip and inter-packet times, which decides when a periodic
  status update is due (\<^verbatim>\<open>v1/csync/src/server/congestion.rs\<close>). Durations and instants are
  nanoseconds; \<^verbatim>\<open>Instant::now()\<close> is the argument \<open>now\<close>, and the poll of the tokio
  \<^verbatim>\<open>Delay\<close> is an argument too. \<open>num_packets\<close> is the only floating-point code: it is
  defined over the reals (rounding of \<^verbatim>\<open>f64\<close> is left out), and the operations that call it
  take it as the argument \<open>np\<close>, so they stay executable.
\<close>

section \<open>Durations, futures and streams\<close>

text \<open>A \<^verbatim>\<open>Duration\<close> holds \<open>u64\<close> seconds and nanoseconds below one second.\<close>

definition dur_limit :: nat where
  "dur_limit = 2 ^ 64 * 10 ^ 9"

definition dur_add :: "nat \<Rightarrow> nat \<Rightarrow> nat res" where
  "dur_add a b = (if a + b < dur_limit then Inr (a + b) else Inl (Panic ArithOverflow))"

definition dur_sub :: "nat \<Rightarrow> nat \<Rightarrow> nat res" where
  "dur_sub a b = (if b \<le> a then Inr (a - b) else Inl (Panic ArithOverflow))"

definition dur_mul :: "nat \<Rightarrow> nat \<Rightarrow> nat res" where
  "dur_mul a k = (if a * k < dur_limit then Inr (a * k) else Inl (Panic ArithOverflow))"

definition dur_div :: "nat \<Rightarrow> nat \<Rightarrow> nat res" where
  "dur_div a k = (if k = 0 then Inl (Panic DivByZero) else Inr (a div k))"

datatype 'a async = NotReady | Ready 'a

datatype delay_poll = DelayNotReady | DelayReady | DelayErr

lemma dur_eq_Inr [outcome_simps]:
  "dur_add a b = Inr c \<longleftrightarrow> c = a + b \<and> a + b < dur_limit"
  "dur_sub a b = Inr c \<longleftrightarrow> c = a - b \<and> b \<le> a"
  "dur_mul a k = Inr c \<longleftrightarrow> c = a * k \<and> a * k < dur_limit"
  "dur_div a k = Inr c \<longleftrightarrow> c = a div k \<and> k \<noteq> 0"
  by (auto simp: dur_add_def dur_sub_def dur_mul_def dur_div_def)

section \<open>The congestion state and its operations\<close>

record CongestionInfo =
  cg_rtt_start :: "nat option"
  cg_rtts :: "nat list"
  cg_rtt :: nat
  cg_last_ipt :: "nat option"
  cg_ipts :: "nat list"
  cg_ipt :: nat
  cg_last_notify :: nat
  cg_packets_since_last_notify :: nat
  cg_delay :: "nat option"
  cg_done :: bool

definition CongestionInfo_new :: "nat \<Rightarrow> CongestionInfo" where
  "CongestionInfo_new now =
     \<lparr>cg_rtt_start = None, cg_rtts = [], cg_rtt = 0, cg_last_ipt = None, cg_ipts = [], cg_ipt = 0,
      cg_last_notify = now, cg_packets_since_last_notify = 0, cg_delay = None, cg_done = False\<rparr>"

definition start_rtt :: "nat \<Rightarrow> CongestionInfo \<Rightarrow> CongestionInfo res" where
  "start_rtt now c =
     (if cg_rtt_start c \<noteq> None then Inl (Panic ExplicitPanic)
      else Inr (c\<lparr>cg_rtt_start := Some now\<rparr>))"

definition stop_rtt :: "nat \<Rightarrow> CongestionInfo \<Rightarrow> CongestionInfo res" where
  "stop_rtt now c =
     (case cg_rtt_start c of
        Some t \<Rightarrow>
          bindE (dur_sub now t) (\<lambda>rtt.
          Inr (c\<lparr>cg_rtt_start := None, cg_rtt := rtt, cg_rtts := cg_rtts c @ [rtt]\<rparr>))
      | None \<Rightarrow> Inl (Panic ExplicitPanic))"

definition is_rtt_running :: "CongestionInfo \<Rightarrow> bool" where
  "is_rtt_running c = (cg_rtt_start c \<noteq> None)"

definition rtt :: "CongestionInfo \<Rightarrow> nat res" where
  "rtt c = (if cg_rtts c = [] then Inl (Panic ExplicitPanic) else Inr (cg_rtt c))"

text \<open>
  \<open>1 / ipt\<close> packets per second, over its logarithm. An inter-packet time of 0 makes the
  quotient of two infinities, which is not a number and converts to 0.
\<close>

definition num_packets :: "nat \<Rightarrow> nat" where
  "num_packets ipt =
     (if ipt = 0 then 0
      else let pps = 1 / (real ipt / 10 ^ 9) in
        min (2 ^ 32 - 1) (nat \<lfloor>pps / ln (pps + 1)\<rfloor>))"

definition update_delay :: "(nat \<Rightarrow> nat) \<Rightarrow> CongestionInfo \<Rightarrow> CongestionInfo res" where
  "update_delay np c =
     bindE (dur_mul (cg_ipt c) (np (cg_ipt c))) (\<lambda>t.
     bindE (dur_add t (cg_rtt c)) (\<lambda>time_left.
     bindE (dur_add (cg_last_notify c) time_left) (\<lambda>d.
     Inr (c\<lparr>cg_delay := Some d\<rparr>))))"

text \<open>Making room in the window of ten samples, or scaling the average of fewer.\<close>

definition ipt_shift :: "CongestionInfo \<Rightarrow> CongestionInfo res" where
  "ipt_shift c =
     (if length (cg_ipts c) = 10 then
        bindE (dur_div (hd (cg_ipts c)) 10) (\<lambda>x.
        bindE (dur_sub (cg_ipt c) x) (\<lambda>ipt.
        Inr (c\<lparr>cg_ipts := tl (cg_ipts c), cg_ipt := ipt\<rparr>)))
      else
        bindE (dur_mul (cg_ipt c) (length (cg_ipts c))) (\<lambda>x.
        bindE (dur_div x (length (cg_ipts c) + 1)) (\<lambda>ipt.
        Inr (c\<lparr>cg_ipt := ipt\<rparr>))))"

text \<open>Returns the new state and whether the current task is notified.\<close>

definition ipt_packet :: "(nat \<Rightarrow> nat) \<Rightarrow> nat \<Rightarrow> CongestionInfo \<Rightarrow> (CongestionInfo \<times> bool) res" where
  "ipt_packet np now c =
     (case cg_last_ipt c of
        None \<Rightarrow> Inr (c\<lparr>cg_last_ipt := Some now\<rparr>, False)
      | Some old \<Rightarrow>
          let c1 = c\<lparr>cg_last_ipt := Some now\<rparr> in
          bindE (dur_sub now old) (\<lambda>diff.
          bindE (ipt_shift c1) (\<lambda>c2.
          let c3 = c2\<lparr>cg_ipts := cg_ipts c2 @ [diff]\<rparr> in
          bindE (dur_div diff (length (cg_ipts c3))) (\<lambda>x.
          bindE (dur_add (cg_ipt c3) x) (\<lambda>ipt.
          bindE (update_delay np (c3\<lparr>cg_ipt := ipt\<rparr>)) (\<lambda>c4.
          let n = cg_packets_since_last_notify c4 + 1 in
          if n < 2 ^ 32 then
            Inr (c4\<lparr>cg_packets_since_last_notify := n\<rparr>, n > np (cg_ipt c4))
          else Inl (Panic ArithOverflow)))))))"

definition CongestionInfo_shutdown :: "CongestionInfo \<Rightarrow> CongestionInfo" where
  "CongestionInfo_shutdown c = c\<lparr>cg_done := True\<rparr>"

definition notify_now :: "(nat \<Rightarrow> nat) \<Rightarrow> nat \<Rightarrow> CongestionInfo \<Rightarrow> (unit option async \<times> CongestionInfo) res" where
  "notify_now np now c =
     bindE (update_delay np (c\<lparr>cg_packets_since_last_notify := 0, cg_last_notify := now\<rparr>)) (\<lambda>c'.
     Inr (Ready (Some ()), c'))"

definition CongestionInfo_poll ::
    "(nat \<Rightarrow> nat) \<Rightarrow> nat \<Rightarrow> delay_poll \<Rightarrow> CongestionInfo \<Rightarrow> (unit option async \<times> CongestionInfo) res" where
  "CongestionInfo_poll np now dp c =
     (if cg_done c then Inr (NotReady, c)
      else if cg_delay c = None then Inr (NotReady, c)
      else case dp of
          DelayNotReady \<Rightarrow>
            if cg_packets_since_last_notify c \<ge> np (cg_ipt c) then notify_now np now c
            else Inr (NotReady, c)
        | DelayReady \<Rightarrow> notify_now np now c
        | DelayErr \<Rightarrow> Inl (IoErr OtherIo))"

section \<open>The window of inter-packet times\<close>

definition cg_ok :: "CongestionInfo \<Rightarrow> bool" where
  "cg_ok c \<longleftrightarrow> length (cg_ipts c) \<le> 10
     \<and> (cg_ipts c \<noteq> [] \<longrightarrow> cg_last_ipt c \<noteq> None) \<and> (cg_rtts c = [] \<longrightarrow> cg_rtt c = 0)"

lemma update_delay_frame:
  "update_delay np c = Inr c' \<Longrightarrow>
   c' = c\<lparr>cg_delay := Some (cg_last_notify c + (cg_ipt c * np (cg_ipt c) + cg_rtt c))\<rparr>"
  by (auto simp: update_delay_def outcome_simps)

lemma ipt_shift_frame:
  "ipt_shift c = Inr c' \<Longrightarrow>
   \<exists>ipt. c' = c\<lparr>cg_ipts := (if length (cg_ipts c) = 10 then tl (cg_ipts c) else cg_ipts c),
               cg_ipt := ipt\<rparr>"
  by (auto simp: ipt_shift_def outcome_simps split: if_splits)

lemma ipt_packet_shape:
  assumes "ipt_packet np now c = Inr (c', b)" and "cg_last_ipt c = Some old"
  shows "cg_ipts c' = (if length (cg_ipts c) = 10 then tl (cg_ipts c) else cg_ipts c) @ [now - old]
    \<and> cg_last_ipt c' = Some now \<and> old \<le> now \<and> cg_done c' = cg_done c \<and> cg_rtt c' = cg_rtt c
    \<and> cg_rtts c' = cg_rtts c \<and> cg_rtt_start c' = cg_rtt_start c
    \<and> cg_last_notify c' = cg_last_notify c
    \<and> cg_packets_since_last_notify c' = cg_packets_since_last_notify c + 1
    \<and> cg_delay c' = Some (cg_last_notify c + (cg_ipt c' * np (cg_ipt c') + cg_rtt c))
    \<and> b = (cg_packets_since_last_notify c + 1 > np (cg_ipt c'))"
proof -
  let ?c1 = "c\<lparr>cg_last_ipt := Some now\<rparr>"
  obtain c2 ipt c4 where le: "old \<le> now" and c2: "ipt_shift ?c1 = Inr c2"
    and c4: "update_delay np (c2\<lparr>cg_ipts := cg_ipts c2 @ [now - old], cg_ipt := ipt\<rparr>) = Inr c4"
    and c': "c' = c4\<lparr>cg_packets_since_last_notify := cg_packets_since_last_notify c4 + 1\<rparr>"
    and b: "b = (cg_packets_since_last_notify c4 + 1 > np (cg_ipt c4))"
    using assms by (auto simp: ipt_packet_def bindE_eq_Inr dur_eq_Inr Let_def split: if_splits)
  obtain x where x: "c2 = ?c1\<lparr>cg_ipts := (if length (cg_ipts ?c1) = 10 then tl (cg_ipts ?c1)
      else cg_ipts ?c1), cg_ipt := x\<rparr>"
    using ipt_shift_frame [OF c2] by blast
  show ?thesis
    using le update_delay_frame [OF c4] c' b unfolding x by simp
qed

lemma ipt_packet_ok:
  assumes "cg_ok c" and "ipt_packet np now c = Inr (c', b)"
  shows "cg_ok c'"
proof (cases "cg_last_ipt c")
  case None
  with assms show ?thesis by (auto simp: ipt_packet_def cg_ok_def)
next
  case (Some old)
  with ipt_packet_shape [OF assms(2) Some] assms(1) show ?thesis
    by (auto simp: cg_ok_def split: if_splits)
qed

lemma CongestionInfo_poll_ok:
  assumes "cg_ok c" and "CongestionInfo_poll np now dp c = Inr (r, c')"
  shows "cg_ok c' \<and> cg_ipts c' = cg_ipts c \<and> cg_ipt c' = cg_ipt c \<and> cg_done c' = cg_done c
    \<and> r \<noteq> Ready None"
  using assms
  by (auto simp: CongestionInfo_poll_def notify_now_def cg_ok_def outcome_simps
      split: if_splits delay_poll.splits dest!: update_delay_frame)

section \<open>The status interval\<close>

lemma num_packets_ideal_bounds:
  assumes "0 < (x::real)"
  shows "1 \<le> x / ln (x + 1)" and "x / ln (x + 1) \<le> x + 1"
proof -
  have pos: "0 < ln (x + 1)" using assms by (simp add: add.commute)
  have "ln (x + 1) \<le> x" using ln_add_one_self_le_self [of x] assms by (simp add: add.commute)
  then show "1 \<le> x / ln (x + 1)" using pos by (simp add: le_divide_eq)
  have "ln (inverse (x + 1)) \<le> inverse (x + 1) - 1"
    using assms by (intro ln_le_minus_one) simp
  then have "1 - inverse (x + 1) \<le> ln (x + 1)"
    using assms by (simp add: ln_inverse)
  then have "x / (x + 1) \<le> ln (x + 1)"
    using assms by (simp add: field_simps)
  then have "x \<le> ln (x + 1) * (x + 1)" using assms by (simp add: pos_divide_le_eq)
  then show "x / ln (x + 1) \<le> x + 1" using pos by (simp add: pos_divide_le_eq mult.commute)
qed

lemma num_packets_pos: "0 < ipt \<Longrightarrow> 1 \<le> num_packets ipt"
proof -
  assume "0 < ipt"
  define x where "x = 1 / (real ipt / 10 ^ 9)"
  have "0 < x" using \<open>0 < ipt\<close> by (simp add: x_def)
  then have "1 \<le> \<lfloor>x / ln (x + 1)\<rfloor>" using num_packets_ideal_bounds(1) [of x] by linarith
  then have "1 \<le> nat \<lfloor>x / ln (x + 1)\<rfloor>" by linarith
  moreover have "num_packets ipt = min (2 ^ 32 - 1) (nat \<lfloor>x / ln (x + 1)\<rfloor>)"
    using \<open>0 < ipt\<close> by (simp only: num_packets_def Let_def x_def less_not_refl2 if_False)
  ultimately show ?thesis by simp
qed

section \<open>Packets in a row\<close>

fun ipt_packets :: "(nat \<Rightarrow> nat) \<Rightarrow> nat list \<Rightarrow> CongestionInfo \<Rightarrow> CongestionInfo res" where
  "ipt_packets np [] c = Inr c"
| "ipt_packets np (t # ts) c = bindE (ipt_packet np t c) (\<lambda>(c', _). ipt_packets np ts c')"

lemma ipt_packets_append:
  "ipt_packets np (xs @ ys) c = bindE (ipt_packets np xs c) (ipt_packets np ys)"
  by (induction xs arbitrary: c) (auto simp: bindE_def split: sum.splits)

lemma num_packets_u32: "num_packets ipt < 2 ^ 32"
  by (auto simp: num_packets_def Let_def min_def)

text \<open>What packets at the same instant do to the average: it is only scaled down.\<close>

fun scaled_down :: "nat \<Rightarrow> nat \<Rightarrow> nat \<Rightarrow> nat" where
  "scaled_down 0 k a = a"
| "scaled_down (Suc n) k a = scaled_down n (Suc k) (a * k div Suc k)"

definition idle_clock :: "nat \<Rightarrow> CongestionInfo \<Rightarrow> bool" where
  "idle_clock t c \<longleftrightarrow> cg_last_ipt c = Some t \<and> cg_ipts c \<noteq> [] \<and> cg_ipt c \<le> 10 \<and> cg_rtt c = 0
     \<and> cg_last_notify c = 0"

lemma scaled_le: "a \<le> (10::nat) \<Longrightarrow> a * k div Suc k \<le> 10"
proof -
  assume "a \<le> 10"
  have "a * k div Suc k \<le> a * Suc k div Suc k" by (intro div_le_mono) simp
  also have "\<dots> = a" by (rule nonzero_mult_div_cancel_right) simp
  finally show ?thesis using \<open>a \<le> 10\<close> by simp
qed

lemma ipt_packet_zero_gap:
  assumes np: "\<forall>x. np x < 2 ^ 32" and c: "idle_clock t c" and k: "length (cg_ipts c) < 10"
    and n: "cg_packets_since_last_notify c + 1 < 2 ^ 32"
  shows "\<exists>c' b. ipt_packet np t c = Inr (c', b) \<and> idle_clock t c' \<and> cg_ipts c' = cg_ipts c @ [0]
    \<and> cg_ipt c' = cg_ipt c * length (cg_ipts c) div Suc (length (cg_ipts c))
    \<and> cg_packets_since_last_notify c' = cg_packets_since_last_notify c + 1"
proof -
  let ?k = "length (cg_ipts c)"
  let ?a = "cg_ipt c * ?k div Suc ?k"
  have a: "?a \<le> 10" using c scaled_le by (simp add: idle_clock_def)
  have "cg_ipt c * ?k \<le> 10 * 10" using c k by (intro mult_le_mono) (auto simp: idle_clock_def)
  then have m1: "dur_mul (cg_ipt c) ?k = Inr (cg_ipt c * ?k)" by (simp add: dur_mul_def dur_limit_def)
  have "np ?a \<le> 2 ^ 32" using np by (simp add: less_imp_le)
  with a have "?a * np ?a \<le> 10 * 2 ^ 32" by (rule mult_le_mono)
  then have m2: "dur_mul ?a (np ?a) = Inr (?a * np ?a)" "dur_add (?a * np ?a) 0 = Inr (?a * np ?a)"
    "dur_add 0 (?a * np ?a) = Inr (?a * np ?a)" "dur_add ?a 0 = Inr ?a"
    using a by (simp_all add: dur_mul_def dur_add_def dur_limit_def)
  show ?thesis
    using c k n m1 m2 a
    by (simp add: idle_clock_def ipt_packet_def ipt_shift_def update_delay_def dur_sub_def dur_div_def Let_def)
qed

lemma zero_gaps:
  assumes "\<forall>x. np x < 2 ^ 32" and "idle_clock t c" and "n + length (cg_ipts c) \<le> 10"
    and "cg_packets_since_last_notify c + n < 2 ^ 32"
  shows "\<exists>c'. ipt_packets np (replicate n t) c = Inr c' \<and> idle_clock t c'
    \<and> length (cg_ipts c') = length (cg_ipts c) + n \<and> hd (cg_ipts c') = hd (cg_ipts c)
    \<and> cg_ipt c' = scaled_down n (length (cg_ipts c)) (cg_ipt c)"
  using assms(2-)
proof (induction n arbitrary: c)
  case 0
  then show ?case by simp
next
  case (Suc n)
  obtain c1 b where c1: "ipt_packet np t c = Inr (c1, b)" "idle_clock t c1" "cg_ipts c1 = cg_ipts c @ [0]"
    "cg_ipt c1 = cg_ipt c * length (cg_ipts c) div Suc (length (cg_ipts c))"
    "cg_packets_since_last_notify c1 = cg_packets_since_last_notify c + 1"
    using ipt_packet_zero_gap [OF assms(1) Suc.prems(1)] Suc.prems by auto
  moreover have "cg_ipts c \<noteq> []" using Suc.prems(1) by (simp add: idle_clock_def)
  ultimately show ?case using Suc.IH [OF c1(2)] Suc.prems by auto
qed

text \<open>
  The gaps between packets at the times \<open>ts\<close>, and the window of the last ten. As long as the
  window grows, every packet rounds the average down twice; once it is full, the average changes by
  the rounded tenths that enter and leave, so the error made while it grew stays and no more is added.
\<close>

fun gaps :: "nat list \<Rightarrow> nat list" where
  "gaps (s # t # ts) = (t - s) # gaps (t # ts)"
| "gaps _ = []"

definition window :: "nat list \<Rightarrow> nat list" where
  "window g = drop (length g - 10) g"

lemma gaps_snoc: "gaps (ts @ [s, t]) = gaps (ts @ [s]) @ [t - s]"
  by (induction ts rule: gaps.induct) auto

lemma length_gaps: "length (gaps ts) = length ts - 1"
  by (induction ts rule: gaps.induct) auto

lemma window_length: "length (window g) = min 10 (length g)"
  by (simp add: window_def)

definition slid :: "nat list \<Rightarrow> nat list" where
  "slid w = (if length w = 10 then tl w else w)"

lemma window_snoc: "window (g @ [y]) = slid (window g) @ [y]"
proof (cases "length g < 10")
  case True
  then show ?thesis by (simp add: window_def slid_def)
next
  case False
  then have "Suc (length g) - 10 = Suc (length g - 10)" "drop (Suc (length g - 10)) g = tl (drop (length g - 10) g)"
    by (simp_all add: drop_Suc tl_drop)
  with False show ?thesis by (simp add: window_def slid_def)
qed

definition averages :: "nat list \<Rightarrow> nat \<Rightarrow> bool" where
  "averages w a \<longleftrightarrow>
     (if length w < 10
      then length w * a \<le> sum_list w \<and> sum_list w \<le> length w * a + length w * (length w - 1)
      else a \<le> (\<Sum>y\<leftarrow>w. y div 10) + 9 \<and> (\<Sum>y\<leftarrow>w. y div 10) \<le> a + 9)"

lemma sum_list_tenths: "sum_list w = 10 * (\<Sum>y\<leftarrow>w. y div 10) + (\<Sum>y\<leftarrow>w. y mod 10)" for w :: "nat list"
  by (induction w) auto

lemma sum_list_mods: "(\<Sum>y\<leftarrow>w. y mod 10) \<le> 9 * length w" for w :: "nat list"
  by (induction w) auto

lemma averages_bounds:
  assumes "averages w a" and "length w \<le> 10"
  shows "length w * a \<le> sum_list w + 90 \<and> sum_list w \<le> length w * a + 180"
proof (cases "length w < 10")
  case True
  then have "length w * (length w - 1) \<le> 9 * 9" by (intro mult_le_mono) auto
  with True assms show ?thesis by (auto simp: averages_def)
next
  case False
  then have "length w = 10" using assms(2) by simp
  then show ?thesis
    using assms(1) sum_list_tenths [of w] sum_list_mods [of w] by (auto simp: averages_def)
qed

lemma tenths_near:
  "10 * a \<le> s \<Longrightarrow> s \<le> 10 * a + 90 \<Longrightarrow> m \<le> 90 \<Longrightarrow> s = 10 * t + m \<Longrightarrow> a \<le> t + 9 \<and> t \<le> a + 9"
  for a s m t :: nat
  by linarith

lemma averages_grow:
  assumes "averages w a" and "length w < 10"
  shows "averages (w @ [y]) (a * length w div Suc (length w) + y div Suc (length w))"
proof -
  let ?k = "length w" and ?a = "a * length w div Suc (length w) + y div Suc (length w)"
  define m x where "m = Suc ?k" and "x = a * ?k"
  have "x = m * (x div m) + x mod m" "y = m * (y div m) + y mod m" by simp_all
  moreover have "x mod m \<le> ?k" "y mod m \<le> ?k"
    by (simp_all add: m_def less_Suc_eq_le [symmetric])
  moreover have "x \<le> sum_list w" "sum_list w \<le> x + ?k * (?k - 1)"
    using assms by (auto simp: averages_def x_def mult.commute)
  moreover have "?k * (?k - 1) + 2 * ?k = m * ?k" by (cases ?k) (auto simp: m_def)
  moreover have "m * (x div m + y div m) = m * (x div m) + m * (y div m)" by (rule distrib_left)
  moreover have "sum_list (w @ [y]) = sum_list w + y" by simp
  ultimately have "m * (x div m + y div m) \<le> sum_list (w @ [y])"
    and "sum_list (w @ [y]) \<le> m * (x div m + y div m) + m * ?k"
    by linarith+
  then have lo: "Suc ?k * ?a \<le> sum_list (w @ [y])" and hi: "sum_list (w @ [y]) \<le> Suc ?k * ?a + Suc ?k * ?k"
    by (simp_all only: m_def x_def)
  show ?thesis
  proof (cases "Suc ?k < 10")
    case True
    with lo hi show ?thesis by (simp add: averages_def)
  next
    case False
    then have ten: "?k = 9" using assms(2) by auto
    have len: "length (w @ [y]) = 10" using ten by simp
    have "10 * ?a \<le> sum_list (w @ [y])" "sum_list (w @ [y]) \<le> 10 * ?a + 90"
      using lo hi unfolding ten by simp_all
    moreover have "(\<Sum>z\<leftarrow>w @ [y]. z mod 10) \<le> 90" using sum_list_mods [of "w @ [y]"] len by simp
    ultimately have "?a \<le> (\<Sum>z\<leftarrow>w @ [y]. z div 10) + 9 \<and> (\<Sum>z\<leftarrow>w @ [y]. z div 10) \<le> ?a + 9"
      using tenths_near sum_list_tenths by blast
    with len show ?thesis unfolding averages_def by simp
  qed
qed

lemma averages_slide:
  assumes "averages (x # w) a" and "length w = 9" and "\<forall>z \<in> set w. 10 \<le> z"
  shows "x div 10 \<le> a \<and> averages (w @ [y]) (a - x div 10 + y div 10)"
proof -
  have "length w \<le> (\<Sum>z\<leftarrow>w. z div 10)" using assms(3) by (induction w) fastforce+
  then show ?thesis using assms(1,2) by (auto simp: averages_def)
qed

text \<open>One packet: nothing overflows as long as times stay below \<open>2 ^ 61\<close> nanoseconds.\<close>

lemma sum_list_bounded: "\<forall>z \<in> set w. z \<le> (b::nat) \<Longrightarrow> sum_list w \<le> length w * b"
  by (induction w) auto

lemma averages_bounded:
  assumes "averages w a" and "w \<noteq> []" and "length w \<le> 10" and "\<forall>z \<in> set w. z < 2 ^ 61"
  shows "a < 2 ^ 61 + 90"
proof (rule ccontr)
  assume "\<not> a < 2 ^ 61 + 90"
  then have "length w * (2 ^ 61 + 90) \<le> length w * a" by (intro mult_le_mono) auto
  moreover have "sum_list w \<le> length w * (2 ^ 61 - 1)" using assms(4) by (intro sum_list_bounded) auto
  moreover have "length w * a \<le> sum_list w + 90" using averages_bounds [OF assms(1,3)] by simp
  ultimately have "length w * (2 ^ 61 + 90) \<le> length w * (2 ^ 61 - 1) + 90" by linarith
  moreover have "1 \<le> length w" using assms(2) by (cases w) auto
  ultimately show False by simp
qed

lemma ipt_shift_room:
  assumes w: "length (cg_ipts c) \<le> 10" "averages (cg_ipts c) (cg_ipt c)" "\<forall>z \<in> set (cg_ipts c). 10 \<le> z \<and> z < 2 ^ 61"
  shows "\<exists>a. ipt_shift c = Inr (c\<lparr>cg_ipts := slid (cg_ipts c), cg_ipt := a\<rparr>)
    \<and> averages (slid (cg_ipts c) @ [y]) (a + y div Suc (length (slid (cg_ipts c))))"
proof (cases "length (cg_ipts c) = 10")
  case True
  then obtain x w' where x: "cg_ipts c = x # w'" "length w' = 9" by (cases "cg_ipts c") auto
  have "averages (x # w') (cg_ipt c)" "\<forall>z \<in> set w'. 10 \<le> z" using w(2,3) x by simp_all
  note averages_slide [OF this(1) x(2) this(2), of y]
  moreover have "slid (cg_ipts c) = w'" "Suc (length w') = 10" using x by (simp_all add: slid_def)
  moreover have "ipt_shift c = Inr (c\<lparr>cg_ipts := w', cg_ipt := cg_ipt c - x div 10\<rparr>)"
    using x calculation(1) by (simp add: ipt_shift_def dur_div_def dur_sub_def)
  ultimately show ?thesis by metis
next
  case False
  then have k: "length (cg_ipts c) < 10" using w(1) by simp
  have "sum_list (cg_ipts c) \<le> length (cg_ipts c) * 2 ^ 61" using w(3) by (intro sum_list_bounded) auto
  also have "\<dots> \<le> 10 * 2 ^ 61" using k by simp
  finally have "cg_ipt c * length (cg_ipts c) < dur_limit"
    using averages_bounds [OF w(2,1)] by (simp add: dur_limit_def mult.commute)
  then have "ipt_shift c = Inr (c\<lparr>cg_ipts := cg_ipts c, cg_ipt := cg_ipt c * length (cg_ipts c) div Suc (length (cg_ipts c))\<rparr>)"
    using False by (simp add: ipt_shift_def dur_div_def dur_mul_def)
  moreover have "slid (cg_ipts c) = cg_ipts c" using False by (simp add: slid_def)
  ultimately show ?thesis using averages_grow [OF w(2) k, of y] by metis
qed

lemma gaps_range:
  assumes "sorted_wrt (\<lambda>s t. s + 10 \<le> t) ts" and "\<forall>t \<in> set ts. t < b"
  shows "\<forall>y \<in> set (gaps ts). 10 \<le> y \<and> y < b"
  using assms by (induction ts rule: gaps.induct) auto

text \<open>The state after packets at the times \<open>ts\<close>, the last at \<open>t\<close>.\<close>

definition paced :: "(nat \<Rightarrow> nat) \<Rightarrow> nat \<Rightarrow> nat list \<Rightarrow> CongestionInfo \<Rightarrow> bool" where
  "paced np now0 ts c \<longleftrightarrow>
     cg_ipts c = window (gaps ts) \<and> averages (cg_ipts c) (cg_ipt c) \<and> cg_rtt c = 0 \<and> cg_last_notify c = now0
     \<and> cg_last_ipt c = Some (last ts) \<and> cg_packets_since_last_notify c = length ts - 1
     \<and> cg_delay c = (if cg_ipts c = [] then None else Some (now0 + cg_ipt c * np (cg_ipt c)))"

lemma ipt_packet_paced:
  assumes np: "\<forall>x. np x < 2 ^ 32" and c: "paced np now0 (ts @ [s]) c" and now: "now0 < 2 ^ 61" "t < 2 ^ 61" "s + 10 \<le> t"
    and g: "\<forall>y \<in> set (gaps (ts @ [s])). 10 \<le> y \<and> y < 2 ^ 61" and n: "length ts + 1 < 2 ^ 32"
  shows "\<exists>c' b. ipt_packet np t c = Inr (c', b) \<and> paced np now0 (ts @ [s, t]) c'"
proof -
  let ?w = "window (gaps (ts @ [s]))" and ?c1 = "c\<lparr>cg_last_ipt := Some t\<rparr>"
  have w: "length ?w \<le> 10" "\<forall>z \<in> set ?w. 10 \<le> z \<and> z < 2 ^ 61"
    using g by (auto simp: window_length window_def dest: in_set_dropD)
  have ci: "cg_ipts c = ?w" "averages ?w (cg_ipt c)" "cg_rtt c = 0" "cg_last_notify c = now0" "cg_last_ipt c = Some s"
    "cg_packets_since_last_notify c = length ts"
    using c [unfolded paced_def] by auto
  obtain a where a: "ipt_shift ?c1 = Inr (?c1\<lparr>cg_ipts := slid ?w, cg_ipt := a\<rparr>)"
    "averages (slid ?w @ [t - s]) (a + (t - s) div Suc (length (slid ?w)))"
    using ipt_shift_room [of ?c1 "t - s"] w ci(1,2) by auto
  let ?a = "a + (t - s) div Suc (length (slid ?w))"
  have w1: "length (slid ?w @ [t - s]) \<le> 10" "\<forall>z \<in> set (slid ?w @ [t - s]). z < 2 ^ 61"
    using w now by (auto simp: slid_def dest: list.set_sel(2) [rotated])
  have small: "?a < 2 ^ 61 + 90" using averages_bounded [OF a(2) _ w1] by simp
  have "?a * np ?a \<le> (2 ^ 61 + 90) * 2 ^ 32" using small np by (intro mult_le_mono) (auto simp: less_imp_le)
  then have d: "dur_mul ?a (np ?a) = Inr (?a * np ?a)" "dur_add (?a * np ?a) 0 = Inr (?a * np ?a)"
    "dur_add now0 (?a * np ?a) = Inr (now0 + ?a * np ?a)" "dur_add a ((t - s) div Suc (length (slid ?w))) = Inr ?a"
    using small now(1) by (simp_all add: dur_mul_def dur_add_def dur_limit_def)
  have "\<exists>c' b. ipt_packet np t c = Inr (c', b) \<and> cg_ipts c' = slid ?w @ [t - s] \<and> cg_ipt c' = ?a \<and> cg_rtt c' = 0
      \<and> cg_last_notify c' = now0 \<and> cg_last_ipt c' = Some t \<and> cg_packets_since_last_notify c' = length ts + 1
      \<and> cg_delay c' = Some (now0 + ?a * np ?a)"
    using ci a(1) d now(3) n
    by (simp add: ipt_packet_def update_delay_def dur_sub_def dur_div_def Let_def)
  then obtain c' b where c': "ipt_packet np t c = Inr (c', b)" "cg_ipts c' = slid ?w @ [t - s]" "cg_ipt c' = ?a"
      "cg_rtt c' = 0" "cg_last_notify c' = now0" "cg_last_ipt c' = Some t"
      "cg_packets_since_last_notify c' = length ts + 1" "cg_delay c' = Some (now0 + ?a * np ?a)"
    by blast
  then have "paced np now0 (ts @ [s, t]) c'" using a(2) by (simp add: paced_def gaps_snoc window_snoc)
  with c'(1) show ?thesis by blast
qed

lemma ipt_packets_paced:
  assumes np: "\<forall>x. np x < 2 ^ 32" and now: "now0 < 2 ^ 61"
    and "ts \<noteq> []" and "\<forall>t \<in> set ts. t < 2 ^ 61" and "sorted_wrt (\<lambda>s t. s + 10 \<le> t) ts" and "length ts < 2 ^ 32"
  shows "\<exists>c. ipt_packets np ts (CongestionInfo_new now0) = Inr c \<and> paced np now0 ts c"
  using assms(3-)
proof (induction ts rule: rev_induct)
  case Nil
  then show ?case by simp
next
  case (snoc t ts)
  show ?case
  proof (cases ts rule: rev_cases)
    case Nil
    then show ?thesis
      by (simp add: ipt_packet_def CongestionInfo_new_def paced_def window_def averages_def)
  next
    case (snoc us s)
    obtain c where c: "ipt_packets np ts (CongestionInfo_new now0) = Inr c" "paced np now0 (us @ [s]) c"
      using snoc.IH snoc snoc.prems by (auto simp: sorted_wrt_append)
    have g: "\<forall>y \<in> set (gaps ts). 10 \<le> y \<and> y < 2 ^ 61"
      using snoc.prems(2,3) by (intro gaps_range) (auto simp: sorted_wrt_append)
    obtain c' b where "ipt_packet np t c = Inr (c', b)" "paced np now0 (us @ [s, t]) c'"
      using ipt_packet_paced [OF np c(2) now, of t] g snoc snoc.prems by (auto simp: sorted_wrt_append)
    then show ?thesis using c(1) ipt_packets_append [of np ts "[t]"] snoc by simp
  qed
qed

section \<open>Properties\<close>

text \<open>C28: the running average of inter-packet times. Packets that come at least ten nanoseconds
  apart, with all times below \<open>2 ^ 61\<close> nanoseconds, are all counted without a panic, from a fresh
  state. The window holds the gaps before the last ten packets, its average, which the code keeps
  incrementally and rounds at every packet, is off the true mean by at most 9 nanoseconds upwards and
  18 downwards once the window is full (90 and 180 over the number of gaps before that), and the next
  status time is the start plus the average times the number of packets per status.\<close>

theorem congestion_window:
  assumes "\<forall>x. np x < 2 ^ 32" and "now0 < 2 ^ 61" and "ts \<noteq> []" and "\<forall>t \<in> set ts. t < 2 ^ 61"
    and "sorted_wrt (\<lambda>s t. s + 10 \<le> t) ts" and "length ts < 2 ^ 32"
  shows "\<exists>c. ipt_packets np ts (CongestionInfo_new now0) = Inr c
    \<and> cg_ipts c = window (gaps ts)
    \<and> length (cg_ipts c) * cg_ipt c \<le> sum_list (cg_ipts c) + 90
    \<and> sum_list (cg_ipts c) \<le> length (cg_ipts c) * cg_ipt c + 180
    \<and> cg_packets_since_last_notify c = length ts - 1
    \<and> cg_delay c = (if length ts = 1 then None else Some (now0 + cg_ipt c * np (cg_ipt c)))"
proof -
  obtain c where c: "ipt_packets np ts (CongestionInfo_new now0) = Inr c" "paced np now0 ts c"
    using ipt_packets_paced [OF assms] by blast
  have "length (cg_ipts c) = min 10 (length ts - 1)" using c(2) by (simp add: paced_def window_length length_gaps)
  moreover have "cg_ipts c = [] \<longleftrightarrow> length ts = 1"
    using calculation assms(3) by (cases ts) (auto simp: min_def split: if_splits)
  ultimately show ?thesis
    using c averages_bounds [of "cg_ipts c" "cg_ipt c"] by (auto simp: paced_def)
qed

text \<open>Twelve packets: the first gap has left the window of ten.\<close>

theorem congestion_window_witness:
  "\<exists>c. ipt_packets (\<lambda>_. 3) [0, 100, 115, 130, 145, 160, 175, 190, 205, 220, 235, 250] (CongestionInfo_new 7) = Inr c
     \<and> cg_ipts c = replicate 10 15 \<and> 10 * cg_ipt c \<le> 240 \<and> cg_delay c = Some (7 + cg_ipt c * 3)"
proof -
  let ?ts = "[0, 100, 115, 130, 145, 160, 175, 190, 205, 220, 235, 250] :: nat list"
  have "window (gaps ?ts) = replicate 10 15" by code_simp
  moreover have "sum_list (replicate 10 15) = (150::nat)" by (simp add: sum_list_replicate)
  moreover have "length ?ts \<noteq> 1" by simp
  moreover obtain c where "ipt_packets (\<lambda>_. 3) ?ts (CongestionInfo_new 7) = Inr c" "cg_ipts c = window (gaps ?ts)"
      "length (cg_ipts c) * cg_ipt c \<le> sum_list (cg_ipts c) + 90"
      "cg_delay c = (if length ?ts = 1 then None else Some (7 + cg_ipt c * 3))"
    using congestion_window [of "\<lambda>_. 3" 7 ?ts] by auto
  ultimately have "ipt_packets (\<lambda>_. 3) ?ts (CongestionInfo_new 7) = Inr c" "cg_ipts c = replicate 10 15"
    "10 * cg_ipt c \<le> 240" "cg_delay c = Some (7 + cg_ipt c * 3)"
    by (simp_all only: length_replicate if_False)
  then show ?thesis by blast
qed

text \<open>C39: the running average can underflow. Each step of the average rounds down, so after one gap of
  ten nanoseconds and ten packets at the same instant the average is 0, and taking out a tenth of the
  oldest gap panics.\<close>

theorem congestion_underflow:
  assumes "\<forall>x. np x < 2 ^ 32"
  shows "ipt_packets np (0 # 10 # replicate 9 10 @ [10]) (CongestionInfo_new 0) = Inl (Panic ArithOverflow)"
proof -
  have "10 * np 10 \<le> 10 * 2 ^ 32" using assms by (simp add: less_imp_le)
  then have np: "dur_mul 10 (np 10) = Inr (10 * np 10)" "dur_add (10 * np 10) 0 = Inr (10 * np 10)"
    "dur_add 0 (10 * np 10) = Inr (10 * np 10)" "dur_mul 0 0 = Inr 0" "dur_add 0 10 = Inr 10"
    by (simp_all add: dur_mul_def dur_add_def dur_limit_def)
  then obtain c where c: "ipt_packets np [0, 10] (CongestionInfo_new 0) = Inr c" "idle_clock 10 c"
    "cg_ipts c = [10]" "cg_ipt c = 10" "cg_packets_since_last_notify c = 1"
    by (simp add: ipt_packet_def CongestionInfo_new_def dur_sub_def dur_div_def ipt_shift_def
        update_delay_def idle_clock_def Let_def)
  have room: "9 + length (cg_ipts c) \<le> 10" "cg_packets_since_last_notify c + 9 < 2 ^ 32"
    using c(3,5) by simp_all
  obtain c1 where c1: "ipt_packets np (replicate 9 10) c = Inr c1" "idle_clock 10 c1"
    "length (cg_ipts c1) = length (cg_ipts c) + 9" "hd (cg_ipts c1) = hd (cg_ipts c)"
    "cg_ipt c1 = scaled_down 9 (length (cg_ipts c)) (cg_ipt c)"
    using zero_gaps [OF assms c(2) room] by blast
  have "scaled_down 9 (length [10 :: nat]) 10 = 0" by code_simp
  then have "cg_ipt c1 = 0" "length (cg_ipts c1) = 10" "hd (cg_ipts c1) = 10"
    using c1(3-5) unfolding c(3,4) by simp_all
  then have "ipt_packet np 10 c1 = Inl (Panic ArithOverflow)"
    using c1(2) by (simp add: ipt_packet_def ipt_shift_def idle_clock_def dur_sub_def dur_div_def Let_def)
  then have "ipt_packets np (replicate 9 10 @ [10]) c = Inl (Panic ArithOverflow)"
    using c1(1) by (simp add: ipt_packets_append)
  then show ?thesis
    using ipt_packets_append [of np "[0, 10]" "replicate 9 10 @ [10]"] c(1) by simp
qed

theorem congestion_underflow_witness:
  "(\<forall>x. num_packets x < 2 ^ 32) \<and>
   ipt_packets num_packets (0 # 10 # replicate 9 10 @ [10]) (CongestionInfo_new 0) = Inl (Panic ArithOverflow)"
  using congestion_underflow [of num_packets] num_packets_u32 by blast

end
