(* ===== verification/Sender.thy ===== *)
theory Sender
  imports Runlength Congestion
begin

text \<open>
  The half of a server connection that sends status updates
  (\<^verbatim>\<open>v1/csync/src/server/sender.rs\<close>, and \<^verbatim>\<open>ChannelMessage\<close> of \<^verbatim>\<open>server/mod.rs\<close>).
  The bitmap behind \<^verbatim>\<open>Arc<Mutex<..>>\<close> belongs to the connection and is passed in; the sender
  records whether it holds the handle. The result of the socket's \<^verbatim>\<open>poll_send\<close> is an argument.
\<close>

datatype ChannelMessage = UploadStart | UploadStatus

datatype SenderState = Sending | Waiting

record Sender =
  sn_vec :: "u8 list"
  sn_bitmap :: bool
  sn_state :: SenderState

datatype send_poll = SendNotReady | SendWritten nat | SendErr

datatype sink_result = SinkReady | SinkNotReady ChannelMessage

definition Sender_new :: Sender where
  "Sender_new = \<lparr>sn_vec = replicate MTU 0, sn_bitmap = False, sn_state = Waiting\<rparr>"

definition Sender_poll_complete :: "send_poll \<Rightarrow> Sender \<Rightarrow> (unit async \<times> Sender) res" where
  "Sender_poll_complete sp s =
     (if sn_state s = Waiting then Inr (Ready (), s)
      else case sp of
          SendNotReady \<Rightarrow> Inr (NotReady, s)
        | SendErr \<Rightarrow> Inl (IoErr OtherIo)
        | SendWritten n \<Rightarrow>
            if n = length (sn_vec s) then Inr (Ready (), s\<lparr>sn_state := Waiting\<rparr>)
            else Inl (IoErr OtherIo))"

text \<open>
  Serialising the bitmap into \<open>vec\<close>: the slice writer overwrites the front of the resized
  vector, which is then cut to the number of bytes written.
\<close>

definition status_packet :: "varint_api \<Rightarrow> BitMap \<Rightarrow> u8 list \<Rightarrow> u8 list res" where
  "status_packet V bitmap vec =
     (let v1 = vec_resize MTU 0 vec in
      bindE (unwrap_res (write_runlength_encoded V bitmap (slice_writer (length v1)))) (\<lambda>(size, w).
      Inr (vec_truncate size (overwrite v1 0 (wr_out w)))))"

definition Sender_start_send ::
    "varint_api \<Rightarrow> BitMap \<Rightarrow> send_poll \<Rightarrow> ChannelMessage \<Rightarrow> Sender \<Rightarrow> (sink_result \<times> Sender) res" where
  "Sender_start_send V bitmap sp item s =
     bindE (if sn_state s = Sending then Sender_poll_complete sp s else Inr (Ready (), s)) (\<lambda>(r, s1).
     case r of
       NotReady \<Rightarrow> Inr (SinkNotReady item, s1)
     | Ready _ \<Rightarrow>
         (case item of
            UploadStart \<Rightarrow>
              if sn_bitmap s1 then Inl (Panic ExplicitPanic)
              else Inr (SinkReady, s1\<lparr>sn_bitmap := True\<rparr>)
          | UploadStatus \<Rightarrow>
              if \<not> sn_bitmap s1 then Inl (Panic UnwrapNone)
              else bindE (status_packet V bitmap (sn_vec s1)) (\<lambda>v.
                Inr (SinkReady, s1\<lparr>sn_vec := v, sn_state := Sending\<rparr>))))"

definition Sender_close :: "send_poll \<Rightarrow> Sender \<Rightarrow> (unit async \<times> Sender) res" where
  "Sender_close sp s = Sender_poll_complete sp s"

section \<open>The packet is a faithful status update of at most one segment\<close>

lemma emit_out_le:
  assumes "wr_limit w = Some L" and "length (wr_out w) \<le> L"
  shows "length (wr_out (snd (emit V ns n w))) \<le> L"
  using assms
proof (induction ns arbitrary: n w)
  case Nil
  then show ?case by simp
next
  case (Cons m ns)
  then show ?case by (auto simp: write_all_def wr_fits_def)
qed

lemma MTU_ge: "20 \<le> MTU"
  by (simp add: MTU_def)

context varint_codec
begin

lemma status_packet_exact:
  assumes "bm_ok m" and "bm_num_bits m < 2 ^ 60"
  shows "\<exists>pkt mr' stop. status_packet V m vec = Inr pkt \<and> length pkt \<le> MTU
    \<and> parse_status_update V mr pkt = Inr (BitMap_all m, mr')
    \<and> mr_cursor mr' = 0 \<and> ranges_ok (mr_missing mr')
    \<and> covered (mr_missing mr') = {i. i < stop \<and> \<not> bits m ! i} \<and> stop \<le> bm_num_bits m
    \<and> (BitMap_all m \<or> covered (mr_missing mr') \<noteq> {})"
proof -
  obtain n w mr' stop where
    w: "write_runlength_encoded V m (slice_writer MTU) = Inr (n, w)" "n \<le> length (wr_out w)"
    and rest: "parse_status_update V mr (take n (wr_out w)) = Inr (BitMap_all m, mr')"
      "mr_cursor mr' = 0" "ranges_ok (mr_missing mr')"
      "covered (mr_missing mr') = {i. i < stop \<and> \<not> bits m ! i}" "stop \<le> bm_num_bits m"
      "BitMap_all m \<or> covered (mr_missing mr') \<noteq> {}"
    using status_update_exact [OF assms MTU_ge, of mr] by blast
  have fits: "bm_fits m" using assms(1) by (simp add: bm_ok_def)
  have "length (wr_out w) \<le> MTU"
    using emit_out_le [of "slice_writer MTU" MTU V "runs (bits m)" 0]
      write_runlength_emit [OF fits assms(2), of "slice_writer MTU"] w(1)
    by (simp add: slice_writer_def)
  then have "status_packet V m vec = Inr (take n (wr_out w))" and "n \<le> MTU"
    using w by (simp_all add: status_packet_def vec_truncate_def overwrite_def Let_def)
  with rest show ?thesis by (metis (no_types, lifting) length_take min.coboundedI2)
qed

end

section \<open>Properties\<close>

text \<open>C21: when the channel asks an idle sender for a status update, it builds one datagram of at most
  one segment, and a client that reads it learns exactly the missing chunks up to some point; it says
  that the upload is complete precisely when every chunk is marked.\<close>

theorem sender_status_faithful:
  assumes "varint_codec V" and "bm_ok m" and "bm_num_bits m < 2 ^ 60"
    and "sn_state s = Waiting" and "sn_bitmap s"
  shows "\<exists>s' mr' stop. Sender_start_send V m sp UploadStatus s = Inr (SinkReady, s')
    \<and> sn_state s' = Sending \<and> sn_bitmap s' \<and> length (sn_vec s') \<le> MTU
    \<and> parse_status_update V mr (sn_vec s') = Inr (BitMap_all m, mr')
    \<and> stop \<le> bm_num_bits m \<and> covered (mr_missing mr') = {i. i < stop \<and> \<not> bits m ! i}
    \<and> (BitMap_all m \<or> covered (mr_missing mr') \<noteq> {})"
proof -
  obtain pkt mr' stop where "status_packet V m (sn_vec s) = Inr pkt" "length pkt \<le> MTU"
    "parse_status_update V mr pkt = Inr (BitMap_all m, mr')" "stop \<le> bm_num_bits m"
    "covered (mr_missing mr') = {i. i < stop \<and> \<not> bits m ! i}"
    "BitMap_all m \<or> covered (mr_missing mr') \<noteq> {}"
    using varint_codec.status_packet_exact [OF assms(1-3)] by blast
  moreover from this have "Sender_start_send V m sp UploadStatus s
      = Inr (SinkReady, s\<lparr>sn_vec := pkt, sn_state := Sending\<rparr>)"
    using assms(4,5) by (simp add: Sender_start_send_def)
  ultimately show ?thesis using assms(5) by (intro exI conjI) (assumption | simp)+
qed

theorem sender_status_faithful_witness:
  "\<exists>s'. Sender_start_send leb_api \<lparr>bm_buf = [3], bm_num_bits = 2, bm_zeroes = 0\<rparr> SendNotReady UploadStatus
      (Sender_new\<lparr>sn_bitmap := True\<rparr>) = Inr (SinkReady, s')
    \<and> (\<exists>mr'. parse_status_update leb_api MissingRanges_default (sn_vec s') = Inr (True, mr'))"
proof -
  let ?m = "\<lparr>bm_buf = [3], bm_num_bits = 2, bm_zeroes = 0\<rparr> :: BitMap"
  have "bits ?m = [True, True]" by (simp add: bits_def bit_at_def upt_rec numeral_2_eq_2)
  then have ok: "bm_ok ?m" by (simp add: bm_ok_def bm_fits_def)
  have "BitMap_all ?m" by (simp add: BitMap_all_def)
  with sender_status_faithful [OF leb_varint_codec ok, of "Sender_new\<lparr>sn_bitmap := True\<rparr>" SendNotReady
      MissingRanges_default]
  show ?thesis by (simp add: Sender_new_def) blast
qed

end
