(* ===== verification/File_System.thy ===== *)
theory File_System
  imports Prelude
begin

text \<open>
  What the version 1 server uses of \<^verbatim>\<open>std::path\<close> and \<^verbatim>\<open>std::fs\<close>: paths and their
  components, the files of the machine as a map from resolved paths to contents, and open files with
  a position and the append flag. An open file only names its contents, so two handles on one path
  see each other's writes.
\<close>

section \<open>Paths\<close>

text \<open>A path is whether it starts at the root, and its components.\<close>

type_synonym path = "bool \<times> u8 list list"

definition slash :: u8 where "slash = 47"
definition dot :: u8 where "dot = 46"

fun split_slash :: "u8 list \<Rightarrow> u8 list list" where
  "split_slash [] = [[]]"
| "split_slash (b # bs) =
     (if b = slash then [] # split_slash bs
      else (case split_slash bs of [] \<Rightarrow> [[b]] | c # cs \<Rightarrow> (b # c) # cs))"

definition Path_new :: "u8 list \<Rightarrow> path" where
  "Path_new s = (s \<noteq> [] \<and> hd s = slash, filter (\<lambda>c. c \<noteq> [] \<and> c \<noteq> [dot]) (split_slash s))"

definition has_root :: "path \<Rightarrow> bool" where
  "has_root p = fst p"

definition strip_root :: "path \<Rightarrow> path" where
  "strip_root p = (False, snd p)"

definition path_join :: "path \<Rightarrow> path \<Rightarrow> path" where
  "path_join a b = (if has_root b then b else (fst a, snd a @ snd b))"

text \<open>The operating system's resolution of a path, without symbolic links.\<close>

fun resolve_from :: "u8 list list \<Rightarrow> u8 list list \<Rightarrow> u8 list list" where
  "resolve_from acc [] = acc"
| "resolve_from acc (c # cs) =
     (if c = [dot, dot] then resolve_from (butlast acc) cs else resolve_from (acc @ [c]) cs)"

definition resolve_path :: "u8 list list \<Rightarrow> path \<Rightarrow> u8 list list" where
  "resolve_path cwd p = resolve_from (if has_root p then [] else cwd) (snd p)"

section \<open>Files\<close>

type_synonym fs = "u8 list list \<rightharpoonup> u8 list"

record File =
  fl_path :: "u8 list list"
  fl_pos :: nat
  fl_append :: bool

definition fs_create :: "fs \<Rightarrow> u8 list list \<Rightarrow> fs" where
  "fs_create fs p = (case fs p of None \<Rightarrow> fs(p \<mapsto> []) | Some _ \<Rightarrow> fs)"

definition fs_set_len :: "fs \<Rightarrow> u8 list list \<Rightarrow> nat \<Rightarrow> fs" where
  "fs_set_len fs p n = (case fs p of None \<Rightarrow> fs | Some c \<Rightarrow> fs(p \<mapsto> vec_resize n 0 c))"

definition fs_remove :: "fs \<Rightarrow> u8 list list \<Rightarrow> fs" where
  "fs_remove fs p = fs(p := None)"

definition file_seek :: "File \<Rightarrow> nat \<Rightarrow> File" where
  "file_seek f n = f\<lparr>fl_pos := n\<rparr>"

text \<open>
  Writing bytes: at the position, or at the end of the file when it was opened for appending. A gap
  between the end and the position reads as zeros. Writing to a removed file reaches no path.
\<close>

definition file_write :: "fs \<Rightarrow> File \<Rightarrow> u8 list \<Rightarrow> fs \<times> File" where
  "file_write fs f ds =
     (if ds = [] then (fs, f)
      else case fs (fl_path f) of
          None \<Rightarrow> (fs, f\<lparr>fl_pos := fl_pos f + length ds\<rparr>)
        | Some c \<Rightarrow>
            let at = (if fl_append f then length c else fl_pos f);
                c' = overwrite (vec_resize (max (length c) (at + length ds)) 0 c) at ds
            in (fs(fl_path f \<mapsto> c'), f\<lparr>fl_pos := at + length ds\<rparr>))"

lemma vec_resize_same [simp]: "vec_resize (length xs) v xs = xs"
  by (simp add: vec_resize_def)

lemma fs_created_len: "\<exists>c. fs_set_len (fs_create fs p) p n p = Some c \<and> length c = n"
  by (auto simp: fs_set_len_def fs_create_def split: option.splits)

lemma file_write_inside:
  assumes "\<not> fl_append f" and "fs (fl_path f) = Some c" and "fl_pos f + length ds \<le> length c"
  shows "fst (file_write fs f ds) (fl_path f) = Some (overwrite c (fl_pos f) ds)"
  using assms by (auto simp: file_write_def Let_def max_def overwrite_def)

lemma file_write_append:
  assumes "fl_append f" and "fs (fl_path f) = Some c"
  shows "fst (file_write fs f ds) (fl_path f) = Some (c @ ds)"
  using assms by (auto simp: file_write_def Let_def max_def overwrite_def vec_resize_def)

lemma file_write_frame:
  "p \<noteq> fl_path f \<Longrightarrow> fst (file_write fs f ds) p = fs p"
  by (auto simp: file_write_def Let_def split: option.splits)

lemma file_write_handle:
  "fl_path (snd (file_write fs f ds)) = fl_path f \<and> fl_append (snd (file_write fs f ds)) = fl_append f"
  by (auto simp: file_write_def Let_def split: option.splits)

lemma file_write_pos:
  assumes "\<not> fl_append f"
  shows "fl_pos (snd (file_write fs f ds)) = fl_pos f + length ds"
  using assms by (auto simp: file_write_def Let_def split: option.splits)

section \<open>Plain names\<close>

text \<open>A name that is one component of a path and stays where it is put.\<close>

definition plain_name :: "u8 list \<Rightarrow> bool" where
  "plain_name n \<longleftrightarrow> n \<noteq> [] \<and> slash \<notin> set n \<and> n \<noteq> [dot] \<and> n \<noteq> [dot, dot]"

lemma split_slash_plain: "slash \<notin> set n \<Longrightarrow> split_slash n = [n]"
  by (induction n) auto

lemma resolve_from_snoc: "n \<noteq> [dot, dot] \<Longrightarrow> resolve_from acc (xs @ [n]) = resolve_from acc xs @ [n]"
  by (induction acc xs rule: resolve_from.induct) auto

end
