(* ===== verification/Receiver.thy ===== *)
theory Receiver
  imports Sender File_System
begin

text \<open>
  The half of a server connection that receives chunks and writes them to disk
  (\<^verbatim>\<open>v1/csync/src/server/receiver.rs\<close>): the connection state machine with its five states,
  opening or resuming an upload, and \<^verbatim>\<open>poll\<close> with everything it changes. One value of
  \<open>recv_env\<close> per poll holds what the environment answers: the clock, the timer, the bytes the
  file accepts and the datagram on the socket. The bitmap behind \<^verbatim>\<open>Arc<Mutex<..>>\<close>, which the
  sender reads, and the machine's files are fields of the record; \<open>rc_tx\<close> lists what was sent
  into the channel, oldest first.
\<close>

section \<open>State\<close>

record wait_for_chunk =
  wf_file :: File
  wf_bitmap_path :: "u8 list list"
  wf_buf :: "u8 list"
  wf_chunk_info :: ChunkInfo

text \<open>The \<^verbatim>\<open>WriteAll\<close> future is the file, the chunk and how many bytes went out so far.\<close>

record writing_chunk =
  wc_bitmap_path :: "u8 list list"
  wc_chunk_info :: ChunkInfo
  wc_file :: File
  wc_chunk :: Chunk
  wc_written :: nat

datatype ReceiverState =
    Invalid
  | WaitForAck wait_for_chunk
  | WaitForChunk wait_for_chunk
  | WritingChunk writing_chunk
  | Shutdown "u8 list"

record Receiver =
  rc_state :: ReceiverState
  rc_tx :: "ChannelMessage list"
  rc_folder :: path
  rc_congestion :: CongestionInfo
  rc_bitmap :: BitMap
  rc_fs :: fs

datatype write_poll = WBytes nat | WErr

datatype recv_poll = RecvNotReady | RecvData "u8 list" | RecvErr

record recv_env =
  re_now :: nat
  re_delay :: delay_poll
  re_write :: write_poll
  re_recv :: recv_poll

text \<open>
  What is not under the repository's control: the hexadecimal SHA-256 digest (crates \<^verbatim>\<open>ring\<close> and
  \<^verbatim>\<open>hex\<close>), the working directory, whether the operating system creates or opens a directory or
  file at a path, and whether a file of a given length can be mapped (crate \<^verbatim>\<open>memmap\<close>).
\<close>

record host =
  h_digest :: "u8 list \<Rightarrow> u8 list"
  h_cwd :: "u8 list list"
  h_open_ok :: "u8 list list \<Rightarrow> bool"
  h_mmap_ok :: "nat \<Rightarrow> bool"

definition str_bytes :: "string \<Rightarrow> u8 list" where
  "str_bytes s = map (\<lambda>c. of_nat (of_char c)) s"

section \<open>Opening an upload\<close>

text \<open>Where the request's data and bitmap live.\<close>

definition upload_dir :: "path \<Rightarrow> u8 list \<Rightarrow> path" where
  "upload_dir folder req_path =
     (let p = Path_new req_path;
          p' = (if has_root p then strip_root p else p)
      in path_join folder p')"

definition upload_entry :: "host \<Rightarrow> path \<Rightarrow> u8 list \<Rightarrow> string \<Rightarrow> u8 list list" where
  "upload_entry h folder req_path name =
     resolve_path (h_cwd h) (path_join (upload_dir folder req_path) (Path_new (str_bytes name)))"

text \<open>
  Every \<^verbatim>\<open>unwrap\<close> on a file operation is a panic when the operation fails; a length that is not
  a signed 64-bit number is one that \<^verbatim>\<open>set_len\<close> refuses.
\<close>

definition upload_request :: "host \<Rightarrow> UploadRequest \<Rightarrow> Receiver \<Rightarrow> Receiver res" where
  "upload_request h req r =
     bindE (index_field_size (ur_length req)) (\<lambda>ci.
     let file_path = upload_entry h (rc_folder r) (ur_path req) ''file'';
         bitmap_path = upload_entry h (rc_folder r) (ur_path req) ''bitmap'';
         continue_upload = (rc_fs r bitmap_path \<noteq> None);
         fs1 = fs_create (rc_fs r) bitmap_path
     in if \<not> h_open_ok h (resolve_path (h_cwd h) (upload_dir (rc_folder r) (ur_path req)))
         \<or> \<not> h_open_ok h bitmap_path then Inl (Panic UnwrapErr)
     else bindE (add64 (ci_num_chunks ci) 7) (\<lambda>n7.
     let bitmap_file_len = n7 div 8;
         fs2 = (if \<not> continue_upload then fs_set_len fs1 bitmap_path bitmap_file_len else fs1);
         mmap = (case fs2 bitmap_path of Some c \<Rightarrow> c | None \<Rightarrow> [])
     in if \<not> h_mmap_ok h (length mmap) then Inl (Panic UnwrapErr)
     else bindE (BitMap_with_length mmap (ci_num_chunks ci)) (\<lambda>bitmap.
     let fs3 = fs_set_len (fs_create fs2 file_path) file_path (ur_length req);
         file = \<lparr>fl_path = file_path, fl_pos = 0, fl_append = continue_upload\<rparr>
     in if \<not> h_open_ok h file_path \<or> 2 ^ 63 \<le> ur_length req then Inl (Panic UnwrapErr)
     else Inr (r\<lparr>rc_fs := fs3, rc_bitmap := bitmap, rc_tx := rc_tx r @ [UploadStart],
               rc_state := WaitForChunk
                 \<lparr>wf_file = file, wf_bitmap_path = bitmap_path, wf_buf = [], wf_chunk_info = ci\<rparr>\<rparr>))))"

fun Receiver_command :: "host \<Rightarrow> Command \<Rightarrow> Receiver \<Rightarrow> Receiver res" where
  "Receiver_command h (CmdUploadRequest req) r = upload_request h req r"

definition Receiver_new :: "host \<Rightarrow> nat \<Rightarrow> fs \<Rightarrow> Login \<Rightarrow> Receiver res" where
  "Receiver_new h now files login =
     (let hex = h_digest h (lg_client_token login);
          path = path_join (Path_new (str_bytes ''./files/'')) (Path_new hex);
          r = \<lparr>rc_state = Invalid, rc_tx = [], rc_folder = path,
               rc_congestion = CongestionInfo_new now,
               rc_bitmap = \<lparr>bm_buf = [], bm_num_bits = 0, bm_zeroes = 0\<rparr>, rc_fs = files\<rparr>
      in bindE (Receiver_command h (lg_command login) r) (\<lambda>r1.
         let r2 = r1\<lparr>rc_tx := rc_tx r1 @ [UploadStatus]\<rparr> in
         bindE (start_rtt now (rc_congestion r2)) (\<lambda>cg.
         Inr (r2\<lparr>rc_congestion := cg\<rparr>))))"

section \<open>Receiving\<close>

definition Receiver_ack :: "nat \<Rightarrow> Receiver \<Rightarrow> Receiver res" where
  "Receiver_ack now r =
     bindE (stop_rtt now (rc_congestion r)) (\<lambda>cg.
     bindE (rtt cg) (\<lambda>_.
     case rc_state r of
       WaitForAck st \<Rightarrow> Inr (r\<lparr>rc_congestion := cg, rc_state := WaitForChunk st\<rparr>)
     | _ \<Rightarrow> Inl (Panic UnreachableCode)))"

definition Receiver_chunk ::
    "(nat \<Rightarrow> nat) \<Rightarrow> nat \<Rightarrow> Chunk \<Rightarrow> wait_for_chunk \<Rightarrow> Receiver \<Rightarrow> Receiver res" where
  "Receiver_chunk np now chunk st r =
     bindE (ipt_packet np now (rc_congestion r)) (\<lambda>(cg, _).
     let r1 = r\<lparr>rc_congestion := cg\<rparr> in
     bindE (BitMap_get (rc_bitmap r1) (ch_index chunk)) (\<lambda>received.
     if received then
       Inr (r1\<lparr>rc_state := WaitForChunk (st\<lparr>wf_buf := ch_buf chunk\<rparr>)\<rparr>)
     else
       bindE (mul64 (ch_index chunk) (ci_chunk_size (wf_chunk_info st))) (\<lambda>off.
       Inr (r1\<lparr>rc_state := WritingChunk
         \<lparr>wc_bitmap_path = wf_bitmap_path st, wc_chunk_info = wf_chunk_info st,
          wc_file = file_seek (wf_file st) off, wc_chunk = chunk, wc_written = 0\<rparr>\<rparr>))))"

fun is_power_of_two :: "nat \<Rightarrow> bool" where
  "is_power_of_two n = (if n = 0 then False else if n = 1 then True
     else even n \<and> is_power_of_two (n div 2))"

declare is_power_of_two.simps [simp del]

text \<open>The shared mapping writes the bitmap through to its file.\<close>

definition sync_bitmap :: "u8 list list \<Rightarrow> BitMap \<Rightarrow> fs \<Rightarrow> fs" where
  "sync_bitmap p m fs = (case fs p of None \<Rightarrow> fs | Some _ \<Rightarrow> fs(p \<mapsto> bm_buf m))"

definition chunk_written :: "writing_chunk \<Rightarrow> File \<Rightarrow> Receiver \<Rightarrow> Receiver res" where
  "chunk_written w file r =
     bindE (BitMap_set (rc_bitmap r) (ch_index (wc_chunk w)) True) (\<lambda>(_, bitmap).
     let tx = (if is_power_of_two (bm_zeroes bitmap) \<or> bm_zeroes bitmap = 0
               then rc_tx r @ [UploadStatus] else rc_tx r)
     in Inr (r\<lparr>rc_bitmap := bitmap, rc_tx := tx,
               rc_fs := sync_bitmap (wc_bitmap_path w) bitmap (rc_fs r),
               rc_state := WaitForChunk
                 \<lparr>wf_file = file, wf_bitmap_path = wc_bitmap_path w,
                  wf_buf = ch_buf (wc_chunk w), wf_chunk_info = wc_chunk_info w\<rparr>\<rparr>))"

definition poll_writing :: "recv_env \<Rightarrow> Receiver \<Rightarrow> (unit async \<times> Receiver) res" where
  "poll_writing e r =
     (case rc_state r of
        WritingChunk w \<Rightarrow>
          bindE (Chunk_as_ref (wc_chunk w)) (\<lambda>data.
          let rest = drop (wc_written w) data in
          if rest = [] then
            bindE (chunk_written w (wc_file w) r) (\<lambda>r'. Inr (Ready (), r'))
          else case re_write e of
              WErr \<Rightarrow> Inl (IoErr OtherIo)
            | WBytes n \<Rightarrow>
                let ds = take n rest;
                    (fs', file') = file_write (rc_fs r) (wc_file w) ds;
                    r1 = r\<lparr>rc_fs := fs'\<rparr>
                in if length rest \<le> n then
                     bindE (chunk_written w file' r1) (\<lambda>r'. Inr (Ready (), r'))
                   else
                     Inr (NotReady, r1\<lparr>rc_state := WritingChunk
                       (w\<lparr>wc_file := file', wc_written := wc_written w + length ds\<rparr>)\<rparr>))
      | _ \<Rightarrow> Inr (Ready (), r))"

definition poll_congestion :: "(nat \<Rightarrow> nat) \<Rightarrow> recv_env \<Rightarrow> Receiver \<Rightarrow> Receiver res" where
  "poll_congestion np e r =
     bindE (CongestionInfo_poll np (re_now e) (re_delay e) (rc_congestion r)) (\<lambda>(a, cg).
     let r1 = r\<lparr>rc_congestion := cg\<rparr> in
     case a of
       Ready (Some ()) \<Rightarrow> Inr (r1\<lparr>rc_tx := rc_tx r1 @ [UploadStatus]\<rparr>)
     | NotReady \<Rightarrow> Inr r1
     | Ready None \<Rightarrow> Inl (Panic UnreachableCode))"

definition got_fin :: "Chunk \<Rightarrow> wait_for_chunk \<Rightarrow> Receiver \<Rightarrow> Receiver" where
  "got_fin chunk st r =
     (let fs' = (if BitMap_all (rc_bitmap r) \<and> rc_fs r (wf_bitmap_path st) \<noteq> None
                 then fs_remove (rc_fs r) (wf_bitmap_path st) else rc_fs r)
      in r\<lparr>rc_fs := fs', rc_congestion := CongestionInfo_shutdown (rc_congestion r),
           rc_state := Shutdown (ch_buf chunk)\<rparr>)"

text \<open>A datagram received into a buffer of \<open>MTU\<close> bytes, cut to its size.\<close>

definition recv_buf :: "u8 list \<Rightarrow> u8 list \<Rightarrow> u8 list" where
  "recv_buf buf dgram =
     (let got = take MTU dgram in vec_truncate (length got) (overwrite (vec_resize MTU 0 buf) 0 got))"

definition poll_recv_state ::
    "(nat \<Rightarrow> nat) \<Rightarrow> recv_env \<Rightarrow> Receiver \<Rightarrow> (unit option async \<times> Receiver) res" where
  "poll_recv_state np e r =
     (case rc_state r of
        Invalid \<Rightarrow> Inl (Panic UnreachableCode)
      | WaitForAck st \<Rightarrow>
          (case re_recv e of
             RecvNotReady \<Rightarrow> Inr (NotReady, r)
           | RecvErr \<Rightarrow> Inl (IoErr OtherIo)
           | RecvData d \<Rightarrow>
               let buf = overwrite (wf_buf st) 0 (take (length (wf_buf st)) d);
                   r1 = r\<lparr>rc_state := WaitForAck (st\<lparr>wf_buf := buf\<rparr>)\<rparr>
               in bindE (Receiver_ack (re_now e) r1) (\<lambda>r'. Inr (Ready (Some ()), r')))
      | WaitForChunk st \<Rightarrow>
          (case re_recv e of
             RecvNotReady \<Rightarrow>
               Inr (NotReady, r\<lparr>rc_state := WaitForChunk (st\<lparr>wf_buf := vec_resize MTU 0 (wf_buf st)\<rparr>)\<rparr>)
           | RecvErr \<Rightarrow> Inl (IoErr OtherIo)
           | RecvData d \<Rightarrow>
               bindE (Chunk_decode (recv_buf (wf_buf st) d) (ci_index_field_size (wf_chunk_info st)))
                 (\<lambda>chunk.
               if wrapping_sub64 (ch_index chunk) (ci_num_chunks (wf_chunk_info st)) = 0
               then Inr (Ready (Some ()), got_fin chunk st r)
               else bindE (Receiver_chunk np (re_now e) chunk st r) (\<lambda>r'.
                 Inr (Ready (Some ()), r'))))
      | WritingChunk w \<Rightarrow> Inl (Panic UnreachableCode)
      | Shutdown buf \<Rightarrow>
          (case re_recv e of
             RecvNotReady \<Rightarrow> Inr (NotReady, r\<lparr>rc_state := Shutdown (vec_resize MTU 0 buf)\<rparr>)
           | RecvErr \<Rightarrow> Inl (IoErr OtherIo)
           | RecvData d \<Rightarrow>
               Inr (Ready (Some ()),
                    r\<lparr>rc_state := Shutdown (overwrite (vec_resize MTU 0 buf) 0 (take MTU d))\<rparr>)))"

definition Receiver_poll ::
    "(nat \<Rightarrow> nat) \<Rightarrow> recv_env \<Rightarrow> Receiver \<Rightarrow> (unit option async \<times> Receiver) res" where
  "Receiver_poll np e r =
     bindE (poll_congestion np e r) (\<lambda>r1.
     bindE (poll_writing e r1) (\<lambda>(a, r2).
     case a of
       NotReady \<Rightarrow> Inr (NotReady, r2)
     | Ready _ \<Rightarrow>
         bindE (poll_recv_state np e r2) (\<lambda>(res, r3).
         if rc_state r3 = Invalid then Inl (Panic ExplicitPanic) else Inr (res, r3))))"

section \<open>Case analysis of a poll\<close>

lemma async_res_cases:
  obtains (err) x where "m = Inl x"
    | (not_ready) s where "m = Inr (NotReady, s)"
    | (ended) s where "m = Inr (Ready None, s)"
    | (item) s where "m = Inr (Ready (Some ()), s)"
proof (cases m)
  case (Inr b)
  obtain a s where b: "b = (a, s)" by (cases b)
  show thesis
  proof (cases a)
    case NotReady
    with Inr b not_ready show ?thesis by simp
  next
    case (Ready x)
    with Inr b ended item show ?thesis by (cases x) auto
  qed
qed (rule err)

lemma Receiver_poll_elim:
  assumes "Receiver_poll np e r = Inr (a, r')"
  obtains (writing) r1 where "poll_congestion np e r = Inr r1" "poll_writing e r1 = Inr (NotReady, r')"
      "a = NotReady"
    | (receiving) r1 r2 where "poll_congestion np e r = Inr r1"
      "poll_writing e r1 = Inr (Ready (), r2)" "poll_recv_state np e r2 = Inr (a, r')"
proof -
  obtain r1 b r2 where r1: "poll_congestion np e r = Inr r1" and r2: "poll_writing e r1 = Inr (b, r2)"
    and rest: "(case b of NotReady \<Rightarrow> Inr (NotReady, r2) | Ready _ \<Rightarrow>
         bindE (poll_recv_state np e r2) (\<lambda>(res, r3).
         if rc_state r3 = Invalid then Inl (Panic ExplicitPanic) else Inr (res, r3))) = Inr (a, r')"
    using assms unfolding Receiver_poll_def bindE_eq_Inr by auto
  show thesis
  proof (cases b)
    case NotReady
    then show thesis using r1 r2 rest writing by auto
  next
    case (Ready u)
    then show thesis using r1 r2 rest by (intro receiving) (auto simp: bindE_eq_Inr split: if_splits)
  qed
qed

end
