(* ===== verification/Timeout.thy ===== *)
theory Timeout
  imports Congestion
begin

text \<open>
  \<^verbatim>\<open>TimeoutStream\<close> (\<^verbatim>\<open>v1/csync/src/timeout.rs\<close>): a stream that fails when its interval fires
  and nothing was received since it fired last. The answers of the wrapped stream and of
  \<^verbatim>\<open>tokio\<close>'s \<^verbatim>\<open>Interval\<close> during one poll are arguments. The code polls the interval once or, in
  its inner loop, until it is not ready, and what the interval answers depends on the firings it has
  given before: its answers in one poll are a function of the number of firings taken so far, which is
  the state of the interval that the stream keeps from one poll to the next (\<open>ts_taken\<close>). A firing
  that is not taken is therefore still due in the next poll. What \<^verbatim>\<open>tokio\<close> documents of an interval
  (one firing at the end of every period, late ones given one after the other) is the hypothesis
  \<open>fires_every\<close> of the theorem; the definitions do not depend on it.
\<close>

datatype 'e timeout_error = Timeout | Timer | Other 'e

datatype 'a stream_poll = StNotReady | StReady "'a option" | StErr error

datatype interval_poll = IvNotReady | IvTick | IvEnd | IvErr

type_synonym interval_answers = "nat \<Rightarrow> interval_poll"

record TimeoutStream =
  ts_got_something :: bool
  ts_taken :: nat

definition TimeoutStream_new :: TimeoutStream where
  "TimeoutStream_new = \<lparr>ts_got_something = False, ts_taken = 0\<rparr>"

text \<open>
  The inner loop, with the number of firings taken when it stops; it does not stop, as its comment
  says, when the interval is always ready.
\<close>

partial_function (option) drain_interval ::
    "interval_answers \<Rightarrow> nat \<Rightarrow> ((error timeout_error + unit) \<times> nat) option" where
  "drain_interval iv k =
     (case iv k of
        IvNotReady \<Rightarrow> Some (Inr (), k)
      | IvTick \<Rightarrow> drain_interval iv (Suc k)
      | IvEnd \<Rightarrow> drain_interval iv (Suc k)
      | IvErr \<Rightarrow> Some (Inl Timer, k))"

datatype 'a timeout_result =
    TsItem "'a option"
  | TsNotReady
  | TsError "error timeout_error"
  | TsPanic panic
  | TsLoop

definition TimeoutStream_poll ::
    "'a stream_poll \<Rightarrow> interval_answers \<Rightarrow> TimeoutStream \<Rightarrow> 'a timeout_result \<times> TimeoutStream" where
  "TimeoutStream_poll sp iv t =
     (case sp of
        StReady x \<Rightarrow> (TsItem x, t\<lparr>ts_got_something := True\<rparr>)
      | StErr e \<Rightarrow> (TsError (Other e), t)
      | StNotReady \<Rightarrow>
          (case iv (ts_taken t) of
             IvTick \<Rightarrow>
               (let t1 = t\<lparr>ts_taken := Suc (ts_taken t)\<rparr> in
                if ts_got_something t then
                  (let t2 = t1\<lparr>ts_got_something := False\<rparr> in
                   case drain_interval iv (ts_taken t2) of
                     None \<Rightarrow> (TsLoop, t2)
                   | Some (Inl e, k) \<Rightarrow> (TsError e, t2\<lparr>ts_taken := k\<rparr>)
                   | Some (Inr _, k) \<Rightarrow> (TsNotReady, t2\<lparr>ts_taken := k\<rparr>))
                else (TsError Timeout, t1))
           | IvEnd \<Rightarrow> (TsPanic UnreachableCode, t)
           | IvNotReady \<Rightarrow> (TsNotReady, t)
           | IvErr \<Rightarrow> (TsError Timer, t)))"

section \<open>Runs\<close>

text \<open>A run of polls, each with the answers it gets, up to the first result that ends the stream.\<close>

type_synonym 'a poll_input = "'a stream_poll \<times> interval_answers"

fun timeout_run :: "'a poll_input list \<Rightarrow> TimeoutStream \<Rightarrow> 'a timeout_result list" where
  "timeout_run [] t = []"
| "timeout_run ((sp, iv) # ps) t =
     (case TimeoutStream_poll sp iv t of
        (TsItem x, t') \<Rightarrow> TsItem x # timeout_run ps t'
      | (TsNotReady, t') \<Rightarrow> TsNotReady # timeout_run ps t'
      | (r, t') \<Rightarrow> [r])"

text \<open>
  What \<^verbatim>\<open>Interval::new(start + period, period)\<close> documents: polled \<open>now\<close> nanoseconds after the start,
  it is ready for every period that has ended and whose firing was not taken yet.
\<close>

definition fires_every :: "nat \<Rightarrow> nat \<Rightarrow> interval_answers \<Rightarrow> bool" where
  "fires_every period now iv \<longleftrightarrow> (\<forall>k. iv k = (if Suc k * period \<le> now then IvTick else IvNotReady))"

lemma fires_every_iff:
  "0 < period \<Longrightarrow> fires_every period now iv \<longleftrightarrow> iv = (\<lambda>k. if k < now div period then IvTick else IvNotReady)"
  by (auto simp: fires_every_def less_eq_div_iff_mult_less_eq Suc_le_eq [symmetric] fun_eq_iff)

text \<open>
  The abstract timeout, over what every poll found (whether an item came) and the number of the period
  it fell in: a poll without an item that is the first such poll of its period and of all later ones
  takes the firings that are due, and it is silent if no item came since the last such poll.
\<close>

type_synonym poll_log = "(bool \<times> nat) list"

definition takes_firing :: "nat \<Rightarrow> poll_log \<Rightarrow> nat \<Rightarrow> bool" where
  "takes_firing k lg j \<longleftrightarrow> j < length lg \<and> \<not> fst (lg ! j) \<and> k < snd (lg ! j)
     \<and> (\<forall>i<j. \<not> fst (lg ! i) \<longrightarrow> snd (lg ! i) < snd (lg ! j))"

definition silent_until :: "bool \<Rightarrow> nat \<Rightarrow> poll_log \<Rightarrow> nat \<Rightarrow> bool" where
  "silent_until got k lg j \<longleftrightarrow>
     (\<forall>m<j. fst (lg ! m) \<longrightarrow> (\<exists>i<j. m < i \<and> takes_firing k lg i)) \<and>
     (got \<longrightarrow> (\<exists>i<j. takes_firing k lg i))"

definition got_item :: "'a stream_poll \<Rightarrow> bool" where
  "got_item sp = (case sp of StReady _ \<Rightarrow> True | _ \<Rightarrow> False)"

definition poll_log :: "nat \<Rightarrow> ('a stream_poll \<times> nat) list \<Rightarrow> poll_log" where
  "poll_log period polls = map (\<lambda>(sp, now). (got_item sp, now div period)) polls"

text \<open>The state of the stream follows the log: an item sets its flag, a firing resets it.\<close>

fun times_out :: "bool \<Rightarrow> nat \<Rightarrow> poll_log \<Rightarrow> bool" where
  "times_out got k [] = False"
| "times_out got k ((item, p) # lg) =
     (if item then times_out True k lg
      else if k < p then \<not> got \<or> times_out False p lg
      else times_out got k lg)"

lemma takes_firing_Cons:
  "takes_firing k ((item, p) # lg) 0 \<longleftrightarrow> \<not> item \<and> k < p"
  "takes_firing k ((item, p) # lg) (Suc j) \<longleftrightarrow> takes_firing (if item then k else max k p) lg j"
  by (auto simp: takes_firing_def All_less_Suc2)

lemma silent_until_Cons:
  "silent_until got k ((item, p) # lg) (Suc j) \<longleftrightarrow>
     silent_until (if item then True else if k < p then False else got) (if item then k else max k p) lg j"
  by (auto simp: silent_until_def takes_firing_Cons All_less_Suc2 Ex_less_Suc2)

lemma Ex_nat_cases: "(\<exists>j::nat. P j) \<longleftrightarrow> P 0 \<or> (\<exists>j. P (Suc j))"
  by (metis not0_implies_Suc)

lemma times_out_iff:
  "times_out got k lg \<longleftrightarrow> (\<exists>j. takes_firing k lg j \<and> silent_until got k lg j)"
proof (induction lg arbitrary: got k)
  case Nil
  then show ?case by (simp add: takes_firing_def)
next
  case (Cons x lg)
  obtain item p where x: "x = (item, p)" by (cases x)
  have "(\<exists>j. takes_firing k (x # lg) j \<and> silent_until got k (x # lg) j) \<longleftrightarrow>
      \<not> item \<and> k < p \<and> \<not> got \<or>
      (\<exists>j. takes_firing (if item then k else max k p) lg j \<and>
        silent_until (if item then True else if k < p then False else got) (if item then k else max k p) lg j)"
    unfolding x by (subst Ex_nat_cases) (auto simp: takes_firing_Cons silent_until_Cons silent_until_def [of _ _ _ 0])
  then show ?case using x by (auto simp: Cons.IH max_def)
qed

lemma drain_interval_until:
  assumes "k \<le> n"
  shows "drain_interval (\<lambda>k. if k < n then IvTick else IvNotReady) k = Some (Inr (), n)"
  using assms
proof (induction "n - k" arbitrary: k)
  case 0
  then show ?case by (subst drain_interval.simps) simp
next
  case (Suc d)
  then show ?case by (subst drain_interval.simps) simp
qed

lemma timeout_run_times_out:
  assumes "0 < period" and "length ps = length polls"
    and "\<forall>j < length polls. fst (ps ! j) = fst (polls ! j) \<and> (\<forall>e. fst (polls ! j) \<noteq> StErr e)
      \<and> fires_every period (snd (polls ! j)) (snd (ps ! j))"
  shows "TsError Timeout \<in> set (timeout_run ps t) \<longleftrightarrow>
    times_out (ts_got_something t) (ts_taken t) (poll_log period polls)"
  using assms(2,3)
proof (induction ps polls arbitrary: t rule: list_induct2)
  case Nil
  then show ?case by (simp add: poll_log_def)
next
  case (Cons p ps poll polls)
  obtain sp iv now where p: "p = (sp, iv)" "poll = (sp, now)"
    using Cons.prems [rule_format, of 0] by (cases p; cases poll) auto
  from Cons.prems [rule_format, of 0] p have iv: "fires_every period now iv" and ok: "\<forall>e. sp \<noteq> StErr e"
    by auto
  have IH: "TsError Timeout \<in> set (timeout_run ps t') \<longleftrightarrow>
      times_out (ts_got_something t') (ts_taken t') (poll_log period polls)" for t'
    using Cons.prems by (intro Cons.IH) fastforce
  show ?case
    using ok iv [unfolded fires_every_iff [OF assms(1)]] IH
    by (cases sp) (auto simp: p TimeoutStream_poll_def poll_log_def got_item_def drain_interval_until Let_def)
qed

section \<open>Properties\<close>

text \<open>C27: over any sequence of polls at any times, with an interval that fires at the end of every
  period and a wrapped stream that does not fail, the stream reports a timeout exactly when some poll
  finds a firing due and no item came since the last poll before it that did, or since the start. A
  firing is due in a poll without an item when a period has ended that no such poll saw the end of,
  however many firings have been missed in between: the inner loop takes them all.\<close>

theorem timeout_iff_silent:
  assumes "0 < period" and "length ps = length polls"
    and "\<forall>j < length polls. fst (ps ! j) = fst (polls ! j) \<and> (\<forall>e. fst (polls ! j) \<noteq> StErr e)
      \<and> fires_every period (snd (polls ! j)) (snd (ps ! j))"
  shows "TsError Timeout \<in> set (timeout_run ps TimeoutStream_new) \<longleftrightarrow>
    (\<exists>j. takes_firing 0 (poll_log period polls) j \<and>
      (\<forall>m<j. got_item (fst (polls ! m)) \<longrightarrow> (\<exists>i<j. m < i \<and> takes_firing 0 (poll_log period polls) i)))"
proof -
  have "TsError Timeout \<in> set (timeout_run ps TimeoutStream_new) \<longleftrightarrow> times_out False 0 (poll_log period polls)"
    using timeout_run_times_out [OF assms, of TimeoutStream_new] by (simp add: TimeoutStream_new_def)
  also have "\<dots> \<longleftrightarrow> (\<exists>j. takes_firing 0 (poll_log period polls) j \<and> silent_until False 0 (poll_log period polls) j)"
    by (rule times_out_iff)
  also have "\<dots> \<longleftrightarrow> (\<exists>j. takes_firing 0 (poll_log period polls) j \<and>
      (\<forall>m<j. got_item (fst (polls ! m)) \<longrightarrow> (\<exists>i<j. m < i \<and> takes_firing 0 (poll_log period polls) i)))"
    by (intro ex_cong1 conj_cong refl)
      (auto simp: silent_until_def takes_firing_def poll_log_def case_prod_beta)
  finally show ?thesis .
qed

text \<open>An item, a poll after three periods that takes their firings, one in the same period that finds
  none due, and one in the next period that times out; without the last there is no timeout.\<close>

definition demo_polls :: "(unit stream_poll \<times> nat) list" where
  "demo_polls = [(StReady (Some ()), 4), (StNotReady, 35), (StNotReady, 36), (StNotReady, 41)]"

definition demo_poll_inputs :: "unit poll_input list" where
  "demo_poll_inputs = map (\<lambda>(sp, now). (sp, \<lambda>k. if Suc k * 10 \<le> now then IvTick else IvNotReady)) demo_polls"

theorem timeout_iff_silent_witness:
  "TsError Timeout \<in> set (timeout_run demo_poll_inputs TimeoutStream_new) \<and>
   TsError Timeout \<notin> set (timeout_run (take 3 demo_poll_inputs) TimeoutStream_new)"
proof -
  have inputs: "\<forall>j < length demo_polls. fst (demo_poll_inputs ! j) = fst (demo_polls ! j) \<and>
      (\<forall>e. fst (demo_polls ! j) \<noteq> StErr e) \<and> fires_every 10 (snd (demo_polls ! j)) (snd (demo_poll_inputs ! j))"
    by (auto simp: demo_poll_inputs_def demo_polls_def fires_every_def less_Suc_eq)
  have lg: "poll_log 10 demo_polls = [(True, 0), (False, 3), (False, 3), (False, 4)]"
    "poll_log 10 (take 3 demo_polls) = [(True, 0), (False, 3), (False, 3)]"
    by (simp_all add: poll_log_def demo_polls_def got_item_def)
  have four: "takes_firing 0 (poll_log 10 demo_polls) j \<longleftrightarrow> j = 1 \<or> j = 3" for j
    unfolding lg by (auto simp: takes_firing_def less_Suc_eq numeral_3_eq_3)
  have three: "takes_firing 0 (poll_log 10 (take 3 demo_polls)) j \<longleftrightarrow> j = 1" for j
    unfolding lg by (auto simp: takes_firing_def less_Suc_eq numeral_3_eq_3)
  have item: "got_item (fst (demo_polls ! m)) \<longleftrightarrow> m = 0" if "m < 4" for m
    using that by (auto simp: demo_polls_def got_item_def nth_Cons' split: if_splits)
  have len: "length demo_poll_inputs = length demo_polls" "length demo_polls = 4"
    by (simp_all add: demo_poll_inputs_def demo_polls_def)
  have "\<forall>m<3. got_item (fst (demo_polls ! m)) \<longrightarrow> (\<exists>i<3. m < i \<and> (i = 1 \<or> i = 3))"
    using item by (auto intro: exI [of _ "1::nat"])
  then have "TsError Timeout \<in> set (timeout_run demo_poll_inputs TimeoutStream_new)"
    using timeout_iff_silent [of 10, OF _ len(1) inputs] unfolding four by auto
  moreover have "TsError Timeout \<notin> set (timeout_run (take 3 demo_poll_inputs) TimeoutStream_new)"
    using timeout_iff_silent [of 10 "take 3 demo_poll_inputs" "take 3 demo_polls"] inputs item len
    unfolding three by auto
  ultimately show ?thesis ..
qed

end
