(* ===== verification/Server.thy ===== *)
theory Server
  imports Receiver Timeout
begin

text \<open>
  The version 1 server around its connections (\<^verbatim>\<open>v1/csync/src/server/listener.rs\<close> and
  \<^verbatim>\<open>server/mod.rs\<close>): the listening socket, what \<^verbatim>\<open>handle_client\<close> builds from a login datagram,
  and how the two halves of a connection run. \<^verbatim>\<open>forward\<close> and \<^verbatim>\<open>select\<close> of the futures crate only
  decide which half is polled next, so a connection is a step relation: either half may move, the
  channel between them is a queue, and an item the sink refuses stays at its front.
\<close>

section \<open>The listener\<close>

record Listener =
  ls_buf :: "u8 list"

definition Listener_new :: Listener where
  "Listener_new = \<lparr>ls_buf = replicate MTU 0\<rparr>"

text \<open>The socket's answer is the datagram and the sender's address, or nothing.\<close>

definition Listener_poll ::
    "(u8 list \<times> 'addr) option \<Rightarrow> Listener \<Rightarrow> (u8 list \<times> nat \<times> 'addr) async \<times> Listener" where
  "Listener_poll from l =
     (case from of
        None \<Rightarrow> (NotReady, l)
      | Some (d, addr) \<Rightarrow>
          let got = take (length (ls_buf l)) d;
              buf = overwrite (ls_buf l) 0 got
          in (Ready (buf, length got, addr), l\<lparr>ls_buf := replicate MTU 0\<rparr>))"

section \<open>A connection\<close>

record Conn =
  cn_receiver :: Receiver
  cn_sender :: Sender
  cn_recv_timeout :: TimeoutStream
  cn_send_timeout :: TimeoutStream
  cn_out :: "u8 list list"
  cn_ended :: bool

text \<open>
  \<^verbatim>\<open>handle_client\<close>: an undecodable login ends the connection before it starts (\<^verbatim>\<open>None\<close>); a panic
  in decoding or in opening the upload ends the task.
\<close>

definition handle_client ::
    "varint_api \<Rightarrow> host \<Rightarrow> nat \<Rightarrow> fs \<Rightarrow> u8 list \<Rightarrow> nat \<Rightarrow> Conn option res" where
  "handle_client V h now files buf n =
     bindE (slice_to buf n) (\<lambda>d.
     case Login_decode V d of
       Inl (IoErr _) \<Rightarrow> Inr None
     | Inl (Panic p) \<Rightarrow> Inl (Panic p)
     | Inl OutOfFuel \<Rightarrow> Inl OutOfFuel
     | Inr login \<Rightarrow>
         bindE (Receiver_new h now files login) (\<lambda>stream.
         Inr (Some \<lparr>cn_receiver = stream, cn_sender = Sender_new,
                    cn_recv_timeout = TimeoutStream_new, cn_send_timeout = TimeoutStream_new,
                    cn_out = [], cn_ended = False\<rparr>)))"

text \<open>
  What a half does with the answer of its \<^verbatim>\<open>TimeoutStream\<close>: an item or nothing yet lets it go on,
  the end of the stream or an error ends the connection, because \<^verbatim>\<open>select\<close> drops the other half.
\<close>

definition stream_ends :: "'a timeout_result \<Rightarrow> bool res" where
  "stream_ends res =
     (case res of
        TsItem (Some _) \<Rightarrow> Inr False
      | TsItem None \<Rightarrow> Inr True
      | TsNotReady \<Rightarrow> Inr False
      | TsError _ \<Rightarrow> Inr True
      | TsPanic p \<Rightarrow> Inl (Panic p)
      | TsLoop \<Rightarrow> Inl OutOfFuel)"

text \<open>One poll of the receiving half.\<close>

definition conn_receive ::
    "(nat \<Rightarrow> nat) \<Rightarrow> recv_env \<Rightarrow> interval_answers \<Rightarrow> Conn \<Rightarrow> Conn res" where
  "conn_receive np e ivs cn =
     bindE (Receiver_poll np e (cn_receiver cn)) (\<lambda>(a, r).
     let (res, t) = TimeoutStream_poll (case a of NotReady \<Rightarrow> StNotReady | Ready x \<Rightarrow> StReady x) ivs
                      (cn_recv_timeout cn)
     in bindE (stream_ends res) (\<lambda>ended.
        Inr (cn\<lparr>cn_receiver := r, cn_recv_timeout := t, cn_ended := ended\<rparr>)))"

text \<open>What reaches the network when the socket answers \<open>sp\<close>.\<close>

definition sent_by :: "send_poll \<Rightarrow> Sender \<Rightarrow> u8 list list" where
  "sent_by sp s =
     (case sp of
        SendWritten n \<Rightarrow> if sn_state s = Sending \<and> n = length (sn_vec s) then [sn_vec s] else []
      | _ \<Rightarrow> [])"

text \<open>The sending half takes the next message of the channel, or finds it empty.\<close>

definition conn_forward ::
    "varint_api \<Rightarrow> send_poll \<Rightarrow> interval_answers \<Rightarrow> Conn \<Rightarrow> Conn res" where
  "conn_forward V sp ivs cn =
     (let r = cn_receiver cn;
          (res, t) = TimeoutStream_poll
            (case rc_tx r of [] \<Rightarrow> StNotReady | item # _ \<Rightarrow> StReady (Some item)) ivs (cn_send_timeout cn)
      in bindE (stream_ends res) (\<lambda>ended.
      case rc_tx r of
        [] \<Rightarrow> Inr (cn\<lparr>cn_send_timeout := t, cn_ended := ended\<rparr>)
      | item # rest \<Rightarrow>
          bindE (Sender_start_send V (rc_bitmap r) sp item (cn_sender cn)) (\<lambda>(sr, s).
          let queue = (case sr of SinkReady \<Rightarrow> rest | SinkNotReady item' \<Rightarrow> item' # rest)
          in Inr (cn\<lparr>cn_receiver := r\<lparr>rc_tx := queue\<rparr>, cn_sender := s, cn_send_timeout := t,
                     cn_out := cn_out cn @ sent_by sp (cn_sender cn)\<rparr>))))"

definition conn_flush :: "send_poll \<Rightarrow> Conn \<Rightarrow> Conn res" where
  "conn_flush sp cn =
     bindE (Sender_poll_complete sp (cn_sender cn)) (\<lambda>(_, s).
     Inr (cn\<lparr>cn_sender := s, cn_out := cn_out cn @ sent_by sp (cn_sender cn)\<rparr>))"

text \<open>A running connection, over the datagrams \<open>net\<close> that may arrive on its socket.\<close>

inductive conn_step :: "varint_api \<Rightarrow> (nat \<Rightarrow> nat) \<Rightarrow> u8 list set \<Rightarrow> Conn \<Rightarrow> Conn \<Rightarrow> bool"
  for V np net where
  receive: "\<not> cn_ended cn \<Longrightarrow> \<forall>d. re_recv e = RecvData d \<longrightarrow> d \<in> net \<Longrightarrow>
    conn_receive np e ivs cn = Inr cn' \<Longrightarrow> conn_step V np net cn cn'"
| forward: "\<not> cn_ended cn \<Longrightarrow> conn_forward V sp ivs cn = Inr cn' \<Longrightarrow> conn_step V np net cn cn'"
| flush: "\<not> cn_ended cn \<Longrightarrow> conn_flush sp cn = Inr cn' \<Longrightarrow> conn_step V np net cn cn'"

inductive_cases conn_stepE: "conn_step V np net cn cn'"

section \<open>The listener hands out exactly the datagram\<close>

lemma Listener_poll_datagram:
  assumes "length (ls_buf l) = MTU" and "Listener_poll (Some (d, addr)) l = (Ready (buf, n, a), l')"
  shows "take n buf = take MTU d \<and> length buf = MTU \<and> n \<le> MTU \<and> a = addr
    \<and> ls_buf l' = replicate MTU 0"
  using assms by (auto simp: Listener_poll_def overwrite_def Let_def min_def)

section \<open>The channel never makes the sender panic\<close>

text \<open>
  The sender unwraps the bitmap a start message brings, and panics at a second one: the queue holds
  the start message first, and only as long as the sender has no bitmap.
\<close>

definition channel_ok :: "Conn \<Rightarrow> bool" where
  "channel_ok cn \<longleftrightarrow>
     (if sn_bitmap (cn_sender cn) then UploadStart \<notin> set (rc_tx (cn_receiver cn))
      else (\<exists>ms. rc_tx (cn_receiver cn) = UploadStart # ms \<and> UploadStart \<notin> set ms))"

definition adds_status :: "Receiver \<Rightarrow> Receiver \<Rightarrow> bool" where
  "adds_status r r' \<longleftrightarrow> (\<exists>ms. rc_tx r' = rc_tx r @ ms \<and> UploadStart \<notin> set ms)"

lemma adds_status_refl: "rc_tx r' = rc_tx r \<Longrightarrow> adds_status r r'"
  by (simp add: adds_status_def)

lemma adds_status_one: "rc_tx r' = rc_tx r @ [UploadStatus] \<Longrightarrow> adds_status r r'"
  by (simp add: adds_status_def)

lemma adds_status_trans [trans]: "adds_status r r1 \<Longrightarrow> adds_status r1 r2 \<Longrightarrow> adds_status r r2"
  by (auto simp: adds_status_def)

lemma poll_congestion_adds: "poll_congestion np e r = Inr r1 \<Longrightarrow> adds_status r r1"
  unfolding poll_congestion_def Let_def
  by (cases "CongestionInfo_poll np (re_now e) (re_delay e) (rc_congestion r)" rule: async_res_cases)
    (simp_all only: bindE_Inr bindE_Inl prod.case async.case option.case unit.case sum.inject sum.distinct,
      auto simp: adds_status_def)

lemma chunk_written_adds: "chunk_written w f r = Inr r1 \<Longrightarrow> adds_status r r1"
  by (auto simp: chunk_written_def bindE_eq_Inr Let_def adds_status_def)

lemma poll_writing_adds:
  assumes "poll_writing e r = Inr (a, r1)"
  shows "adds_status r r1"
proof (cases "rc_state r")
  case (WritingChunk w)
  then show ?thesis
    using assms chunk_written_adds [of w _ _ r1]
    by (auto simp: poll_writing_def bindE_eq_Inr Let_def adds_status_def
        split: if_splits write_poll.splits prod.splits) fastforce+
qed (use assms in \<open>auto simp: poll_writing_def adds_status_refl\<close>)

lemma poll_recv_state_adds:
  assumes "poll_recv_state np e r = Inr (a, r1)"
  shows "adds_status r r1"
  using assms
  by (auto simp: poll_recv_state_def bindE_eq_Inr Receiver_ack_def Receiver_chunk_def got_fin_def Let_def
      split: ReceiverState.splits recv_poll.splits if_splits intro!: adds_status_refl)

lemma Receiver_poll_adds:
  assumes "Receiver_poll np e r = Inr (a, r')"
  shows "adds_status r r'"
  using assms
proof (cases rule: Receiver_poll_elim)
  case (writing r1)
  have "adds_status r r1" using writing(1) by (rule poll_congestion_adds)
  also have "adds_status r1 r'" using writing(2) by (rule poll_writing_adds)
  finally show ?thesis .
next
  case (receiving r1 r2)
  have "adds_status r r1" using receiving(1) by (rule poll_congestion_adds)
  also have "adds_status r1 r2" using receiving(2) by (rule poll_writing_adds)
  also have "adds_status r2 r'" using receiving(3) by (rule poll_recv_state_adds)
  finally show ?thesis .
qed

lemma conn_receive_poll:
  assumes "conn_receive np e ivs cn = Inr cn'"
  shows "\<exists>a. Receiver_poll np e (cn_receiver cn) = Inr (a, cn_receiver cn')
    \<and> cn_sender cn' = cn_sender cn \<and> cn_out cn' = cn_out cn"
  using assms by (auto simp: conn_receive_def bindE_eq_Inr Let_def case_prod_beta)

lemma channel_ok_receive:
  assumes "channel_ok cn" and "conn_receive np e ivs cn = Inr cn'"
  shows "channel_ok cn'"
proof -
  have "adds_status (cn_receiver cn) (cn_receiver cn')" and s: "cn_sender cn' = cn_sender cn"
    using conn_receive_poll [OF assms(2)] Receiver_poll_adds by blast+
  then obtain ms where "rc_tx (cn_receiver cn') = rc_tx (cn_receiver cn) @ ms" "UploadStart \<notin> set ms"
    by (auto simp: adds_status_def)
  then show ?thesis using assms(1) s by (auto simp: channel_ok_def split: if_splits)
qed

lemma Sender_poll_complete_frame:
  assumes "Sender_poll_complete sp s = Inr (a, s')"
  shows "sn_vec s' = sn_vec s \<and> sn_bitmap s' = sn_bitmap s \<and> (sn_state s' = Sending \<longrightarrow> sn_state s = Sending)"
  using assms by (auto simp: Sender_poll_complete_def split: if_splits send_poll.splits)

lemma Sender_start_send_elim:
  assumes "Sender_start_send V m sp item s = Inr (res, s')"
  obtains (busy) "res = SinkNotReady item" "sn_bitmap s' = sn_bitmap s" "sn_vec s' = sn_vec s"
      "sn_state s = Sending"
    | (start) "res = SinkReady" "item = UploadStart" "\<not> sn_bitmap s" "sn_bitmap s'"
      "sn_vec s' = sn_vec s" "sn_state s' = Sending \<longrightarrow> sn_state s = Sending"
    | (status) vec where "res = SinkReady" "item = UploadStatus" "sn_bitmap s" "sn_bitmap s'"
      "status_packet V m vec = Inr (sn_vec s')" "sn_state s' = Sending"
proof -
  obtain a s1 where a: "(if sn_state s = Sending then Sender_poll_complete sp s else Inr (Ready (), s)) = Inr (a, s1)"
    and rest: "(case a of NotReady \<Rightarrow> Inr (SinkNotReady item, s1)
     | Ready _ \<Rightarrow>
         (case item of
            UploadStart \<Rightarrow>
              if sn_bitmap s1 then Inl (Panic ExplicitPanic)
              else Inr (SinkReady, s1\<lparr>sn_bitmap := True\<rparr>)
          | UploadStatus \<Rightarrow>
              if \<not> sn_bitmap s1 then Inl (Panic UnwrapNone)
              else bindE (status_packet V m (sn_vec s1)) (\<lambda>v.
                Inr (SinkReady, s1\<lparr>sn_vec := v, sn_state := Sending\<rparr>)))) = Inr (res, s')"
    using assms unfolding Sender_start_send_def bindE_eq_Inr by auto
  have s1: "sn_vec s1 = sn_vec s" "sn_bitmap s1 = sn_bitmap s"
    "sn_state s1 = Sending \<longrightarrow> sn_state s = Sending" "a = NotReady \<longrightarrow> sn_state s = Sending"
    using a Sender_poll_complete_frame [of sp s a s1] by (auto split: if_splits)
  show thesis
  proof (cases a)
    case NotReady
    then show thesis using rest s1 by (intro busy) auto
  next
    case (Ready u)
    then show thesis
      using rest s1 start status by (cases item) (auto simp: bindE_eq_Inr split: if_splits)
  qed
qed

lemma conn_forward_elim:
  assumes "conn_forward V sp ivs cn = Inr cn'"
  obtains (idle) "rc_tx (cn_receiver cn) = []" "cn_receiver cn' = cn_receiver cn"
      "cn_sender cn' = cn_sender cn" "cn_out cn' = cn_out cn"
    | (item) it rest res s where "rc_tx (cn_receiver cn) = it # rest"
      "Sender_start_send V (rc_bitmap (cn_receiver cn)) sp it (cn_sender cn) = Inr (res, s)"
      "cn_receiver cn' = (cn_receiver cn)\<lparr>rc_tx := (case res of SinkReady \<Rightarrow> rest | SinkNotReady it' \<Rightarrow> it' # rest)\<rparr>"
      "cn_sender cn' = s" "cn_out cn' = cn_out cn @ sent_by sp (cn_sender cn)"
proof (cases "rc_tx (cn_receiver cn)")
  case Nil
  with assms show thesis
    by (intro idle) (auto simp: conn_forward_def bindE_eq_Inr Let_def case_prod_beta)
next
  case (Cons it rest)
  with assms show thesis
    by (auto simp: conn_forward_def bindE_eq_Inr Let_def case_prod_beta intro: item)
qed

lemma channel_ok_forward:
  assumes "channel_ok cn" and "conn_forward V sp ivs cn = Inr cn'"
  shows "channel_ok cn'"
  using assms(2)
proof (cases rule: conn_forward_elim)
  case idle
  then show ?thesis using assms(1) by (auto simp: channel_ok_def split: if_splits)
next
  case (item it rest res s)
  from item(2) show ?thesis
    by (cases rule: Sender_start_send_elim)
      (use assms(1) item in \<open>auto simp: channel_ok_def split: if_splits\<close>)
qed

lemma channel_ok_flush:
  assumes "channel_ok cn" and "conn_flush sp cn = Inr cn'"
  shows "channel_ok cn'"
  using assms Sender_poll_complete_frame
  by (fastforce simp: conn_flush_def bindE_eq_Inr channel_ok_def split: if_splits)

lemma channel_ok_step: "conn_step V np net cn cn' \<Longrightarrow> channel_ok cn \<Longrightarrow> channel_ok cn'"
  by (elim conn_stepE) (auto intro: channel_ok_receive channel_ok_forward channel_ok_flush)

context varint_codec
begin

lemma Sender_start_send_no_panic:
  assumes "bm_ok m" and "bm_num_bits m < 2 ^ 60"
    and "item = UploadStart \<longleftrightarrow> \<not> sn_bitmap s"
  shows "\<not> is_panic (Sender_start_send V m sp item s)"
proof -
  obtain pkt where "status_packet V m (sn_vec s) = Inr pkt"
    using status_packet_exact [OF assms(1,2)] by blast
  with assms(3) show ?thesis
    by (cases item; cases sp; cases "sn_state s")
      (auto simp: Sender_start_send_def Sender_poll_complete_def is_panic_def)
qed

end

section \<open>Properties\<close>

text \<open>C26: the channel between the two halves of a connection. In every step of a connection the start
  message, if it is still queued, is the first, and the sender has no bitmap exactly as long as it is;
  so sending the next message never panics, although the code unwraps the bitmap and panics on a
  second one.\<close>

theorem sender_never_panics:
  assumes "varint_codec V" and "channel_ok cn" and "bm_ok (rc_bitmap (cn_receiver cn))"
    and "bm_num_bits (rc_bitmap (cn_receiver cn)) < 2 ^ 60" and "rc_tx (cn_receiver cn) \<noteq> []"
  shows "\<not> is_panic (conn_forward V sp ivs cn) \<and> (\<forall>cn'. conn_step V np net cn cn' \<longrightarrow> channel_ok cn')"
proof
  obtain item rest where tx: "rc_tx (cn_receiver cn) = item # rest" using assms(5) by (cases "rc_tx (cn_receiver cn)") auto
  then have "item = UploadStart \<longleftrightarrow> \<not> sn_bitmap (cn_sender cn)"
    using assms(2) by (auto simp: channel_ok_def split: if_splits)
  then have "\<not> is_panic (Sender_start_send V (rc_bitmap (cn_receiver cn)) sp item (cn_sender cn))"
    using varint_codec.Sender_start_send_no_panic [OF assms(1,3,4)] by blast
  then show "\<not> is_panic (conn_forward V sp ivs cn)"
    using tx by (auto simp: conn_forward_def TimeoutStream_poll_def stream_ends_def is_panic_def bindE_def Let_def
        split: sum.splits error.splits)
  show "\<forall>cn'. conn_step V np net cn cn' \<longrightarrow> channel_ok cn'" using assms(2) channel_ok_step by blast
qed

definition demo_conn :: Conn where
  "demo_conn = \<lparr>cn_receiver = \<lparr>rc_state = Shutdown [], rc_tx = [UploadStart, UploadStatus], rc_folder = (False, []),
       rc_congestion = CongestionInfo_new 0, rc_bitmap = \<lparr>bm_buf = [0], bm_num_bits = 1, bm_zeroes = 1\<rparr>,
       rc_fs = (\<lambda>_. None)\<rparr>,
     cn_sender = Sender_new, cn_recv_timeout = TimeoutStream_new, cn_send_timeout = TimeoutStream_new,
     cn_out = [], cn_ended = False\<rparr>"

theorem sender_never_panics_witness:
  "channel_ok demo_conn \<and> \<not> is_panic (conn_forward leb_api SendNotReady (\<lambda>_. IvNotReady) demo_conn)"
proof -
  have ok: "channel_ok demo_conn" by (simp add: demo_conn_def channel_ok_def Sender_new_def)
  have "bm_ok (rc_bitmap (cn_receiver demo_conn))"
    by (simp add: demo_conn_def bm_ok_def bm_fits_def bits_def bit_at_def)
  from sender_never_panics [OF leb_varint_codec ok this, of SendNotReady "\<lambda>_. IvNotReady"] ok show ?thesis
    by (simp add: demo_conn_def)
qed

text \<open>The listener hands out each datagram with its size and address, never bytes of an earlier one:
  the first bytes of the buffer are the datagram, cut at one segment, and the buffer kept for the next
  is all zero.\<close>

theorem listener_datagram:
  assumes "length (ls_buf l) = MTU"
  shows "\<exists>buf n l'. Listener_poll (Some (d, addr)) l = (Ready (buf, n, addr), l')
    \<and> take n buf = take MTU d \<and> length buf = MTU \<and> n \<le> MTU \<and> ls_buf l' = replicate MTU 0"
proof -
  obtain buf n l' where "Listener_poll (Some (d, addr)) l = (Ready (buf, n, addr), l')"
    by (simp add: Listener_poll_def Let_def)
  with Listener_poll_datagram [OF assms this] show ?thesis by blast
qed

theorem listener_datagram_witness:
  "\<exists>buf n l'. Listener_poll (Some ([4, 5], ())) Listener_new = (Ready (buf, n, ()), l') \<and> take n buf = [4, 5]"
proof -
  have "length (ls_buf Listener_new) = MTU" by (simp add: Listener_new_def)
  from listener_datagram [OF this, of "[4, 5]" "()"] show ?thesis by (auto simp: MTU_def)
qed

end
