(* ===== verification/Receiver_Safety.thy ===== *)
theory Receiver_Safety
  imports Receiver Packets
begin

text \<open>
  What the version 1 receiver guarantees about the file on disk. The invariant \<open>recv_inv\<close> says
  that every chunk marked in the bitmap is on disk with the bytes of the source file, and that a
  chunk being written is at the right place; every poll that is fed packets of that source, in any
  order and any number of times, keeps it, so a full bitmap means the file is the source. Opening a
  new upload establishes it.
\<close>

section \<open>The invariant\<close>

definition genuine_env :: "ChunkInfo \<Rightarrow> u8 list \<Rightarrow> recv_env \<Rightarrow> bool" where
  "genuine_env ci src e \<longleftrightarrow> (\<forall>d. re_recv e = RecvData d \<longrightarrow> genuine ci src d)"

definition stored :: "ChunkInfo \<Rightarrow> u8 list \<Rightarrow> u8 list list \<Rightarrow> BitMap \<Rightarrow> fs \<Rightarrow> bool" where
  "stored ci src fp m fs \<longleftrightarrow>
     bm_ok m \<and> bm_num_bits m = ci_num_chunks ci
     \<and> (\<exists>c. fs fp = Some c \<and> length c = length src
          \<and> (\<forall>i < ci_num_chunks ci. bit_at m i \<longrightarrow> chunk_data ci c i = chunk_data ci src i))"

definition handle_ok :: "u8 list list \<Rightarrow> File \<Rightarrow> bool" where
  "handle_ok fp f \<longleftrightarrow> fl_path f = fp \<and> \<not> fl_append f"

definition writing_ok ::
    "ChunkInfo \<Rightarrow> u8 list \<Rightarrow> u8 list list \<Rightarrow> BitMap \<Rightarrow> fs \<Rightarrow> writing_chunk \<Rightarrow> bool" where
  "writing_ok ci src fp m fs w \<longleftrightarrow>
     (let i = ch_index (wc_chunk w); d = chunk_data ci src i in
      i < ci_num_chunks ci \<and> \<not> bit_at m i
      \<and> ch_buf (wc_chunk w) = data_packet ci src i
      \<and> ch_index_field_size (wc_chunk w) = ci_index_field_size ci
      \<and> wc_written w \<le> length d
      \<and> fl_pos (wc_file w) = i * ci_chunk_size ci + wc_written w
      \<and> (\<exists>c. fs fp = Some c \<and> take (wc_written w) (chunk_data ci c i) = take (wc_written w) d))"

fun state_ok ::
    "ChunkInfo \<Rightarrow> u8 list \<Rightarrow> u8 list list \<Rightarrow> u8 list list \<Rightarrow> BitMap \<Rightarrow> fs \<Rightarrow> ReceiverState \<Rightarrow> bool" where
  "state_ok ci src fp bp m fs (WaitForChunk st) =
     (handle_ok fp (wf_file st) \<and> wf_bitmap_path st = bp \<and> wf_chunk_info st = ci)"
| "state_ok ci src fp bp m fs (WritingChunk w) =
     (handle_ok fp (wc_file w) \<and> wc_bitmap_path w = bp \<and> wc_chunk_info w = ci
      \<and> writing_ok ci src fp m fs w)"
| "state_ok ci src fp bp m fs (Shutdown buf) = True"
| "state_ok ci src fp bp m fs _ = False"

definition recv_inv ::
    "ChunkInfo \<Rightarrow> u8 list \<Rightarrow> u8 list list \<Rightarrow> u8 list list \<Rightarrow> Receiver \<Rightarrow> bool" where
  "recv_inv ci src fp bp r \<longleftrightarrow>
     stored ci src fp (rc_bitmap r) (rc_fs r)
     \<and> state_ok ci src fp bp (rc_bitmap r) (rc_fs r) (rc_state r)"

text \<open>The fixed data of an upload: the geometry of a 64-bit length, two different paths.\<close>

definition upload_ok :: "ChunkInfo \<Rightarrow> u8 list \<Rightarrow> u8 list list \<Rightarrow> u8 list list \<Rightarrow> bool" where
  "upload_ok ci src fp bp \<longleftrightarrow> geometry (length src) ci \<and> length src < 2 ^ 63 \<and> fp \<noteq> bp"

section \<open>Chunks of a byte sequence\<close>

lemma upload_ok_size: "upload_ok ci src fp bp \<Longrightarrow> 0 < ci_chunk_size ci"
  using geometry_chunk_size [of "length src" ci] by (simp add: upload_ok_def)

lemma upload_ok_geometry: "upload_ok ci src fp bp \<Longrightarrow> geometry (length src) ci"
  by (simp add: upload_ok_def)

lemmas upload_okD = geometryD [OF upload_ok_geometry]

lemma chunk_data_all:
  assumes "upload_ok ci src fp bp" and "length c = length src"
    and "\<And>i. i < ci_num_chunks ci \<Longrightarrow> chunk_data ci c i = chunk_data ci src i"
  shows "c = src"
proof (rule chunk_of_all)
  show "0 < ci_chunk_size ci" using assms(1) by (rule upload_ok_size)
  show "chunk_of (ci_chunk_size ci) c i = chunk_of (ci_chunk_size ci) src i"
    if "i * ci_chunk_size ci < length src" for i
    using that assms(3) [of i] geometry_num_chunks [OF upload_ok_geometry [OF assms(1)], of i]
    by (simp add: chunk_data_def)
qed (rule assms(2))

section \<open>Reading genuine packets\<close>

lemma recv_buf_id: "length d \<le> MTU \<Longrightarrow> recv_buf buf d = d"
  by (simp add: recv_buf_def vec_truncate_def overwrite_def Let_def)

lemma length_genuine:
  assumes "upload_ok ci src fp bp" and "genuine ci src d"
  shows "length d \<le> MTU"
proof -
  have "ci_index_field_size ci \<le> 7" and cs: "ci_chunk_size ci = MTU - ci_index_field_size ci"
    by (rule upload_okD [OF assms(1)])+
  moreover have "length d \<le> ci_index_field_size ci + ci_chunk_size ci"
    using assms(2) by (auto simp: genuine_def fin_packet_def data_packet_def length_chunk_data)
  ultimately show ?thesis by (simp add: MTU_def)
qed

lemma decode_header:
  assumes "upload_ok ci src fp bp" and "i \<le> ci_num_chunks ci"
  shows "Chunk_decode (le_bytes (ci_index_field_size ci) i @ ds) (ci_index_field_size ci)
    = Inr \<lparr>ch_index_field_size = ci_index_field_size ci, ch_index = i,
           ch_buf = le_bytes (ci_index_field_size ci) i @ ds\<rparr>"
proof -
  have "i < 256 ^ ci_index_field_size ci" and "ci_index_field_size ci \<le> 8"
    using assms(2) upload_okD(2,5) [OF assms(1)] by linarith+
  then show ?thesis by (simp add: Chunk_decode_eq le_value_le_bytes)
qed

lemma num_chunks_small:
  assumes "upload_ok ci src fp bp"
  shows "ci_num_chunks ci < 2 ^ 56"
proof -
  have "ci_num_chunks ci < 256 ^ ci_index_field_size ci"
    by (rule upload_okD [OF assms])
  also have "(256::nat) ^ ci_index_field_size ci \<le> 256 ^ 7"
    by (intro power_increasing upload_okD [OF assms]) simp
  finally show ?thesis by simp
qed

section \<open>Every poll keeps the invariant\<close>

lemma poll_congestion_frame:
  "poll_congestion np e r = Inr r1 \<Longrightarrow>
   rc_bitmap r1 = rc_bitmap r \<and> rc_fs r1 = rc_fs r \<and> rc_state r1 = rc_state r"
  unfolding poll_congestion_def Let_def
  by (cases "CongestionInfo_poll np (re_now e) (re_delay e) (rc_congestion r)" rule: async_res_cases)
    (simp_all only: bindE_Inr bindE_Inl prod.case async.case option.case unit.case sum.inject sum.distinct,
      auto)

lemma recv_inv_frame:
  "rc_bitmap r1 = rc_bitmap r \<and> rc_fs r1 = rc_fs r \<and> rc_state r1 = rc_state r \<Longrightarrow>
   recv_inv ci src fp bp r1 = recv_inv ci src fp bp r"
  by (simp add: recv_inv_def)

lemma stored_mark:
  assumes "stored ci src fp m fs" and "i < ci_num_chunks ci"
    and "BitMap_set m i True = Inr (old, m')"
    and "fs fp = Some c" and "chunk_data ci c i = chunk_data ci src i"
  shows "stored ci src fp m' fs"
proof -
  have ok: "bm_ok m" and nb: "bm_num_bits m = ci_num_chunks ci"
    using assms(1) by (auto simp: stored_def)
  have m': "bm_ok m'" "bits m' = (bits m)[i := True]"
    using bm.upd_ok [OF ok _ assms(3)] assms(2) nb by auto
  then have nb': "bm_num_bits m' = ci_num_chunks ci"
    using nb by (metis length_bits length_list_update)
  have "bit_at m' j \<longleftrightarrow> j = i \<or> bit_at m j" if "j < ci_num_chunks ci" for j
  proof -
    have "bits m' ! j = (if j = i then True else bits m ! j)"
      using that nb unfolding m'(2) by (simp add: nth_list_update)
    then show ?thesis using that nb nb' nth_bits [of j m'] nth_bits [of j m] by (simp split: if_splits)
  qed
  then show ?thesis
    using assms(1,4,5) m'(1) nb' by (auto simp: stored_def)
qed

lemma stored_sync: "fp \<noteq> bp \<Longrightarrow> stored ci src fp m (sync_bitmap bp m' fs) = stored ci src fp m fs"
  by (simp add: stored_def sync_bitmap_def split: option.split)

lemma chunk_written_inv:
  assumes "chunk_written w f r = Inr r'" and "fp \<noteq> bp"
    and "stored ci src fp (rc_bitmap r) (rc_fs r)" and "handle_ok fp f"
    and "wc_bitmap_path w = bp" and "wc_chunk_info w = ci"
    and "ch_index (wc_chunk w) < ci_num_chunks ci" and "rc_fs r fp = Some c"
    and "chunk_data ci c (ch_index (wc_chunk w)) = chunk_data ci src (ch_index (wc_chunk w))"
  shows "recv_inv ci src fp bp r'"
proof -
  obtain old m' where set: "BitMap_set (rc_bitmap r) (ch_index (wc_chunk w)) True = Inr (old, m')"
    and r': "rc_bitmap r' = m'" "rc_fs r' = sync_bitmap bp m' (rc_fs r)"
      "rc_state r' = WaitForChunk \<lparr>wf_file = f, wf_bitmap_path = bp,
                  wf_buf = ch_buf (wc_chunk w), wf_chunk_info = ci\<rparr>"
    using assms(1,5,6) by (auto simp: chunk_written_def outcome_simps Let_def)
  have "stored ci src fp m' (rc_fs r)"
    using assms(3,7) set assms(8,9) by (rule stored_mark)
  then show ?thesis
    using r' assms(2,4) by (simp add: recv_inv_def stored_sync)
qed

lemma stored_write:
  assumes "stored ci src fp m fs" and "fs fp = Some c" and "\<not> bit_at m i"
    and "w + length ds \<le> length (chunk_data ci c i)"
    and "fs' fp = Some (overwrite c (i * ci_chunk_size ci + w) ds)"
  shows "stored ci src fp m fs'"
proof -
  let ?c = "overwrite c (i * ci_chunk_size ci + w) ds"
  have "length ?c = length c"
  proof (cases "ds = []")
    case True
    then show ?thesis by (simp add: overwrite_def)
  next
    case False
    then show ?thesis using write_inside_chunk [OF assms(4)] by simp
  qed
  moreover have "chunk_data ci ?c j = chunk_data ci src j"
    if "j < ci_num_chunks ci" "bit_at m j" for j
    using chunk_data_overwrite_other [OF assms(4), of j] that assms(1,2,3) by (auto simp: stored_def)
  ultimately show ?thesis using assms(1,2,5) by (auto simp: stored_def)
qed

text \<open>Writing the next bytes of a chunk moves the written prefix forward.\<close>

lemma writing_advance:
  assumes st: "stored ci src fp m fs" and h: "handle_ok fp (wc_file w)"
    and wo: "writing_ok ci src fp m fs w"
    and ds: "ds = take n (drop (wc_written w) (chunk_data ci src (ch_index (wc_chunk w))))"
    and fw: "file_write fs (wc_file w) ds = (fs', f')"
  shows "stored ci src fp m fs'" and "handle_ok fp f'"
    and "writing_ok ci src fp m fs' (w\<lparr>wc_file := f', wc_written := wc_written w + length ds\<rparr>)"
proof -
  define i d where "i = ch_index (wc_chunk w)" and "d = chunk_data ci src i"
  obtain c where nb: "\<not> bit_at m i" and wd: "wc_written w \<le> length d"
    and pos: "fl_pos (wc_file w) = i * ci_chunk_size ci + wc_written w"
    and c: "fs fp = Some c" "take (wc_written w) (chunk_data ci c i) = take (wc_written w) d"
    using wo by (auto simp: writing_ok_def Let_def i_def d_def)
  let ?c = "overwrite c (i * ci_chunk_size ci + wc_written w) ds"
  have ds': "ds = take n (drop (wc_written w) d)" using ds by (simp add: i_def d_def)
  have "length (chunk_data ci c i) = length d"
    using st c by (auto simp: stored_def d_def length_chunk_data)
  then have wle: "wc_written w + length ds \<le> length (chunk_data ci c i)"
    using wd by (simp add: ds')
  have fs': "fs' fp = Some ?c"
  proof (cases "ds = []")
    case True
    then show ?thesis using c fw by (auto simp: file_write_def overwrite_def)
  next
    case False
    then show ?thesis
      using file_write_inside [of "wc_file w" fs c ds] write_inside_chunk [OF wle] h c pos fw
      by (simp add: handle_ok_def)
  qed
  show "stored ci src fp m fs'"
    using st c(1) nb wle fs' by (rule stored_write)
  show h': "handle_ok fp f'"
    using h file_write_handle [of fs "wc_file w" ds] fw by (simp add: handle_ok_def)
  have pos': "fl_pos f' = i * ci_chunk_size ci + (wc_written w + length ds)"
    using h pos file_write_pos [of "wc_file w" fs ds] fw by (simp add: handle_ok_def)
  have "wc_written w + length ds \<le> length d" using wd by (simp add: ds')
  moreover have "take (wc_written w + length ds) (chunk_data ci ?c i)
      = take (wc_written w + length ds) d"
    using chunk_data_overwrite_prefix [OF wle] c(2) by (simp add: ds' take_add min_def)
  ultimately show "writing_ok ci src fp m fs' (w\<lparr>wc_file := f', wc_written := wc_written w + length ds\<rparr>)"
    using wo pos' fs' by (simp add: writing_ok_def Let_def i_def d_def)
qed

text \<open>When the whole chunk is out, it is on disk.\<close>

lemma writing_complete:
  assumes "stored ci src fp m fs" and "writing_ok ci src fp m fs w"
    and "length (chunk_data ci src (ch_index (wc_chunk w))) \<le> wc_written w"
  shows "\<exists>c. fs fp = Some c
    \<and> chunk_data ci c (ch_index (wc_chunk w)) = chunk_data ci src (ch_index (wc_chunk w))"
  using assms by (auto simp: stored_def writing_ok_def Let_def length_chunk_data)

lemma chunk_written_done:
  assumes "upload_ok ci src fp bp" and "chunk_written w f r = Inr r'"
    and "stored ci src fp (rc_bitmap r) (rc_fs r)" and "handle_ok fp f"
    and "wc_bitmap_path w = bp" and "wc_chunk_info w = ci"
    and "writing_ok ci src fp (rc_bitmap r) (rc_fs r) (w\<lparr>wc_file := f, wc_written := k\<rparr>)"
    and "length (chunk_data ci src (ch_index (wc_chunk w))) \<le> k"
  shows "recv_inv ci src fp bp r' \<and> (\<exists>st. rc_state r' = WaitForChunk st)"
proof -
  obtain c where c: "rc_fs r fp = Some c"
    "chunk_data ci c (ch_index (wc_chunk w)) = chunk_data ci src (ch_index (wc_chunk w))"
    using writing_complete [OF assms(3,7)] assms(8) by auto
  have "ch_index (wc_chunk w) < ci_num_chunks ci"
    using assms(7) by (simp add: writing_ok_def Let_def)
  then have "recv_inv ci src fp bp r'"
    using assms c by (intro chunk_written_inv [where c = c and w = w and f = f and r = r])
      (simp_all add: upload_ok_def)
  moreover have "\<exists>st. rc_state r' = WaitForChunk st"
    using assms(2) by (auto simp: chunk_written_def outcome_simps Let_def)
  ultimately show ?thesis by simp
qed

lemma poll_writing_inv:
  assumes up: "upload_ok ci src fp bp" and inv: "recv_inv ci src fp bp r"
    and poll: "poll_writing e r = Inr (a, r')"
  shows "recv_inv ci src fp bp r' \<and> (a = Ready () \<longrightarrow> (\<forall>w. rc_state r' \<noteq> WritingChunk w))"
proof (cases "rc_state r")
  case (WritingChunk w)
  let ?d = "chunk_data ci src (ch_index (wc_chunk w))"
  have st: "stored ci src fp (rc_bitmap r) (rc_fs r)" and h: "handle_ok fp (wc_file w)"
    and bp: "wc_bitmap_path w = bp" and ci: "wc_chunk_info w = ci"
    and wo: "writing_ok ci src fp (rc_bitmap r) (rc_fs r) w"
    using inv WritingChunk by (auto simp: recv_inv_def)
  have data: "Chunk_as_ref (wc_chunk w) = Inr ?d"
    using wo by (auto simp: writing_ok_def Let_def Chunk_as_ref_def data_packet_def)
  show ?thesis
  proof (cases "drop (wc_written w) ?d = []")
    case True
    then have "chunk_written w (wc_file w) r = Inr r'"
      using poll WritingChunk data by (auto simp: poll_writing_def outcome_simps Let_def)
    from chunk_written_done [OF up this st h bp ci, of "wc_written w"] show ?thesis
      using wo True by auto
  next
    case False
    obtain n where n: "re_write e = WBytes n"
      using poll WritingChunk data False
      by (cases "re_write e") (auto simp: poll_writing_def Let_def)
    define ds where "ds = take n (drop (wc_written w) ?d)"
    obtain fs' f' where fw: "file_write (rc_fs r) (wc_file w) ds = (fs', f')"
      by (cases "file_write (rc_fs r) (wc_file w) ds")
    note adv = writing_advance [OF st h wo ds_def fw]
    let ?w = "w\<lparr>wc_file := f', wc_written := wc_written w + length ds\<rparr>"
    show ?thesis
    proof (cases "length (drop (wc_written w) ?d) \<le> n")
      case True
      then have "chunk_written w f' (r\<lparr>rc_fs := fs'\<rparr>) = Inr r'"
        using poll WritingChunk data False n fw
        by (auto simp: poll_writing_def outcome_simps Let_def ds_def)
      moreover have "length ?d \<le> wc_written w + length ds"
        using True by (simp add: ds_def)
      ultimately have "recv_inv ci src fp bp r' \<and> (\<exists>st. rc_state r' = WaitForChunk st)"
        using adv by (intro chunk_written_done [OF up _ _ adv(2) bp ci]) (assumption | simp)+
      then show ?thesis by auto
    next
      case le: False
      then have "a = NotReady" and "r' = r\<lparr>rc_fs := fs', rc_state := WritingChunk ?w\<rparr>"
        using poll WritingChunk data False n fw
        by (auto simp: poll_writing_def outcome_simps Let_def ds_def)
      then show ?thesis using adv bp ci by (simp add: recv_inv_def)
    qed
  qed
next
  case Invalid
  with inv show ?thesis by (simp add: recv_inv_def)
qed (use inv poll in \<open>auto simp: poll_writing_def\<close>)

lemma wrapping_index:
  assumes "upload_ok ci src fp bp" and "i \<le> ci_num_chunks ci"
  shows "wrapping_sub64 i (ci_num_chunks ci) = 0 \<longleftrightarrow> i = ci_num_chunks ci"
proof (rule wrapping_sub64_eq_0)
  show "ci_num_chunks ci < 2 ^ 64" using num_chunks_small [OF assms(1)] by simp
  then show "i < 2 ^ 64" using assms(2) by linarith
qed

lemma chunk_offset:
  assumes "upload_ok ci src fp bp" and "i < ci_num_chunks ci"
  shows "mul64 i (ci_chunk_size ci) = Inr (i * ci_chunk_size ci)"
proof -
  have "i * ci_chunk_size ci < length src"
    using assms geometry_num_chunks [OF upload_ok_geometry [OF assms(1)]] by simp
  then show ?thesis using assms(1) by (intro mul64_ok) (simp add: upload_ok_def)
qed

text \<open>A chunk of the source is skipped when it is marked, and is about to be written otherwise.\<close>

lemma Receiver_chunk_inv:
  assumes up: "upload_ok ci src fp bp" and inv: "recv_inv ci src fp bp r"
    and st: "rc_state r = WaitForChunk st" and i: "i < ci_num_chunks ci"
    and run: "Receiver_chunk np now \<lparr>ch_index_field_size = ci_index_field_size ci, ch_index = i,
      ch_buf = data_packet ci src i\<rparr> st r = Inr r'"
  shows "recv_inv ci src fp bp r'"
proof -
  have stored: "stored ci src fp (rc_bitmap r) (rc_fs r)" and ok: "handle_ok fp (wf_file st)"
    "wf_bitmap_path st = bp" "wf_chunk_info st = ci"
    using inv st by (auto simp: recv_inv_def)
  then have get: "BitMap_get (rc_bitmap r) i = Inr (bit_at (rc_bitmap r) i)"
    using i by (auto simp: stored_def bm_ok_def intro!: BitMap_get_fits)
  obtain c where c: "rc_fs r fp = Some c" using stored by (auto simp: stored_def)
  show ?thesis
  proof (cases "bit_at (rc_bitmap r) i")
    case True
    then show ?thesis
      using run get stored ok by (auto simp: Receiver_chunk_def bindE_eq_Inr Let_def recv_inv_def)
  next
    case False
    then show ?thesis
      using run get chunk_offset [OF up i] stored ok c i
      by (auto simp: Receiver_chunk_def bindE_eq_Inr Let_def recv_inv_def handle_ok_def
          file_seek_def writing_ok_def)
  qed
qed

lemma got_fin_inv:
  assumes "upload_ok ci src fp bp" and "recv_inv ci src fp bp r" and "rc_state r = WaitForChunk st"
  shows "recv_inv ci src fp bp (got_fin chunk st r)"
  using assms
  by (auto simp: recv_inv_def got_fin_def Let_def stored_def fs_remove_def upload_ok_def)

lemma poll_recv_state_inv:
  assumes up: "upload_ok ci src fp bp" and inv: "recv_inv ci src fp bp r"
    and gen: "genuine_env ci src e" and poll: "poll_recv_state np e r = Inr (a, r')"
  shows "recv_inv ci src fp bp r'"
proof (cases "rc_state r")
  case (WaitForChunk st)
  have ci: "wf_chunk_info st = ci" using inv WaitForChunk by (simp add: recv_inv_def)
  show ?thesis
  proof (cases "re_recv e")
    case (RecvData d)
    then have d: "genuine ci src d" using gen by (simp add: genuine_env_def)
    then have "recv_buf (wf_buf st) d = d" by (intro recv_buf_id length_genuine [OF up])
    note step = poll [unfolded poll_recv_state_def WaitForChunk, simplified, unfolded RecvData,
        simplified, unfolded this ci]
    from d consider "d = fin_packet ci" | i where "i < ci_num_chunks ci" "d = data_packet ci src i"
      by (auto simp: genuine_def)
    then show ?thesis
    proof cases
      case 1
      then show ?thesis
        using step decode_header [OF up order_refl, of "[]"] wrapping_index [OF up order_refl]
          got_fin_inv [OF up inv WaitForChunk]
        by (auto simp: fin_packet_def)
    next
      case (2 i)
      then have "Receiver_chunk np (re_now e) \<lparr>ch_index_field_size = ci_index_field_size ci,
          ch_index = i, ch_buf = data_packet ci src i\<rparr> st r = Inr r'"
        using step decode_header [OF up, of i "chunk_data ci src i"] wrapping_index [OF up, of i]
        by (auto simp: data_packet_def bindE_eq_Inr)
      then show ?thesis by (rule Receiver_chunk_inv [OF up inv WaitForChunk 2(1)])
    qed
  qed (use poll inv WaitForChunk in \<open>auto simp: poll_recv_state_def recv_inv_def\<close>)
next
  case (Shutdown buf)
  then show ?thesis using inv poll
    by (auto simp: poll_recv_state_def recv_inv_def split: recv_poll.splits)
qed (use inv poll in \<open>auto simp: poll_recv_state_def recv_inv_def\<close>)

lemma Receiver_poll_inv:
  assumes "upload_ok ci src fp bp" and "recv_inv ci src fp bp r" and "genuine_env ci src e"
    and "Receiver_poll np e r = Inr (a, r')"
  shows "recv_inv ci src fp bp r'"
  using assms(4)
proof (cases rule: Receiver_poll_elim)
  case (writing r1)
  have "recv_inv ci src fp bp r1"
    using recv_inv_frame [OF poll_congestion_frame [OF writing(1)]] assms(2) by blast
  then show ?thesis using poll_writing_inv [OF assms(1) _ writing(2)] by simp
next
  case (receiving r1 r2)
  have "recv_inv ci src fp bp r1"
    using recv_inv_frame [OF poll_congestion_frame [OF receiving(1)]] assms(2) by blast
  then have "recv_inv ci src fp bp r2" using poll_writing_inv [OF assms(1) _ receiving(2)] by simp
  then show ?thesis by (rule poll_recv_state_inv [OF assms(1) _ assms(3) receiving(3)])
qed

text \<open>With every bit set, the file on disk is the source.\<close>

lemma stored_complete:
  assumes "upload_ok ci src fp bp" and "stored ci src fp m fs" and "BitMap_all m"
  shows "fs fp = Some src"
proof -
  obtain c where c: "fs fp = Some c" "length c = length src"
    and eq: "\<And>i. i < ci_num_chunks ci \<Longrightarrow> bit_at m i \<Longrightarrow> chunk_data ci c i = chunk_data ci src i"
    and ok: "bm_ok m" and n: "bm_num_bits m = ci_num_chunks ci"
    using assms(2) by (auto simp: stored_def)
  have "bit_at m i" if "i < ci_num_chunks ci" for i
    using bm.full_view [OF ok] assms(3) nth_mem [of i "bits m"] nth_bits [of i m] that n by auto
  then have "c = src" using assms(1) c(2) eq by (intro chunk_data_all [of ci src fp bp c]) auto
  then show ?thesis using c(1) by simp
qed

section \<open>Opening an upload\<close>

lemma Path_new_name:
  "Path_new (str_bytes ''file'') = (False, [str_bytes ''file''])"
  "Path_new (str_bytes ''bitmap'') = (False, [str_bytes ''bitmap''])"
  by (simp_all add: Path_new_def str_bytes_def slash_def dot_def of_char_of)

lemma upload_entry_distinct:
  "upload_entry h folder p ''file'' \<noteq> upload_entry h folder p ''bitmap''"
proof -
  have "str_bytes ''file'' \<noteq> [dot, dot]" "str_bytes ''bitmap'' \<noteq> [dot, dot]"
    "str_bytes ''file'' \<noteq> str_bytes ''bitmap''"
    by (simp_all add: str_bytes_def)
  then show ?thesis
    by (simp add: upload_entry_def resolve_path_def path_join_def has_root_def Path_new_name
        resolve_from_snoc)
qed

text \<open>A new upload starts with an empty bitmap and a file of the announced length.\<close>

lemma fresh_bitmap:
  assumes "n < 2 ^ 56"
  obtains m where "BitMap_with_length (replicate ((n + 7) div 8) 0) n = Inr m" and "bm_ok m"
    and "bm_num_bits m = n" and "bits m = replicate n False"
proof -
  let ?n = "(n + 7) div 8"
  have "n \<le> 8 * length (replicate ?n (0::u8))" "8 * length (replicate ?n (0::u8)) < 2 ^ 64"
    using assms unfolding length_replicate by simp_all
  then obtain m where m: "BitMap_with_length (replicate ?n 0) n = Inr m" "bm_ok m"
    "bm_buf m = replicate ?n 0" "bm_num_bits m = n"
    using BitMap_with_length_ok [of n "replicate ?n 0"] by blast
  moreover have "bits m = replicate n False"
    using bits_zero_buf [of m] m by (simp add: bm_ok_def)
  ultimately show thesis using that by blast
qed

lemma upload_request_fresh_eq:
  assumes len: "ur_length req = length src" "length src < 2 ^ 63"
    and ci: "index_field_size (length src) = Inr ci"
    and new: "rc_fs r (upload_entry h (rc_folder r) (ur_path req) ''bitmap'') = None"
    and m: "BitMap_with_length (replicate ((ci_num_chunks ci + 7) div 8) 0) (ci_num_chunks ci) = Inr m"
    and n: "ci_num_chunks ci < 2 ^ 56"
  shows "upload_request h req r =
    (let fp = upload_entry h (rc_folder r) (ur_path req) ''file'';
         bp = upload_entry h (rc_folder r) (ur_path req) ''bitmap'';
         k = (ci_num_chunks ci + 7) div 8
     in if h_open_ok h (resolve_path (h_cwd h) (upload_dir (rc_folder r) (ur_path req)))
          \<and> h_open_ok h bp \<and> h_open_ok h fp \<and> h_mmap_ok h k
        then Inr (r\<lparr>rc_fs := fs_set_len (fs_create ((rc_fs r)(bp \<mapsto> replicate k 0)) fp) fp (length src),
               rc_bitmap := m, rc_tx := rc_tx r @ [UploadStart],
               rc_state := WaitForChunk
                 \<lparr>wf_file = \<lparr>fl_path = fp, fl_pos = 0, fl_append = False\<rparr>, wf_bitmap_path = bp,
                  wf_buf = [], wf_chunk_info = ci\<rparr>\<rparr>)
        else Inl (Panic UnwrapErr))"
proof -
  let ?bp = "upload_entry h (rc_folder r) (ur_path req) ''bitmap''"
  let ?n = "(ci_num_chunks ci + 7) div 8"
  have fs2: "fs_set_len (fs_create (rc_fs r) ?bp) ?bp ?n = (rc_fs r)(?bp \<mapsto> replicate ?n 0)"
    using new by (simp add: fs_create_def fs_set_len_def vec_resize_def)
  have "ci_num_chunks ci + 7 < 2 ^ 64" using n by simp
  then show ?thesis
    using ci len new fs2 m by (simp add: upload_request_def Let_def)
qed

lemma upload_request_fresh:
  assumes len: "ur_length req = length src" "length src < 2 ^ 63"
    and new: "rc_fs r (upload_entry h (rc_folder r) (ur_path req) ''bitmap'') = None"
    and run: "upload_request h req r = Inr r'"
  obtains ci where "index_field_size (length src) = Inr ci"
    and "upload_ok ci src (upload_entry h (rc_folder r) (ur_path req) ''file'')
           (upload_entry h (rc_folder r) (ur_path req) ''bitmap'')"
    and "recv_inv ci src (upload_entry h (rc_folder r) (ur_path req) ''file'')
           (upload_entry h (rc_folder r) (ur_path req) ''bitmap'') r'"
    and "bits (rc_bitmap r') = replicate (ci_num_chunks ci) False"
    and "rc_tx r' = rc_tx r @ [UploadStart]"
proof -
  let ?fp = "upload_entry h (rc_folder r) (ur_path req) ''file''"
  let ?bp = "upload_entry h (rc_folder r) (ur_path req) ''bitmap''"
  obtain ci where ci: "index_field_size (length src) = Inr ci" and g: "geometry (length src) ci"
    using index_field_size_geometry [of "length src"] len(2) by auto
  have up: "upload_ok ci src ?fp ?bp"
    using g len(2) upload_entry_distinct by (simp add: upload_ok_def)
  note n = num_chunks_small [OF up]
  obtain m where m: "BitMap_with_length (replicate ((ci_num_chunks ci + 7) div 8) 0) (ci_num_chunks ci) = Inr m"
    "bm_ok m" "bm_num_bits m = ci_num_chunks ci" "bits m = replicate (ci_num_chunks ci) False"
    using fresh_bitmap [OF n] .
  then have clear: "\<not> bit_at m i" if "i < ci_num_chunks ci" for i
    using nth_bits [of i m] that by simp
  define fs3 where "fs3 = fs_set_len
    (fs_create ((rc_fs r)(?bp \<mapsto> replicate ((ci_num_chunks ci + 7) div 8) 0)) ?fp) ?fp (length src)"
  have r': "rc_bitmap r' = m" "rc_fs r' = fs3" "rc_tx r' = rc_tx r @ [UploadStart]"
    "rc_state r' = WaitForChunk \<lparr>wf_file = \<lparr>fl_path = ?fp, fl_pos = 0, fl_append = False\<rparr>,
       wf_bitmap_path = ?bp, wf_buf = [], wf_chunk_info = ci\<rparr>"
    using run unfolding upload_request_fresh_eq [OF len ci new m(1) n] fs3_def
    by (auto simp: Let_def split: if_splits)
  have "\<exists>c. fs3 ?fp = Some c \<and> length c = length src"
    unfolding fs3_def by (rule fs_created_len)
  then have "recv_inv ci src ?fp ?bp r'"
    using r' m clear by (auto simp: recv_inv_def stored_def handle_ok_def)
  then show thesis using that r'(1,3) ci up m(4) by blast
qed

end
