(* ===== verification/Receiver_Properties.thy ===== *)
theory Receiver_Properties
  imports Receiver_Safety
begin

text \<open>
  The properties of the version 1 receiver, on top of the invariant: single polls and runs of polls
  from a new upload on, what resuming an upload does, malformed datagrams, and where the files of an
  upload are kept.
\<close>

section \<open>Several polls\<close>

fun Receiver_polls :: "(nat \<Rightarrow> nat) \<Rightarrow> recv_env list \<Rightarrow> Receiver \<Rightarrow> Receiver res" where
  "Receiver_polls np [] r = Inr r"
| "Receiver_polls np (e # es) r = bindE (Receiver_poll np e r) (\<lambda>(_, r'). Receiver_polls np es r')"

lemma Receiver_polls_inv:
  assumes "upload_ok ci src fp bp" and "recv_inv ci src fp bp r" and "\<forall>e \<in> set es. genuine_env ci src e"
    and "Receiver_polls np es r = Inr r'"
  shows "recv_inv ci src fp bp r'"
  using assms(2-4)
proof (induction es arbitrary: r)
  case Nil
  then show ?case by simp
next
  case (Cons e es)
  then obtain a r1 where poll: "Receiver_poll np e r = Inr (a, r1)" "Receiver_polls np es r1 = Inr r'"
    by (auto simp: bindE_eq_Inr)
  have "genuine_env ci src e" using Cons.prems(2) by simp
  from Receiver_poll_inv [OF assms(1) Cons.prems(1) this poll(1)] have "recv_inv ci src fp bp r1" .
  then show ?case using Cons.IH Cons.prems(2) poll(2) by simp
qed

section \<open>Properties\<close>

text \<open>C6: every poll of the receiver, whatever the socket, the file and the timer answer, keeps the
  invariant that all chunks marked in the bitmap are on disk with the source's bytes and that a
  partly written chunk is at its place, as long as the datagrams are packets of that source, in any
  order and any number of times; with a full bitmap the file is the source.\<close>

theorem receiver_poll_invariant:
  assumes "upload_ok ci src fp bp" and "recv_inv ci src fp bp r" and "genuine_env ci src e"
    and "Receiver_poll np e r = Inr (a, r')"
  shows "recv_inv ci src fp bp r' \<and> (BitMap_all (rc_bitmap r') \<longrightarrow> rc_fs r' fp = Some src)"
proof -
  have "recv_inv ci src fp bp r'" using assms by (rule Receiver_poll_inv)
  then show ?thesis using stored_complete [OF assms(1)] by (auto simp: recv_inv_def)
qed

definition demo_ci :: ChunkInfo where
  "demo_ci = \<lparr>ci_index_field_size = 1, ci_chunk_size = 1459, ci_num_chunks = 1, ci_last_chunk_size = 3\<rparr>"

definition demo_host :: host where
  "demo_host = \<lparr>h_digest = (\<lambda>token. token), h_cwd = [[1]], h_open_ok = (\<lambda>_. True), h_mmap_ok = (\<lambda>n. 0 < n)\<rparr>"

definition demo_receiver :: Receiver where
  "demo_receiver = \<lparr>rc_state = WaitForChunk
     \<lparr>wf_file = \<lparr>fl_path = [[1]], fl_pos = 0, fl_append = False\<rparr>, wf_bitmap_path = [[2]], wf_buf = [],
      wf_chunk_info = demo_ci\<rparr>, rc_tx = [], rc_folder = (False, []), rc_congestion = CongestionInfo_new 0,
     rc_bitmap = \<lparr>bm_buf = [0], bm_num_bits = 1, bm_zeroes = 1\<rparr>, rc_fs = [[[1]] \<mapsto> [0, 0, 0], [[2]] \<mapsto> [0]]\<rparr>"

definition demo_arrival :: recv_env where
  "demo_arrival = \<lparr>re_now = 5, re_delay = DelayNotReady, re_write = WBytes 100, re_recv = RecvData [0, 1, 2, 3]\<rparr>"

definition demo_quiet :: recv_env where
  "demo_quiet = \<lparr>re_now = 6, re_delay = DelayNotReady, re_write = WBytes 100, re_recv = RecvNotReady\<rparr>"

lemma demo_upload_ok: "upload_ok demo_ci [1, 2, 3] [[1]] [[2]]"
  by (simp add: upload_ok_def geometry_def demo_ci_def MTU_def div_up_def)

lemma demo_packet: "data_packet demo_ci [1, 2, 3] 0 = [0, 1, 2, 3]"
  by (simp add: data_packet_def chunk_data_def chunk_of_def demo_ci_def)

lemma demo_inv: "recv_inv demo_ci [1, 2, 3] [[1]] [[2]] demo_receiver"
  by (simp add: recv_inv_def stored_def demo_receiver_def bm_ok_def bm_fits_def bits_def bit_at_def
      handle_ok_def demo_ci_def)

lemma demo_genuine: "genuine_env demo_ci [1, 2, 3] demo_arrival"
  using demo_packet by (auto simp: genuine_env_def genuine_def demo_arrival_def demo_ci_def)

lemma demo_poll:
  "\<exists>w. Receiver_poll np demo_arrival demo_receiver = Inr (Ready (Some ()), demo_receiver
     \<lparr>rc_congestion := (CongestionInfo_new 0)\<lparr>cg_last_ipt := Some 5\<rparr>, rc_state := WritingChunk w\<rparr>)
   \<and> wc_written w = 0 \<and> wc_chunk w = \<lparr>ch_index_field_size = 1, ch_index = 0, ch_buf = [0, 1, 2, 3]\<rparr>
   \<and> wc_file w = \<lparr>fl_path = [[1]], fl_pos = 0, fl_append = False\<rparr> \<and> wc_bitmap_path w = [[2]]"
proof -
  have buf: "recv_buf [] [0, 1, 2, 3] = [0, 1, 2, 3]" by (rule recv_buf_id) (simp add: MTU_def)
  show ?thesis
    by (simp add: Receiver_poll_def poll_congestion_def CongestionInfo_poll_def poll_writing_def
        poll_recv_state_def demo_arrival_def demo_receiver_def demo_ci_def CongestionInfo_new_def buf
        Chunk_decode_eq wrapping_sub64_def Receiver_chunk_def ipt_packet_def BitMap_get_def BitMap_check_def
        bitmask_def file_seek_def Let_def)
qed

theorem receiver_poll_invariant_witness:
  "\<exists>a r'. Receiver_poll (\<lambda>_. 0) demo_arrival demo_receiver = Inr (a, r') \<and> recv_inv demo_ci [1, 2, 3] [[1]] [[2]] r'"
proof -
  obtain a r' where run: "Receiver_poll (\<lambda>_. 0) demo_arrival demo_receiver = Inr (a, r')"
    using demo_poll by blast
  from receiver_poll_invariant [OF demo_upload_ok demo_inv demo_genuine run] run show ?thesis by blast
qed

text \<open>C10: from a new upload request on, after any number of polls on packets of the announced file, a
  full bitmap means that the server's file is the client's file, byte for byte.\<close>

theorem new_upload_complete:
  assumes "ur_length req = length src" and "length src < 2 ^ 63"
    and "rc_fs r (upload_entry h (rc_folder r) (ur_path req) ''bitmap'') = None"
    and "upload_request h req r = Inr r1" and "index_field_size (length src) = Inr ci"
    and "\<forall>e \<in> set es. genuine_env ci src e" and "Receiver_polls np es r1 = Inr r2"
    and "BitMap_all (rc_bitmap r2)"
  shows "rc_fs r2 (upload_entry h (rc_folder r) (ur_path req) ''file'') = Some src"
proof -
  let ?fp = "upload_entry h (rc_folder r) (ur_path req) ''file''"
  let ?bp = "upload_entry h (rc_folder r) (ur_path req) ''bitmap''"
  from upload_request_fresh [OF assms(1-4)] obtain ci' where
    ci: "index_field_size (length src) = Inr ci'" "upload_ok ci' src ?fp ?bp" "recv_inv ci' src ?fp ?bp r1"
    by metis
  then have "ci' = ci" using assms(5) by simp
  with ci have "recv_inv ci src ?fp ?bp r2" using Receiver_polls_inv [OF _ _ assms(6,7)] by blast
  then show ?thesis using stored_complete assms(8) ci(2) \<open>ci' = ci\<close> by (auto simp: recv_inv_def)
qed

definition demo_idle :: Receiver where
  "demo_idle = \<lparr>rc_state = Invalid, rc_tx = [], rc_folder = (False, [[7]]), rc_congestion = CongestionInfo_new 0,
     rc_bitmap = \<lparr>bm_buf = [], bm_num_bits = 0, bm_zeroes = 0\<rparr>, rc_fs = (\<lambda>_. None)\<rparr>"

theorem new_upload_complete_witness:
  "\<exists>r1 r2. upload_request demo_host \<lparr>ur_path = [97], ur_length = 3\<rparr> demo_idle = Inr r1
     \<and> Receiver_polls (\<lambda>_. 0) [demo_arrival, demo_quiet] r1 = Inr r2 \<and> BitMap_all (rc_bitmap r2)
     \<and> rc_fs r2 (upload_entry demo_host (False, [[7]]) [97] ''file'') = Some [1, 2, 3]"
proof -
  let ?req = "\<lparr>ur_path = [97], ur_length = 3\<rparr>"
  let ?fp = "upload_entry demo_host (False, [[7]]) [97] ''file''"
  let ?bp = "upload_entry demo_host (False, [[7]]) [97] ''bitmap''"
  have ci: "index_field_size (length [1, 2, 3 :: u8]) = Inr demo_ci"
    by (simp add: index_field_size_def ifs_loop.simps MTU_def div_up_def demo_ci_def)
  have m: "BitMap_with_length (replicate ((ci_num_chunks demo_ci + 7) div 8) 0) (ci_num_chunks demo_ci)
      = Inr \<lparr>bm_buf = [0], bm_num_bits = 1, bm_zeroes = 1\<rparr>"
    by (simp add: BitMap_with_length_def demo_ci_def BitMap_iter_def BitMap_iter_range_def
        Iter_collect.simps Iter_next_def BitMap_get_def BitMap_check_def bitmask_def Let_def)
  define fs where "fs = fs_set_len (fs_create ([?bp \<mapsto> [0]]) ?fp) ?fp 3"
  have fs: "fs ?fp = Some [0, 0, 0]"
    using upload_entry_distinct [of demo_host "(False, [[7]])" "[97]"]
    by (simp add: fs_def fs_set_len_def fs_create_def vec_resize_def numeral_3_eq_3)
  define r1 where "r1 = demo_idle\<lparr>rc_fs := fs, rc_bitmap := \<lparr>bm_buf = [0], bm_num_bits = 1, bm_zeroes = 1\<rparr>,
    rc_tx := [UploadStart], rc_state := WaitForChunk
      \<lparr>wf_file = \<lparr>fl_path = ?fp, fl_pos = 0, fl_append = False\<rparr>, wf_bitmap_path = ?bp, wf_buf = [],
       wf_chunk_info = demo_ci\<rparr>\<rparr>"
  have r1: "upload_request demo_host ?req demo_idle = Inr r1"
    using upload_request_fresh_eq [of ?req "[1, 2, 3]" demo_ci demo_idle demo_host, OF _ _ ci _ m]
    by (simp add: r1_def fs_def demo_idle_def demo_host_def demo_ci_def numeral_3_eq_3 Let_def)
  have buf: "recv_buf [] [0, 1, 2, 3] = [0, 1, 2, 3]" by (rule recv_buf_id) (simp add: MTU_def)
  obtain r2 where r2: "Receiver_polls (\<lambda>_. 0) [demo_arrival, demo_quiet] r1 = Inr r2" "BitMap_all (rc_bitmap r2)"
    using fs
    by (simp add: Receiver_poll_def poll_congestion_def CongestionInfo_poll_def poll_writing_def
        poll_recv_state_def demo_arrival_def demo_quiet_def r1_def demo_idle_def demo_ci_def CongestionInfo_new_def buf
        Chunk_decode_eq wrapping_sub64_def Receiver_chunk_def ipt_packet_def BitMap_get_def BitMap_check_def
        bitmask_def file_seek_def Chunk_as_ref_def file_write_def overwrite_def chunk_written_def BitMap_set_def
        sync_bitmap_def BitMap_all_def Let_def)
  have "\<forall>e \<in> set [demo_arrival, demo_quiet]. genuine_env demo_ci [1, 2, 3] e"
    using demo_genuine by (simp add: genuine_env_def demo_quiet_def)
  from new_upload_complete [OF _ _ _ r1 ci this r2] have "rc_fs r2 ?fp = Some [1, 2, 3]"
    by (simp add: demo_idle_def)
  with r1 r2 show ?thesis by blast
qed

text \<open>C37: resuming an upload whose bitmap file is still there opens the data file for appending, so the
  position a chunk seeks to is ignored and its bytes land behind the announced end of the file.\<close>

theorem resumed_upload_appends:
  assumes "rc_fs r (upload_entry h (rc_folder r) (ur_path req) ''bitmap'') \<noteq> None"
    and "upload_request h req r = Inr r'"
  shows "\<exists>st c. rc_state r' = WaitForChunk st \<and> rc_fs r' (fl_path (wf_file st)) = Some c
    \<and> length c = ur_length req
    \<and> (\<forall>off ds. fst (file_write (rc_fs r') (file_seek (wf_file st) off) ds) (fl_path (wf_file st)) = Some (c @ ds))"
proof -
  let ?fp = "upload_entry h (rc_folder r) (ur_path req) ''file''"
  obtain st fs where st: "rc_state r' = WaitForChunk st" "wf_file st = \<lparr>fl_path = ?fp, fl_pos = 0, fl_append = True\<rparr>"
    and fs: "rc_fs r' = fs_set_len (fs_create fs ?fp) ?fp (ur_length req)"
    using assms by (auto simp: upload_request_def bindE_eq_Inr Let_def split: if_splits)
  obtain c where c: "rc_fs r' ?fp = Some c" "length c = ur_length req"
    unfolding fs using fs_created_len by blast
  have "fst (file_write (rc_fs r') (file_seek (wf_file st) off) ds) ?fp = Some (c @ ds)" for off ds
    using file_write_append [of "file_seek (wf_file st) off" "rc_fs r'" c ds] st c by (simp add: file_seek_def)
  then show ?thesis using st c by auto
qed

theorem resumed_upload_appends_witness:
  "\<exists>r' st. upload_request demo_host \<lparr>ur_path = [97], ur_length = 3\<rparr>
       (demo_idle\<lparr>rc_fs := [upload_entry demo_host (False, [[7]]) [97] ''bitmap'' \<mapsto> [0]]\<rparr>) = Inr r'
     \<and> rc_state r' = WaitForChunk st
     \<and> (\<exists>c. length c = 3 \<and> fst (file_write (rc_fs r') (file_seek (wf_file st) 0) [1, 2, 3]) (fl_path (wf_file st))
          = Some (c @ [1, 2, 3]))"
proof -
  let ?req = "\<lparr>ur_path = [97], ur_length = 3\<rparr>"
  let ?bp = "upload_entry demo_host (False, [[7]]) [97] ''bitmap''"
  let ?r = "demo_idle\<lparr>rc_fs := [?bp \<mapsto> [0]]\<rparr>"
  have ci: "index_field_size 3 = Inr demo_ci"
    by (simp add: index_field_size_def ifs_loop.simps MTU_def div_up_def demo_ci_def)
  have m: "BitMap_with_length [0] (Suc 0) = Inr \<lparr>bm_buf = [0], bm_num_bits = 1, bm_zeroes = 1\<rparr>"
    by (simp add: BitMap_with_length_def BitMap_iter_def BitMap_iter_range_def
        Iter_collect.simps Iter_next_def BitMap_get_def BitMap_check_def bitmask_def Let_def)
  obtain r' where run: "upload_request demo_host ?req ?r = Inr r'"
    using ci m by (simp add: upload_request_def demo_idle_def fs_create_def demo_ci_def Let_def)
      (simp add: demo_host_def Let_def)
  have "rc_fs ?r (upload_entry demo_host (rc_folder ?r) (ur_path ?req) ''bitmap'') \<noteq> None"
    by (simp add: demo_idle_def)
  from resumed_upload_appends [OF this run] run show ?thesis by auto
qed

text \<open>C38: a datagram that is shorter than the index field, or whose index is beyond the chunk count, as
  the indices the specification reserves for extensions are, makes the receiver panic.\<close>

theorem bad_datagram_panics:
  assumes "rc_state r = WaitForChunk st" and "re_recv e = RecvData d" and "length d \<le> MTU"
    and "ci_index_field_size (wf_chunk_info st) \<le> 8"
    and "ipt_packet np (re_now e) (rc_congestion r) = Inr (cg, b)"
    and "ci_num_chunks (wf_chunk_info st) < 2 ^ 56" and "bm_num_bits (rc_bitmap r) = ci_num_chunks (wf_chunk_info st)"
    and "length d < ci_index_field_size (wf_chunk_info st)
      \<or> ci_num_chunks (wf_chunk_info st) < le_value (take (ci_index_field_size (wf_chunk_info st)) d)"
  shows "is_panic (poll_recv_state np e r)"
proof (cases "length d < ci_index_field_size (wf_chunk_info st)")
  case True
  then show ?thesis
    using assms(1-4) recv_buf_id [OF assms(3)]
    by (simp add: poll_recv_state_def Chunk_decode_def slice_to_def)
next
  case False
  let ?k = "ci_index_field_size (wf_chunk_info st)" and ?i = "le_value (take (ci_index_field_size (wf_chunk_info st)) d)"
  have gt: "ci_num_chunks (wf_chunk_info st) < ?i" using False assms(8) by simp
  have "length (take ?k d) = ?k" using False by simp
  with le_value_bound [of "take ?k d"] have "?i < 256 ^ ?k" by (simp only:)
  also have "\<dots> \<le> 256 ^ 8" using assms(4) by (intro power_increasing) auto
  finally have "?i < 2 ^ 64" by simp
  then have "wrapping_sub64 ?i (ci_num_chunks (wf_chunk_info st)) \<noteq> 0"
    using wrapping_sub64_eq_0 [of ?i "ci_num_chunks (wf_chunk_info st)"] assms(6) gt by simp
  then show ?thesis
    using False gt assms(1,2,4,5,7) recv_buf_id [OF assms(3)]
    by (simp add: poll_recv_state_def Chunk_decode_eq Receiver_chunk_def BitMap_get_def BitMap_check_def Let_def)
qed

theorem bad_datagram_panics_witness:
  "is_panic (poll_recv_state (\<lambda>_. 0) (demo_arrival\<lparr>re_recv := RecvData [2, 9]\<rparr>) demo_receiver)"
proof -
  have "ipt_packet (\<lambda>_. 0) 5 (rc_congestion demo_receiver) = Inr ((CongestionInfo_new 0)\<lparr>cg_last_ipt := Some 5\<rparr>, False)"
    by (simp add: demo_receiver_def ipt_packet_def CongestionInfo_new_def)
  then show ?thesis
    by (intro bad_datagram_panics [where cg = "(CongestionInfo_new 0)\<lparr>cg_last_ipt := Some 5\<rparr>" and b = False
        and d = "[2, 9]" and st = "\<lparr>wf_file = \<lparr>fl_path = [[1]], fl_pos = 0, fl_append = False\<rparr>,
          wf_bitmap_path = [[2]], wf_buf = [], wf_chunk_info = demo_ci\<rparr>"])
      (simp_all add: demo_receiver_def demo_arrival_def demo_ci_def MTU_def)
qed

section \<open>Where an upload is kept\<close>

lemma split_slash_append:
  "split_slash (xs @ slash # ys) = split_slash xs @ split_slash ys"
proof (induction xs)
  case Nil
  then show ?case by simp
next
  case (Cons x xs)
  moreover have "split_slash xs \<noteq> []" by (cases xs) (auto split: list.splits)
  ultimately show ?case by (auto simp: neq_Nil_conv)
qed

lemma Path_new_components: "snd (Path_new s) = filter (\<lambda>c. c \<noteq> [] \<and> c \<noteq> [dot]) (split_slash s)"
  by (simp add: Path_new_def)

lemma resolve_from_append: "resolve_from acc (xs @ ys) = resolve_from (resolve_from acc xs) ys"
  by (induction acc xs rule: resolve_from.induct) auto

lemma resolve_from_plain: "[dot, dot] \<notin> set xs \<Longrightarrow> resolve_from acc xs = acc @ xs"
  by (induction acc xs rule: resolve_from.induct) auto

definition token_folder :: "u8 list \<Rightarrow> path" where
  "token_folder hex = path_join (Path_new (str_bytes ''./files/'')) (Path_new hex)"

text \<open>A digest as the server prints it: one nonempty component without special meaning.\<close>

lemma token_folder_eq: "plain_name hex \<Longrightarrow> token_folder hex = (False, [str_bytes ''files'', hex])"
  by (cases hex)
    (auto simp: token_folder_def plain_name_def Path_new_def str_bytes_def slash_def dot_def path_join_def
      has_root_def split_slash_plain [unfolded slash_def])

lemma upload_entry_eq:
  assumes "plain_name hex" and "plain_name (str_bytes name)" and "slash \<notin> set (str_bytes name)"
  shows "upload_entry h (token_folder hex) p name
    = resolve_from (h_cwd h @ [str_bytes ''files'', hex]) (snd (Path_new p)) @ [str_bytes name]"
proof -
  have name: "Path_new (str_bytes name) = (False, [str_bytes name])" "str_bytes name \<noteq> [dot, dot]"
    using assms(2) by (cases "str_bytes name", auto simp: Path_new_def plain_name_def split_slash_plain)+
  have plain: "str_bytes ''files'' \<noteq> [dot, dot]" "hex \<noteq> [dot, dot]"
    using assms(1) by (auto simp: plain_name_def str_bytes_def)
  have "upload_dir (token_folder hex) p = (False, [str_bytes ''files'', hex] @ snd (Path_new p))"
    by (simp add: upload_dir_def token_folder_eq [OF assms(1)] path_join_def has_root_def strip_root_def Let_def)
  then show ?thesis
    using name plain
    by (simp add: upload_entry_def resolve_path_def path_join_def has_root_def resolve_from_append)
qed

lemma plain_entry_names: "plain_name (str_bytes ''file'')" "plain_name (str_bytes ''bitmap'')"
  by (auto simp: plain_name_def str_bytes_def slash_def)

text \<open>C29: an upload whose path has no parent component is kept below the folder of its client's token,
  under the path's own components.\<close>

theorem upload_confined:
  assumes "plain_name hex" and "[dot, dot] \<notin> set (snd (Path_new p))" and "name \<in> {''file'', ''bitmap''}"
  shows "upload_entry h (token_folder hex) p name
    = h_cwd h @ [str_bytes ''files'', hex] @ snd (Path_new p) @ [str_bytes name]"
proof -
  have "plain_name (str_bytes name)" using assms(3) plain_entry_names by auto
  then show ?thesis
    using upload_entry_eq [OF assms(1), of name] resolve_from_plain [OF assms(2)] by (simp add: plain_name_def)
qed

theorem upload_confined_witness:
  "upload_entry demo_host (token_folder [102, 48]) [97, 47, 98] ''file''
   = [[1], str_bytes ''files'', [102, 48], [97], [98], str_bytes ''file'']"
  using upload_confined [of "[102, 48]" "[97, 47, 98]" "''file''" demo_host]
  by (simp add: plain_name_def slash_def dot_def Path_new_def demo_host_def)

text \<open>C40: a path that starts with a parent component leaves the folder: the upload of one client to
  \<^verbatim>\<open>../<digest>/p\<close> has the same files as the upload of the client with that digest to \<^verbatim>\<open>p\<close>.\<close>

theorem upload_escapes:
  assumes "plain_name hex1" and "plain_name hex2" and "name \<in> {''file'', ''bitmap''}"
  shows "upload_entry h (token_folder hex1) ([dot, dot, slash] @ hex2 @ [slash] @ p) name
    = upload_entry h (token_folder hex2) p name"
proof -
  have name: "plain_name (str_bytes name)" using assms(3) plain_entry_names by auto
  have "split_slash ([dot, dot] @ slash # (hex2 @ slash # p)) = [[dot, dot], hex2] @ split_slash p"
    unfolding split_slash_append using assms(2) split_slash_plain [of "[dot, dot]"]
    by (simp add: split_slash_plain plain_name_def slash_def dot_def)
  then have "snd (Path_new ([dot, dot, slash] @ hex2 @ [slash] @ p)) = [[dot, dot], hex2] @ snd (Path_new p)"
    using assms(2) by (simp add: Path_new_def plain_name_def)
  moreover have "hex2 \<noteq> [dot, dot]" using assms(2) by (simp add: plain_name_def)
  ultimately show ?thesis
    using upload_entry_eq [OF assms(1) name] upload_entry_eq [OF assms(2) name] name
    by (simp add: plain_name_def resolve_from_append butlast_append)
qed

theorem upload_escapes_witness:
  "upload_entry demo_host (token_folder [102, 48]) ([dot, dot, slash] @ [97, 49] @ [slash] @ [120]) ''file''
   = upload_entry demo_host (token_folder [97, 49]) [120] ''file''"
  by (rule upload_escapes) (simp_all add: plain_name_def slash_def dot_def)

end
