(* ===== verification/Upload.thy ===== *)
theory Upload
  imports Client Server Receiver_Properties
begin

text \<open>
  A whole upload: the client, one server connection, and the network between them, which may lose,
  repeat and reorder the datagrams of both directions. A datagram sent is never taken back, so what
  can arrive is any datagram sent so far; the login datagram is the one the listener consumed. The
  main result is that a client that stops because a status update says everything arrived leaves the
  server with exactly the client's file.
\<close>

section \<open>The system\<close>

record System =
  sy_client :: Client
  sy_conn :: Conn

definition upload_start ::
    "varint_api \<Rightarrow> host \<Rightarrow> nat \<Rightarrow> fs \<Rightarrow> u8 list \<Rightarrow> u8 list \<Rightarrow> System res" where
  "upload_start V h now files filename src =
     bindE (client_once_start V filename src) (\<lambda>c.
     case Listener_poll (Some (hd (cl_out c), ())) Listener_new of
       (NotReady, _) \<Rightarrow> Inl (IoErr OtherIo)
     | (Ready (buf, n, _), _) \<Rightarrow>
         bindE (handle_client V h now files buf n) (\<lambda>cn.
         case cn of
           None \<Rightarrow> Inl (IoErr OtherIo)
         | Some cn' \<Rightarrow> Inr \<lparr>sy_client = c, sy_conn = cn'\<rparr>))"

inductive upload_step :: "varint_api \<Rightarrow> (nat \<Rightarrow> nat) \<Rightarrow> u8 list \<Rightarrow> System \<Rightarrow> System \<Rightarrow> bool"
  for V np src where
  client_sends: "\<not> cl_finished (sy_client s) \<Longrightarrow> client_step V src ChunkSent (sy_client s) = Inr c \<Longrightarrow>
    upload_step V np src s (s\<lparr>sy_client := c\<rparr>)"
| client_hears: "\<not> cl_finished (sy_client s) \<Longrightarrow> d \<in> set (cn_out (sy_conn s)) \<Longrightarrow>
    client_step V src (StatusUpdate d) (sy_client s) = Inr c \<Longrightarrow>
    upload_step V np src s (s\<lparr>sy_client := c\<rparr>)"
| server_moves: "conn_step V np (set (tl (cl_out (sy_client s)))) (sy_conn s) cn \<Longrightarrow>
    upload_step V np src s (s\<lparr>sy_conn := cn\<rparr>)"

inductive upload_reaches :: "varint_api \<Rightarrow> (nat \<Rightarrow> nat) \<Rightarrow> u8 list \<Rightarrow> System \<Rightarrow> System \<Rightarrow> bool"
  for V np src where
  here: "upload_reaches V np src s s"
| later: "upload_reaches V np src s s1 \<Longrightarrow> upload_step V np src s1 s2 \<Longrightarrow> upload_reaches V np src s s2"

inductive_cases upload_stepE: "upload_step V np src s s'"

section \<open>The invariant of the system\<close>

definition status_ok :: "varint_api \<Rightarrow> ChunkInfo \<Rightarrow> BitMap \<Rightarrow> u8 list \<Rightarrow> bool" where
  "status_ok V ci m d \<longleftrightarrow> length d \<le> MTU
     \<and> (\<forall>mr. \<exists>fin mr'. parse_status_update V mr d = Inr (fin, mr') \<and> missing_ok ci mr'
          \<and> (fin \<longrightarrow> BitMap_all m))"

definition conn_inv ::
    "varint_api \<Rightarrow> ChunkInfo \<Rightarrow> u8 list \<Rightarrow> u8 list list \<Rightarrow> u8 list list \<Rightarrow> Conn \<Rightarrow> bool" where
  "conn_inv V ci src fp bp cn \<longleftrightarrow>
     recv_inv ci src fp bp (cn_receiver cn)
     \<and> (\<forall>d \<in> set (cn_out cn). status_ok V ci (rc_bitmap (cn_receiver cn)) d)
     \<and> (sn_state (cn_sender cn) = Sending \<longrightarrow>
          status_ok V ci (rc_bitmap (cn_receiver cn)) (sn_vec (cn_sender cn)))
     \<and> channel_ok cn"

definition upload_inv ::
    "varint_api \<Rightarrow> ChunkInfo \<Rightarrow> u8 list \<Rightarrow> u8 list list \<Rightarrow> u8 list list \<Rightarrow> System \<Rightarrow> bool" where
  "upload_inv V ci src fp bp s \<longleftrightarrow>
     client_inv src (sy_client s) \<and> cl_chunk_info (sy_client s) = ci \<and> cl_out (sy_client s) \<noteq> []
     \<and> (\<forall>d \<in> set (tl (cl_out (sy_client s))). genuine ci src d)
     \<and> conn_inv V ci src fp bp (sy_conn s)
     \<and> (cl_finished (sy_client s) \<longrightarrow> BitMap_all (rc_bitmap (cn_receiver (sy_conn s))))"

section \<open>A full bitmap stays full\<close>

lemma chunk_written_full:
  assumes "chunk_written w f r = Inr r'" and "bm_ok (rc_bitmap r)"
    and "ch_index (wc_chunk w) < bm_num_bits (rc_bitmap r)"
  shows "BitMap_all (rc_bitmap r) \<longrightarrow> BitMap_all (rc_bitmap r')"
proof -
  obtain old m where "BitMap_set (rc_bitmap r) (ch_index (wc_chunk w)) True = Inr (old, m)"
    "rc_bitmap r' = m"
    using assms(1) by (auto simp: chunk_written_def bindE_eq_Inr Let_def)
  with bm.zeros_after_set [OF assms(2), of "ch_index (wc_chunk w)" old m] assms(3)
  show ?thesis by (auto simp: BitMap_all_def)
qed

lemma poll_writing_full:
  assumes inv: "recv_inv ci src fp bp r" and poll: "poll_writing e r = Inr (a, r')"
  shows "BitMap_all (rc_bitmap r) \<longrightarrow> BitMap_all (rc_bitmap r')"
proof (cases "rc_state r")
  case (WritingChunk w)
  have ok: "bm_ok (rc_bitmap r)" "ch_index (wc_chunk w) < bm_num_bits (rc_bitmap r)"
    using inv WritingChunk by (auto simp: recv_inv_def stored_def writing_ok_def Let_def)
  have "rc_bitmap r' = rc_bitmap r \<or> (\<exists>f. chunk_written w f r = Inr r')
      \<or> (\<exists>f fs. chunk_written w f (r\<lparr>rc_fs := fs\<rparr>) = Inr r')"
    using poll WritingChunk
    by (auto simp: poll_writing_def bindE_eq_Inr Let_def case_prod_beta
        split: if_splits write_poll.splits)
  then show ?thesis
  proof (elim disjE exE)
    fix f assume "chunk_written w f r = Inr r'"
    then show ?thesis using ok by (rule chunk_written_full)
  next
    fix f fs assume "chunk_written w f (r\<lparr>rc_fs := fs\<rparr>) = Inr r'"
    from chunk_written_full [OF this] ok show ?thesis by simp
  qed simp
qed (use poll in \<open>auto simp: poll_writing_def\<close>)

lemma poll_recv_state_bitmap:
  assumes "poll_recv_state np e r = Inr (a, r')"
  shows "rc_bitmap r' = rc_bitmap r"
  using assms
  by (auto simp: poll_recv_state_def bindE_eq_Inr Receiver_ack_def Receiver_chunk_def got_fin_def Let_def
      split: ReceiverState.splits recv_poll.splits if_splits)

lemma Receiver_poll_full:
  assumes up: "upload_ok ci src fp bp" and inv: "recv_inv ci src fp bp r"
    and poll: "Receiver_poll np e r = Inr (a, r')"
  shows "BitMap_all (rc_bitmap r) \<longrightarrow> BitMap_all (rc_bitmap r')"
  using poll
proof (cases rule: Receiver_poll_elim)
  case (writing r1)
  note fr = poll_congestion_frame [OF writing(1)]
  have "recv_inv ci src fp bp r1" using recv_inv_frame [OF fr] inv by blast
  from poll_writing_full [OF this writing(2)] fr show ?thesis by simp
next
  case (receiving r1 r2)
  note fr = poll_congestion_frame [OF receiving(1)]
  have "recv_inv ci src fp bp r1" using recv_inv_frame [OF fr] inv by blast
  from poll_writing_full [OF this receiving(2)] fr poll_recv_state_bitmap [OF receiving(3)]
  show ?thesis by simp
qed

section \<open>Every step keeps the invariant\<close>

lemma status_ok_mono:
  "status_ok V ci m d \<Longrightarrow> (BitMap_all m \<longrightarrow> BitMap_all m') \<Longrightarrow> status_ok V ci m' d"
  unfolding status_ok_def by metis

lemma conn_inv_receive:
  assumes up: "upload_ok ci src fp bp" and inv: "conn_inv V ci src fp bp cn"
    and net: "\<forall>d \<in> net. genuine ci src d" and e: "\<forall>d. re_recv e = RecvData d \<longrightarrow> d \<in> net"
    and step: "conn_receive np e ivs cn = Inr cn'"
  shows "conn_inv V ci src fp bp cn' \<and>
    (BitMap_all (rc_bitmap (cn_receiver cn)) \<longrightarrow> BitMap_all (rc_bitmap (cn_receiver cn')))"
proof -
  obtain a where poll: "Receiver_poll np e (cn_receiver cn) = Inr (a, cn_receiver cn')"
    and same: "cn_sender cn' = cn_sender cn" "cn_out cn' = cn_out cn"
    using conn_receive_poll [OF step] by blast
  have ri: "recv_inv ci src fp bp (cn_receiver cn)" and co: "channel_ok cn"
    using inv by (simp_all add: conn_inv_def)
  have "genuine_env ci src e" using net e by (auto simp: genuine_env_def)
  then have "recv_inv ci src fp bp (cn_receiver cn')" using poll by (rule Receiver_poll_inv [OF up ri])
  moreover have full: "BitMap_all (rc_bitmap (cn_receiver cn)) \<longrightarrow> BitMap_all (rc_bitmap (cn_receiver cn'))"
    using up ri poll by (rule Receiver_poll_full)
  ultimately show ?thesis
    using inv same status_ok_mono [OF _ full] channel_ok_receive [OF co step]
    by (auto simp: conn_inv_def)
qed

lemma sent_by_mem: "d \<in> set (sent_by sp s) \<Longrightarrow> d = sn_vec s \<and> sn_state s = Sending"
  by (auto simp: sent_by_def split: send_poll.splits if_splits)

lemma recv_inv_tx: "recv_inv ci src fp bp (r\<lparr>rc_tx := q\<rparr>) = recv_inv ci src fp bp r"
  by (simp add: recv_inv_def)

lemma conn_inv_flush:
  assumes "conn_inv V ci src fp bp cn" and "conn_flush sp cn = Inr cn'"
  shows "conn_inv V ci src fp bp cn' \<and> cn_receiver cn' = cn_receiver cn"
proof -
  obtain a s where s: "Sender_poll_complete sp (cn_sender cn) = Inr (a, s)"
    and cn': "cn' = cn\<lparr>cn_sender := s, cn_out := cn_out cn @ sent_by sp (cn_sender cn)\<rparr>"
    using assms(2) by (auto simp: conn_flush_def bindE_eq_Inr)
  have "channel_ok cn'" using assms channel_ok_flush by (auto simp: conn_inv_def)
  then show ?thesis
    using assms(1) cn' Sender_poll_complete_frame [OF s] sent_by_mem by (auto simp: conn_inv_def)
qed

context varint_codec
begin

lemma status_packet_ok:
  assumes "stored ci src fp m fs" and "ci_num_chunks ci < 2 ^ 56" and "status_packet V m vec = Inr pkt"
  shows "status_ok V ci m pkt"
proof -
  have ok: "bm_ok m" and n: "bm_num_bits m = ci_num_chunks ci" "bm_num_bits m < 2 ^ 60"
    using assms(1,2) by (auto simp: stored_def)
  obtain pkt' mr' where "status_packet V m vec = Inr pkt'" "length pkt' \<le> MTU"
    using status_packet_exact [OF ok n(2), of vec MissingRanges_default] by blast
  then have "length pkt \<le> MTU" using assms(3) by simp
  moreover have "\<exists>fin mr'. parse_status_update V mr pkt = Inr (fin, mr') \<and> missing_ok ci mr'
      \<and> (fin \<longrightarrow> BitMap_all m)" for mr
  proof -
    obtain mr' stop where p: "parse_status_update V mr pkt = Inr (BitMap_all m, mr')"
      "ranges_ok (mr_missing mr')" and c: "covered (mr_missing mr') = {i. i < stop \<and> \<not> bits m ! i}"
      "stop \<le> bm_num_bits m"
      using status_packet_exact [OF ok n(2), of vec mr] unfolding assms(3) sum.inject by blast
    have "covered (mr_missing mr') \<subseteq> {..<ci_num_chunks ci}"
      unfolding c(1) using c(2) n(1) by (auto simp del: nth_bits)
    with p show ?thesis unfolding missing_ok_def by blast
  qed
  ultimately show ?thesis by (simp add: status_ok_def)
qed

lemma conn_inv_forward:
  assumes up: "upload_ok ci src fp bp" and inv: "conn_inv V ci src fp bp cn"
    and step: "conn_forward V sp ivs cn = Inr cn'"
  shows "conn_inv V ci src fp bp cn' \<and> rc_bitmap (cn_receiver cn') = rc_bitmap (cn_receiver cn)"
proof -
  let ?m = "rc_bitmap (cn_receiver cn)"
  have co: "channel_ok cn'" using inv step channel_ok_forward by (auto simp: conn_inv_def)
  have new: "status_ok V ci ?m pkt" if "status_packet V ?m vec = Inr pkt" for vec pkt
    using status_packet_ok [OF _ num_chunks_small [OF up] that] inv
    by (auto simp: conn_inv_def recv_inv_def)
  from step show ?thesis
  proof (cases rule: conn_forward_elim)
    case idle
    then show ?thesis using inv co by (simp add: conn_inv_def)
  next
    case (item it rest res s)
    have out: "\<forall>d \<in> set (cn_out cn'). status_ok V ci ?m d"
      using inv item(5) sent_by_mem by (auto simp: conn_inv_def)
    from item(2) have "sn_state s = Sending \<longrightarrow> status_ok V ci ?m (sn_vec s)"
      by (cases rule: Sender_start_send_elim) (use inv new in \<open>auto simp: conn_inv_def\<close>)
    then show ?thesis using inv item co out by (simp add: conn_inv_def recv_inv_tx)
  qed
qed

lemma conn_inv_step:
  assumes "conn_step V np net cn cn'" and "upload_ok ci src fp bp" and "conn_inv V ci src fp bp cn"
    and "\<forall>d \<in> net. genuine ci src d"
  shows "conn_inv V ci src fp bp cn' \<and>
    (BitMap_all (rc_bitmap (cn_receiver cn)) \<longrightarrow> BitMap_all (rc_bitmap (cn_receiver cn')))"
  using assms(1)
proof cases
  case (receive e ivs)
  then show ?thesis using assms(2-) by (intro conn_inv_receive)
next
  case (forward sp ivs)
  then show ?thesis using assms(2,3) conn_inv_forward by auto
next
  case (flush sp)
  then show ?thesis using assms(3) conn_inv_flush by auto
qed

lemma upload_inv_client_sends:
  assumes up: "upload_ok ci src fp bp" and last: "ci_last_chunk_size ci \<noteq> 0"
    and inv: "upload_inv V ci src fp bp s"
    and step: "client_step V src ChunkSent (sy_client s) = Inr c"
  shows "upload_inv V ci src fp bp (s\<lparr>sy_client := c\<rparr>)"
proof -
  have ci: "client_inv src (sy_client s)" "cl_chunk_info (sy_client s) = ci"
    using inv by (simp_all add: upload_inv_def)
  note out = client_step_sent [OF ci(1), of V, unfolded step ci(2), simplified]
  show ?thesis
  proof (cases "cl_send (sy_client s)")
    case (SendIdle buf)
    then show ?thesis using out inv by (simp add: upload_inv_def)
  next
    case (SendChunk chunk off)
    then have i: "ch_index chunk < ci_num_chunks ci"
      and cl: "cl_out c = cl_out (sy_client s) @ [client_packet ci src (ch_index chunk)]"
      using out by simp_all
    have "client_packet ci src (ch_index chunk) = data_packet ci src (ch_index chunk)"
      using i last up by (intro payload_chunk) (auto simp: upload_ok_def)
    then have "genuine ci src (client_packet ci src (ch_index chunk))" using i by (auto simp: genuine_def)
    then show ?thesis using out inv cl by (auto simp: upload_inv_def)
  qed
qed

lemma upload_inv_client_hears:
  assumes inv: "upload_inv V ci src fp bp s" and d: "d \<in> set (cn_out (sy_conn s))"
    and step: "client_step V src (StatusUpdate d) (sy_client s) = Inr c"
  shows "upload_inv V ci src fp bp (s\<lparr>sy_client := c\<rparr>)"
proof -
  have ci: "client_inv src (sy_client s)" "cl_chunk_info (sy_client s) = ci"
    using inv by (simp_all add: upload_inv_def)
  have "status_ok V ci (rc_bitmap (cn_receiver (sy_conn s))) d"
    using inv d by (auto simp: upload_inv_def conn_inv_def)
  then obtain fin mr where len: "length d \<le> MTU"
    and p: "parse_status_update V (cl_missing (sy_client s)) d = Inr (fin, mr)" "missing_ok ci mr"
      "fin \<longrightarrow> BitMap_all (rc_bitmap (cn_receiver (sy_conn s)))"
    unfolding status_ok_def by blast
  from client_step_status [OF ci(1) len p(1)] ci(2) p(2) step
  have "client_inv src c" "cl_chunk_info c = ci" "cl_finished c = (cl_finished (sy_client s) \<or> fin)"
    "cl_out c = cl_out (sy_client s) @ (if fin then [fin_packet ci] else [])"
    by auto
  then show ?thesis using inv p(3) by (auto simp: upload_inv_def genuine_def)
qed

lemma upload_inv_step:
  assumes "upload_step V np src s s'" and "upload_ok ci src fp bp" and "ci_last_chunk_size ci \<noteq> 0"
    and "upload_inv V ci src fp bp s"
  shows "upload_inv V ci src fp bp s'"
  using assms(1)
proof cases
  case (client_sends c)
  then show ?thesis using assms(2-4) by (auto intro: upload_inv_client_sends)
next
  case (client_hears d c)
  then show ?thesis using assms(4) by (auto intro: upload_inv_client_hears)
next
  case (server_moves cn)
  have "conn_inv V ci src fp bp (sy_conn s)" "\<forall>d \<in> set (tl (cl_out (sy_client s))). genuine ci src d"
    using assms(4) by (simp_all add: upload_inv_def)
  from conn_inv_step [OF server_moves(2) assms(2) this] show ?thesis
    using assms(4) server_moves(1) by (auto simp: upload_inv_def)
qed

lemma upload_inv_reaches:
  assumes "upload_reaches V np src s s'" and "upload_ok ci src fp bp" and "ci_last_chunk_size ci \<noteq> 0"
    and "upload_inv V ci src fp bp s"
  shows "upload_inv V ci src fp bp s'"
  using assms(1,4)
proof (induction rule: upload_reaches.induct)
  case (later s s1 s2)
  then show ?case using upload_inv_step [OF later.hyps(2) assms(2,3)] by blast
qed

end

lemma upload_finished:
  assumes "upload_ok ci src fp bp" and "upload_inv V ci src fp bp s" and "cl_finished (sy_client s)"
  shows "rc_fs (cn_receiver (sy_conn s)) fp = Some src"
  using assms stored_complete [OF assms(1)] by (auto simp: upload_inv_def conn_inv_def recv_inv_def)

section \<open>The start of an upload\<close>

text \<open>Where the server keeps the file of an upload.\<close>

definition server_entry :: "host \<Rightarrow> Login \<Rightarrow> u8 list \<Rightarrow> string \<Rightarrow> u8 list list" where
  "server_entry h login filename name =
     upload_entry h (path_join (Path_new (str_bytes ''./files/'')) (Path_new (h_digest h (lg_client_token login))))
       filename name"

lemma Receiver_new_elim:
  assumes "Receiver_new h now files (client_login filename n) = Inr r"
  obtains r0 r1 where "rc_folder r0 = path_join (Path_new (str_bytes ''./files/''))
      (Path_new (h_digest h (lg_client_token (client_login filename n))))"
    and "rc_fs r0 = files" and "rc_tx r0 = []"
    and "upload_request h \<lparr>ur_path = filename, ur_length = n\<rparr> r0 = Inr r1"
    and "rc_tx r = rc_tx r1 @ [UploadStatus]"
    and "rc_bitmap r = rc_bitmap r1 \<and> rc_fs r = rc_fs r1 \<and> rc_state r = rc_state r1"
proof -
  define r0 where "r0 = \<lparr>rc_state = Invalid, rc_tx = [],
    rc_folder = path_join (Path_new (str_bytes ''./files/''))
      (Path_new (h_digest h (lg_client_token (client_login filename n)))),
    rc_congestion = CongestionInfo_new now,
    rc_bitmap = \<lparr>bm_buf = [], bm_num_bits = 0, bm_zeroes = 0\<rparr>, rc_fs = files\<rparr>"
  have cmd: "Receiver_command h (lg_command (client_login filename n)) r0
      = upload_request h \<lparr>ur_path = filename, ur_length = n\<rparr> r0"
    by (simp add: client_login_def)
  obtain r1 cg where r1: "upload_request h \<lparr>ur_path = filename, ur_length = n\<rparr> r0 = Inr r1"
    and r: "r = r1\<lparr>rc_tx := rc_tx r1 @ [UploadStatus], rc_congestion := cg\<rparr>"
    using assms unfolding Receiver_new_def Let_def r0_def [symmetric] cmd bindE_eq_Inr by auto
  show thesis by (rule that [OF _ _ _ r1]) (simp_all add: r r0_def)
qed

context varint_codec
begin

lemma listener_login:
  assumes wf: "login_wf V l" and fits: "length (login_bytes V l) \<le> MTU"
  obtains buf where "Listener_poll (Some (login_bytes V l, a)) Listener_new
      = (Ready (buf, length (login_bytes V l), a), Listener_new)"
    and "\<And>h now files. handle_client V h now files buf (length (login_bytes V l)) =
      bindE (Receiver_new h now files l) (\<lambda>r.
        Inr (Some \<lparr>cn_receiver = r, cn_sender = Sender_new, cn_recv_timeout = TimeoutStream_new,
          cn_send_timeout = TimeoutStream_new, cn_out = [], cn_ended = False\<rparr>))"
proof -
  let ?b = "login_bytes V l" and ?buf = "overwrite (replicate MTU 0) 0 (login_bytes V l)"
  have "Listener_poll (Some (?b, a)) Listener_new = (Ready (?buf, length ?b, a), Listener_new)"
    using fits by (simp add: Listener_poll_def Listener_new_def Let_def)
  moreover have "slice_to ?buf (length ?b) = Inr ?b" using fits by (simp add: overwrite_def)
  moreover have "Login_decode V ?b = Inr l" using login_decode_bytes [OF wf, of "[]"] by simp
  ultimately show thesis using that [of ?buf] by (simp add: handle_client_def)
qed

lemma upload_start_elim:
  assumes "length src < 2 ^ 63" and "login_wf V (client_login filename (length src))"
    and "length (login_bytes V (client_login filename (length src))) \<le> MTU"
    and "upload_start V h now files filename src = Inr s"
  obtains r where "Receiver_new h now files (client_login filename (length src)) = Inr r"
    and "sy_conn s = \<lparr>cn_receiver = r, cn_sender = Sender_new, cn_recv_timeout = TimeoutStream_new,
      cn_send_timeout = TimeoutStream_new, cn_out = [], cn_ended = False\<rparr>"
    and "client_inv src (sy_client s)" and "\<not> cl_finished (sy_client s)"
    and "index_field_size (length src) = Inr (cl_chunk_info (sy_client s))"
    and "cl_out (sy_client s) = [login_bytes V (client_login filename (length src))]"
proof -
  let ?l = "client_login filename (length src)"
  let ?b = "login_bytes V ?l"
  obtain c where c: "client_once_start V filename src = Inr c" "client_inv src c"
    "index_field_size (length src) = Inr (cl_chunk_info c)" "\<not> cl_finished c" "cl_out c = [?b]"
    using client_once_start_inv [OF assms(1,2)] by blast
  obtain buf where "Listener_poll (Some (?b, ())) Listener_new = (Ready (buf, length ?b, ()), Listener_new)"
    and "\<And>h now files. handle_client V h now files buf (length ?b) =
      bindE (Receiver_new h now files ?l) (\<lambda>r.
        Inr (Some \<lparr>cn_receiver = r, cn_sender = Sender_new, cn_recv_timeout = TimeoutStream_new,
          cn_send_timeout = TimeoutStream_new, cn_out = [], cn_ended = False\<rparr>))"
    using listener_login [where a = "()", OF assms(2,3)] by blast
  then obtain r where r: "Receiver_new h now files ?l = Inr r"
    and s: "s = \<lparr>sy_client = c, sy_conn = \<lparr>cn_receiver = r, cn_sender = Sender_new,
      cn_recv_timeout = TimeoutStream_new, cn_send_timeout = TimeoutStream_new, cn_out = [],
      cn_ended = False\<rparr>\<rparr>"
    using assms(4) c by (auto simp: upload_start_def bindE_eq_Inr)
  then show thesis using that c by simp
qed

lemma upload_start_inv:
  assumes len: "length src < 2 ^ 63" and wf: "login_wf V (client_login filename (length src))"
    and fits: "length (login_bytes V (client_login filename (length src))) \<le> MTU"
    and new: "files (server_entry h (client_login filename (length src)) filename ''bitmap'') = None"
    and start: "upload_start V h now files filename src = Inr s"
  obtains ci where "index_field_size (length src) = Inr ci"
    and "upload_ok ci src (server_entry h (client_login filename (length src)) filename ''file'')
           (server_entry h (client_login filename (length src)) filename ''bitmap'')"
    and "upload_inv V ci src (server_entry h (client_login filename (length src)) filename ''file'')
           (server_entry h (client_login filename (length src)) filename ''bitmap'') s"
proof -
  let ?fp = "server_entry h (client_login filename (length src)) filename ''file''"
  let ?bp = "server_entry h (client_login filename (length src)) filename ''bitmap''"
  from upload_start_elim [OF len wf fits start] obtain r where
    r: "Receiver_new h now files (client_login filename (length src)) = Inr r"
    and cn: "sy_conn s = \<lparr>cn_receiver = r, cn_sender = Sender_new, cn_recv_timeout = TimeoutStream_new,
      cn_send_timeout = TimeoutStream_new, cn_out = [], cn_ended = False\<rparr>"
    and cl: "client_inv src (sy_client s)" "\<not> cl_finished (sy_client s)"
      "index_field_size (length src) = Inr (cl_chunk_info (sy_client s))"
      "cl_out (sy_client s) = [login_bytes V (client_login filename (length src))]" .
  from Receiver_new_elim [OF r] obtain r0 r1 where
    r0: "rc_folder r0 = path_join (Path_new (str_bytes ''./files/''))
      (Path_new (h_digest h (lg_client_token (client_login filename (length src)))))"
      "rc_fs r0 = files" "rc_tx r0 = []"
    and r1: "upload_request h \<lparr>ur_path = filename, ur_length = length src\<rparr> r0 = Inr r1"
    and tx: "rc_tx r = rc_tx r1 @ [UploadStatus]"
    and fr: "rc_bitmap r = rc_bitmap r1 \<and> rc_fs r = rc_fs r1 \<and> rc_state r = rc_state r1" .
  have "rc_fs r0 (upload_entry h (rc_folder r0) filename ''bitmap'') = None"
    using new r0 by (simp add: server_entry_def)
  then obtain ci where ci: "index_field_size (length src) = Inr ci" "upload_ok ci src ?fp ?bp"
    "recv_inv ci src ?fp ?bp r1" "rc_tx r1 = [UploadStart]"
    using upload_request_fresh [of "\<lparr>ur_path = filename, ur_length = length src\<rparr>" src r0 h r1] len r1 r0
    by (auto simp: server_entry_def)
  have "recv_inv ci src ?fp ?bp r" using recv_inv_frame [OF fr] ci(3) by blast
  then have "upload_inv V ci src ?fp ?bp s"
    using cl ci cn tx by (simp add: upload_inv_def conn_inv_def channel_ok_def Sender_new_def)
  then show thesis using that ci by blast
qed

end

section \<open>Running the system on a schedule\<close>

text \<open>
  A schedule names, step by step, who moves and which datagram arrives, as its position among those
  sent; executing it stays inside the step relation.
\<close>

datatype sys_event =
    EvSend
  | EvHear nat
  | EvReceive nat delay_poll write_poll "nat option" interval_answers
  | EvForward send_poll interval_answers
  | EvFlush send_poll

fun sys_exec :: "varint_api \<Rightarrow> (nat \<Rightarrow> nat) \<Rightarrow> u8 list \<Rightarrow> sys_event \<Rightarrow> System \<Rightarrow> System option" where
  "sys_exec V np src EvSend s =
     (if cl_finished (sy_client s) then None
      else case client_step V src ChunkSent (sy_client s) of
        Inl _ \<Rightarrow> None | Inr c \<Rightarrow> Some (s\<lparr>sy_client := c\<rparr>))"
| "sys_exec V np src (EvHear i) s =
     (if cl_finished (sy_client s) \<or> length (cn_out (sy_conn s)) \<le> i then None
      else case client_step V src (StatusUpdate (cn_out (sy_conn s) ! i)) (sy_client s) of
        Inl _ \<Rightarrow> None | Inr c \<Rightarrow> Some (s\<lparr>sy_client := c\<rparr>))"
| "sys_exec V np src (EvReceive now dl wr arr ivs) s =
     (let net = tl (cl_out (sy_client s)) in
      case arr of
        Some i \<Rightarrow>
          if cn_ended (sy_conn s) \<or> length net \<le> i then None
          else (case conn_receive np \<lparr>re_now = now, re_delay = dl, re_write = wr, re_recv = RecvData (net ! i)\<rparr> ivs (sy_conn s) of
            Inl _ \<Rightarrow> None | Inr cn \<Rightarrow> Some (s\<lparr>sy_conn := cn\<rparr>))
      | None \<Rightarrow>
          if cn_ended (sy_conn s) then None
          else (case conn_receive np \<lparr>re_now = now, re_delay = dl, re_write = wr, re_recv = RecvNotReady\<rparr> ivs (sy_conn s) of
            Inl _ \<Rightarrow> None | Inr cn \<Rightarrow> Some (s\<lparr>sy_conn := cn\<rparr>)))"
| "sys_exec V np src (EvForward sp ivs) s =
     (if cn_ended (sy_conn s) then None
      else case conn_forward V sp ivs (sy_conn s) of Inl _ \<Rightarrow> None | Inr cn \<Rightarrow> Some (s\<lparr>sy_conn := cn\<rparr>))"
| "sys_exec V np src (EvFlush sp) s =
     (if cn_ended (sy_conn s) then None
      else case conn_flush sp (sy_conn s) of Inl _ \<Rightarrow> None | Inr cn \<Rightarrow> Some (s\<lparr>sy_conn := cn\<rparr>))"

fun sys_run :: "varint_api \<Rightarrow> (nat \<Rightarrow> nat) \<Rightarrow> u8 list \<Rightarrow> sys_event list \<Rightarrow> System \<Rightarrow> System option" where
  "sys_run V np src [] s = Some s"
| "sys_run V np src (ev # evs) s =
     (case sys_exec V np src ev s of None \<Rightarrow> None | Some s' \<Rightarrow> sys_run V np src evs s')"

lemma sys_exec_step: "sys_exec V np src ev s = Some s' \<Longrightarrow> upload_step V np src s s'"
proof (cases ev)
  case (EvReceive now dl wr arr ivs)
  assume "sys_exec V np src ev s = Some s'"
  then show ?thesis
    using EvReceive
    by (cases arr)
      (auto simp: Let_def split: if_splits sum.splits
        intro!: upload_step.server_moves conn_step.receive [of _ _ _ np ivs])
next
  case (EvHear i)
  assume "sys_exec V np src ev s = Some s'"
  then show ?thesis
    using EvHear upload_step.client_hears [OF _ nth_mem [of i "cn_out (sy_conn s)"]]
    by (auto split: if_splits sum.splits)
qed (auto split: if_splits sum.splits
      intro: upload_step.intros conn_step.forward conn_step.flush)

lemma upload_reaches_trans:
  "upload_reaches V np src s1 s2 \<Longrightarrow> upload_reaches V np src s s1 \<Longrightarrow> upload_reaches V np src s s2"
  by (induction rule: upload_reaches.induct) (auto intro: upload_reaches.later)

lemma sys_run_reaches: "sys_run V np src evs s = Some s' \<Longrightarrow> upload_reaches V np src s s'"
proof (induction evs arbitrary: s)
  case Nil
  then show ?case by (simp add: upload_reaches.here)
next
  case (Cons ev evs)
  then obtain s1 where "sys_exec V np src ev s = Some s1" "sys_run V np src evs s1 = Some s'"
    by (auto split: option.splits)
  then show ?case
    using Cons.IH upload_reaches_trans upload_reaches.later [OF upload_reaches.here] sys_exec_step by metis
qed

end
