(* ===== verification/Upload_Properties.thy ===== *)
theory Upload_Properties
  imports Upload
begin

text \<open>
  The property that spans client, server and network, and a complete run of the system on a small
  file: an upload of three bytes from the login datagram to the client's final packet.
\<close>

section \<open>A complete run\<close>

lemma demo_status_empty: "status_packet leb_api \<lparr>bm_buf = [0], bm_num_bits = Suc 0, bm_zeroes = Suc 0\<rparr> vec = Inr [0, 1]"
  by (simp add: status_packet_def write_runlength_encoded_def rle_loop.simps BitMap_iter_def BitMap_iter_range_def
    Iter_next_def BitMap_get_def BitMap_check_def bitmask_def rle_write_def leb_api_def leb_enc.simps write_all_def wr_fits_def slice_writer_def overwrite_def vec_truncate_def MTU_def Let_def)
lemma demo_status_full: "status_packet leb_api \<lparr>bm_buf = [1], bm_num_bits = Suc 0, bm_zeroes = 0\<rparr> vec = Inr [1]"
  by (simp add: status_packet_def write_runlength_encoded_def rle_loop.simps BitMap_iter_def BitMap_iter_range_def
    Iter_next_def BitMap_get_def BitMap_check_def bitmask_def rle_write_def leb_api_def leb_enc.simps write_all_def wr_fits_def slice_writer_def overwrite_def vec_truncate_def MTU_def Let_def)
lemma demo_parse_empty: "parse_status_update leb_api mr [0, 1] = Inr (False, \<lparr>mr_missing = [(0, 1)], mr_cursor = 0\<rparr>)"
  by (simp add: parse_status_update_def RunlengthIter_next_def leb_api_def leb_dec_def Let_def)
lemma demo_parse_full: "parse_status_update leb_api mr [1] = Inr (True, \<lparr>mr_missing = [], mr_cursor = 0\<rparr>)"
  by (simp add: parse_status_update_def RunlengthIter_next_def leb_api_def leb_dec_def Let_def)

definition demo_login :: "u8 list" where
  "demo_login = [10, 114, 111, 102, 108, 99, 111, 112, 116, 101, 114, 0, 1, 97, 3]"

definition demo_start_client :: Client where
  "demo_start_client = \<lparr>cl_chunk_info = demo_ci, cl_missing = MissingRanges_default, cl_send = SendIdle demo_login,
     cl_recv_buf = replicate MTU 0, cl_out = [demo_login], cl_finished = False\<rparr>"

lemma demo_login_bytes: "login_bytes leb_api (client_login [97] 3) = demo_login"
  by (simp add: login_bytes_def client_login_def request_bytes_def leb_api_def leb_enc.simps demo_login_def)

lemma demo_login_wf: "login_wf leb_api (client_login [97] 3)"
  by (simp add: login_wf_def demo_login_bytes) (simp add: client_login_def demo_login_def)

lemma demo_index_field_size: "index_field_size 3 = Inr demo_ci"
  by (simp add: index_field_size_def ifs_loop.simps MTU_def div_up_def demo_ci_def)

lemma demo_client_start: "client_once_start leb_api [97] [1, 2, 3] = Inr demo_start_client"
  using varint_codec.login_encode_bytes [OF leb_varint_codec demo_login_wf]
  by (simp add: client_once_start_def demo_index_field_size [unfolded numeral_3_eq_3] numeral_3_eq_3 demo_login_bytes [unfolded numeral_3_eq_3] 
    client_next_def do_chunk_def next_chunk_def MissingRanges_default_def
    demo_start_client_def)

definition demo_fp :: "u8 list list" where "demo_fp = server_entry demo_host (client_login [97] 3) [97] ''file''"
definition demo_bp :: "u8 list list" where "demo_bp = server_entry demo_host (client_login [97] 3) [97] ''bitmap''"

definition demo_start_conn :: "path \<Rightarrow> Conn" where
  "demo_start_conn folder = \<lparr>cn_receiver = \<lparr>rc_state = WaitForChunk \<lparr>wf_file = \<lparr>fl_path = demo_fp, fl_pos = 0, fl_append = False\<rparr>, wf_bitmap_path = demo_bp, wf_buf = [],
       wf_chunk_info = demo_ci\<rparr>, rc_tx = [UploadStart, UploadStatus], rc_folder = folder,
       rc_congestion = (CongestionInfo_new 0)\<lparr>cg_rtt_start := Some 0\<rparr>, rc_bitmap = \<lparr>bm_buf = [0], bm_num_bits = Suc 0, bm_zeroes = Suc 0\<rparr>,
       rc_fs = [demo_bp \<mapsto> [0], demo_fp \<mapsto> [0, 0, 0]]\<rparr>,
     cn_sender = Sender_new, cn_recv_timeout = TimeoutStream_new, cn_send_timeout = TimeoutStream_new,
     cn_out = [], cn_ended = False\<rparr>"

definition demo_schedule :: "sys_event list" where
  "demo_schedule = [EvForward SendNotReady (\<lambda>_. IvNotReady), EvForward SendNotReady (\<lambda>_. IvNotReady), EvFlush (SendWritten 2), EvHear 0, EvSend,
     EvReceive 0 DelayNotReady (WBytes 10) (Some 0) (\<lambda>_. IvNotReady),
     EvReceive 0 DelayNotReady (WBytes 10) None (\<lambda>_. IvNotReady), EvForward SendNotReady (\<lambda>_. IvNotReady),
     EvFlush (SendWritten 1), EvHear 1]"

lemma demo_paths: "demo_fp \<noteq> demo_bp"
  unfolding demo_fp_def demo_bp_def server_entry_def by (rule upload_entry_distinct)

lemma demo_index_bytes: "take (Suc 0) (le_bytes 8 0) = [0]" "take (Suc 0) (le_bytes 8 (Suc 0)) = [1]"
  by (simp_all add: take_le_bytes)

lemma demo_recv_buf: "recv_buf [] [0, 1, 2, 3] = [0, 1, 2, 3]" by (rule recv_buf_id) (simp add: MTU_def)

lemma demo_run:
  "\<exists>s. sys_run leb_api np [1, 2, 3] demo_schedule \<lparr>sy_client = demo_start_client, sy_conn = demo_start_conn folder\<rparr> = Some s
    \<and> cl_finished (sy_client s)"
  using demo_paths
  by (simp add: demo_schedule_def demo_start_client_def demo_start_conn_def conn_forward_def TimeoutStream_poll_def
     stream_ends_def Sender_start_send_def Sender_poll_complete_def Sender_new_def sent_by_def demo_status_empty demo_status_full demo_parse_empty demo_parse_full conn_flush_def
     client_step_def recv_dgram_def overwrite_def client_next_def do_chunk_def next_chunk_def Chunk_new_def demo_ci_def
     send_chunk_def Chunk_as_ref_def read_exact_at_def Chunk_fill_def vec_resize_def conn_receive_def
     Receiver_poll_def poll_congestion_def CongestionInfo_poll_def poll_writing_def
        poll_recv_state_def CongestionInfo_new_def demo_recv_buf
        Chunk_decode_eq wrapping_sub64_def Receiver_chunk_def ipt_packet_def BitMap_get_def BitMap_check_def
        bitmask_def file_seek_def file_write_def chunk_written_def BitMap_set_def
        sync_bitmap_def client_fin_def MTU_def demo_index_bytes Let_def)

definition demo_entry_folder :: path where
  "demo_entry_folder = path_join (Path_new (str_bytes ''./files/'')) (Path_new (h_digest demo_host (lg_client_token (client_login [97] 3))))"

lemma demo_receiver_new:
  "Receiver_new demo_host 0 (\<lambda>_. None) (client_login [97] 3) = Inr (cn_receiver (demo_start_conn demo_entry_folder))"
proof -
  let ?req = "\<lparr>ur_path = [97], ur_length = 3\<rparr>"
  define r0 where "r0 = \<lparr>rc_state = Invalid, rc_tx = [], rc_folder = demo_entry_folder, rc_congestion = CongestionInfo_new 0,
    rc_bitmap = \<lparr>bm_buf = [], bm_num_bits = 0, bm_zeroes = 0\<rparr>, rc_fs = (\<lambda>_. None)\<rparr>"
  have m: "BitMap_with_length (replicate ((ci_num_chunks demo_ci + 7) div 8) 0) (ci_num_chunks demo_ci)
      = Inr \<lparr>bm_buf = [0], bm_num_bits = Suc 0, bm_zeroes = Suc 0\<rparr>"
    by (simp add: BitMap_with_length_def demo_ci_def BitMap_iter_def BitMap_iter_range_def
        Iter_collect.simps Iter_next_def BitMap_get_def BitMap_check_def bitmask_def Let_def)
  have entries: "upload_entry demo_host demo_entry_folder [97] ''file'' = demo_fp"
    "upload_entry demo_host demo_entry_folder [97] ''bitmap'' = demo_bp"
    by (simp_all add: demo_fp_def demo_bp_def server_entry_def demo_entry_folder_def)
  have ci: "index_field_size (length [1, 2, 3 :: u8]) = Inr demo_ci"
    by (simp add: index_field_size_def ifs_loop.simps MTU_def div_up_def demo_ci_def)
  have host: "h_open_ok demo_host p" "0 < n \<Longrightarrow> h_mmap_ok demo_host n" for p n by (simp_all add: demo_host_def)
  have "upload_request demo_host ?req r0 = Inr (r0\<lparr>rc_fs := [demo_bp \<mapsto> [0], demo_fp \<mapsto> [0, 0, 0]],
      rc_bitmap := \<lparr>bm_buf = [0], bm_num_bits = Suc 0, bm_zeroes = Suc 0\<rparr>, rc_tx := [UploadStart],
      rc_state := WaitForChunk \<lparr>wf_file = \<lparr>fl_path = demo_fp, fl_pos = 0, fl_append = False\<rparr>,
        wf_bitmap_path = demo_bp, wf_buf = [], wf_chunk_info = demo_ci\<rparr>\<rparr>)"
    using upload_request_fresh_eq [of ?req "[1, 2, 3]" demo_ci r0 demo_host, OF _ _ ci _ m] host demo_paths
    by (simp add: r0_def entries fs_create_def fs_set_len_def vec_resize_def numeral_3_eq_3 Let_def demo_ci_def)
  then show ?thesis
    by (simp add: Receiver_new_def client_login_def start_rtt_def demo_start_conn_def r0_def demo_entry_folder_def
        CongestionInfo_new_def Let_def)
qed

lemma demo_upload_start:
  "upload_start leb_api demo_host 0 (\<lambda>_. None) [97] [1, 2, 3]
    = Inr \<lparr>sy_client = demo_start_client, sy_conn = demo_start_conn demo_entry_folder\<rparr>"
proof -
  have "Login_decode leb_api demo_login = Inr (client_login [97] 3)"
    using varint_codec.login_decode_bytes [OF leb_varint_codec demo_login_wf, of "[]"] by (simp add: demo_login_bytes)
  moreover have "take (length demo_login) (overwrite (replicate MTU 0) 0 demo_login) = demo_login"
    "length demo_login \<le> MTU" by (simp_all add: overwrite_def demo_login_def MTU_def)
  ultimately show ?thesis
    by (simp add: upload_start_def demo_client_start Listener_poll_def Listener_new_def handle_client_def
        demo_receiver_new slice_to_def demo_start_client_def demo_start_conn_def Let_def)
qed

section \<open>Properties\<close>

text \<open>C1: an upload that ends is right. Whatever the network loses, repeats or reorders of the datagrams
  after the login, and however the two halves of the connection interleave, a client that stops because
  a status update reported everything received leaves the server with exactly its file. The upload is
  a new one, the login fits one datagram and arrives once, and the file is shorter than \<open>2 ^ 63\<close> bytes
  and its length not a multiple of the chunk size.\<close>

theorem upload_delivers_file:
  assumes "varint_codec V" and "length src < 2 ^ 63"
    and "index_field_size (length src) = Inr ci" and "ci_last_chunk_size ci \<noteq> 0"
    and "login_wf V (client_login filename (length src))"
    and "length (login_bytes V (client_login filename (length src))) \<le> MTU"
    and "files (server_entry h (client_login filename (length src)) filename ''bitmap'') = None"
    and "upload_start V h now files filename src = Inr s0" and "upload_reaches V np src s0 s"
    and "cl_finished (sy_client s)"
  shows "rc_fs (cn_receiver (sy_conn s)) (server_entry h (client_login filename (length src)) filename ''file'')
    = Some src"
proof -
  let ?fp = "server_entry h (client_login filename (length src)) filename ''file''"
  let ?bp = "server_entry h (client_login filename (length src)) filename ''bitmap''"
  obtain ci' where ci': "index_field_size (length src) = Inr ci'" "upload_ok ci' src ?fp ?bp"
    "upload_inv V ci' src ?fp ?bp s0"
    using varint_codec.upload_start_inv [OF assms(1,2,5-8)] .
  then have "ci' = ci" using assms(3) by simp
  with ci' assms(4) have up: "upload_ok ci src ?fp ?bp" and inv: "upload_inv V ci src ?fp ?bp s"
    using varint_codec.upload_inv_reaches [OF assms(1,9)] by blast+
  then show ?thesis by (rule upload_finished [OF _ _ assms(10)])
qed

theorem upload_delivers_file_witness:
  "\<exists>s0 s. upload_start leb_api demo_host 0 (\<lambda>_. None) [97] [1, 2, 3] = Inr s0
     \<and> upload_reaches leb_api (\<lambda>_. 0) [1, 2, 3] s0 s \<and> cl_finished (sy_client s)
     \<and> rc_fs (cn_receiver (sy_conn s)) demo_fp = Some [1, 2, 3]"
proof -
  obtain s where run: "sys_run leb_api (\<lambda>_. 0) [1, 2, 3] demo_schedule
      \<lparr>sy_client = demo_start_client, sy_conn = demo_start_conn demo_entry_folder\<rparr> = Some s"
    and fin: "cl_finished (sy_client s)"
    using demo_run by blast
  have "index_field_size (length [1, 2, 3 :: u8]) = Inr demo_ci" "ci_last_chunk_size demo_ci \<noteq> 0"
    "login_wf leb_api (client_login [97] (length [1, 2, 3 :: u8]))"
    "length (login_bytes leb_api (client_login [97] (length [1, 2, 3 :: u8]))) \<le> MTU"
    using demo_index_field_size demo_login_wf demo_login_bytes
    by (simp_all add: numeral_3_eq_3 demo_ci_def demo_login_def MTU_def)
  from upload_delivers_file [OF leb_varint_codec _ this _ demo_upload_start sys_run_reaches [OF run] fin]
  have "rc_fs (cn_receiver (sy_conn s)) demo_fp = Some [1, 2, 3]"
    by (simp add: demo_fp_def numeral_3_eq_3)
  then show ?thesis using demo_upload_start sys_run_reaches [OF run] fin by blast
qed

end
