(* ===== verification/Progress.thy ===== *)
theory Progress
  imports Prelude
begin

text \<open>
  What runs of a step relation keep, and how they reach a goal: in every state that satisfies an
  invariant some run leads to the goal or to a smaller state that satisfies it again. The nodes and the
  two protocols of the repository are instances.
\<close>

locale preserved =
  fixes step :: "'s \<Rightarrow> 's \<Rightarrow> bool"
    and inv :: "'s \<Rightarrow> bool"
  assumes kept: "step s s' \<Longrightarrow> inv s \<Longrightarrow> inv s'"
begin

lemma always: "step\<^sup>*\<^sup>* s s' \<Longrightarrow> inv s \<Longrightarrow> inv s'"
  by (induction rule: rtranclp_induct) (auto intro: kept)

end

locale progress =
  fixes step :: "'s \<Rightarrow> 's \<Rightarrow> bool"
    and inv :: "'s \<Rightarrow> bool"
    and goal :: "'s \<Rightarrow> bool"
    and left :: "'s \<Rightarrow> nat"
  assumes round: "inv s \<Longrightarrow> \<not> goal s \<Longrightarrow> \<exists>s'. step\<^sup>*\<^sup>* s s' \<and> (goal s' \<or> inv s' \<and> left s' < left s)"
begin

lemma reaches_goal: "inv s \<Longrightarrow> \<exists>s'. step\<^sup>*\<^sup>* s s' \<and> goal s'"
proof (induction "left s" arbitrary: s rule: less_induct)
  case less
  show ?case
  proof (cases "goal s")
    case False
    then obtain s1 where s1: "step\<^sup>*\<^sup>* s s1" "goal s1 \<or> inv s1 \<and> left s1 < left s"
      using round less.prems by blast
    then show ?thesis using less.hyps [of s1] rtranclp_trans [of step s s1] by blast
  qed blast
qed

end

end
