(* ===== verification/Upload_Liveness.thy ===== *)
theory Upload_Liveness
  imports Upload_Properties Progress
begin

text \<open>
  An upload of version 1 can be completed: from its start, and from every state in which the receiver
  waits for chunks, the bookkeeping of packet times is at rest and a status update is due, some run
  of client, connection and network ends with the client's final packet. One round of the run sends a
  status update, lets the client answer with one missing chunk, and marks it; the number of missing
  chunks decreases.
\<close>

section \<open>Bookkeeping at rest\<close>

text \<open>All packets so far came at time \<open>t\<close>: no gap was measured, and a status update never waits.\<close>

definition calm :: "nat \<Rightarrow> CongestionInfo \<Rightarrow> bool" where
  "calm t c \<longleftrightarrow> \<not> cg_done c \<and> cg_ipt c = 0 \<and> cg_rtt c = 0 \<and> set (cg_ipts c) \<subseteq> {0} \<and>
     length (cg_ipts c) \<le> 10 \<and> cg_last_ipt c \<in> {None, Some t} \<and> cg_last_notify c = t \<and>
     cg_packets_since_last_notify c \<le> 1 \<and> (cg_delay c = None \<longrightarrow> cg_packets_since_last_notify c = 0) \<and>
     t < dur_limit"

definition calm_env :: "nat \<Rightarrow> write_poll \<Rightarrow> recv_poll \<Rightarrow> recv_env" where
  "calm_env t wr rv = \<lparr>re_now = t, re_delay = DelayReady, re_write = wr, re_recv = rv\<rparr>"

lemma calm_env_simps [simp]:
  "re_now (calm_env t wr rv) = t" "re_delay (calm_env t wr rv) = DelayReady"
  "re_write (calm_env t wr rv) = wr" "re_recv (calm_env t wr rv) = rv"
  by (simp_all add: calm_env_def)

lemma update_delay_calm:
  assumes "cg_ipt c = 0" and "cg_rtt c = 0" and "cg_last_notify c < dur_limit"
  shows "update_delay np c = Inr (c\<lparr>cg_delay := Some (cg_last_notify c)\<rparr>)"
  using assms by (simp add: update_delay_def dur_mul_def dur_add_def)

lemma ipt_shift_calm:
  assumes "cg_ipt c = 0" and "set (cg_ipts c) \<subseteq> {0}" and "length (cg_ipts c) \<le> 10" and "0 < dur_limit"
  shows "ipt_shift c = Inr (c\<lparr>cg_ipts := (if length (cg_ipts c) = 10 then tl (cg_ipts c) else cg_ipts c)\<rparr>)"
proof -
  have "hd (cg_ipts c) = 0" if "length (cg_ipts c) = 10"
    using assms(2) that by (cases "cg_ipts c") auto
  then show ?thesis using assms by (auto simp: ipt_shift_def dur_mul_def dur_div_def dur_sub_def)
qed

lemma ipt_packet_calm:
  assumes "calm t c" and "cg_packets_since_last_notify c = 0"
  shows "\<exists>c' b. ipt_packet np t c = Inr (c', b) \<and> calm t c' \<and> cg_last_ipt c' = Some t \<and>
    (cg_last_ipt c = Some t \<longrightarrow> cg_delay c' \<noteq> None) \<and> (cg_delay c \<noteq> None \<longrightarrow> cg_delay c' \<noteq> None)"
proof (cases "cg_last_ipt c")
  case None
  then show ?thesis using assms by (auto simp: ipt_packet_def calm_def)
next
  case (Some old)
  then have old: "old = t" using assms(1) by (auto simp: calm_def)
  let ?c1 = "c\<lparr>cg_last_ipt := Some t\<rparr>"
  let ?ipts = "if length (cg_ipts c) = 10 then tl (cg_ipts c) else cg_ipts c"
  have "set (tl (cg_ipts c)) \<subseteq> set (cg_ipts c)" by (cases "cg_ipts c") auto
  then have ipts: "set ?ipts \<subseteq> {0}" "length ?ipts < 10" using assms(1) by (auto simp: calm_def)
  have "ipt_shift ?c1 = Inr (?c1\<lparr>cg_ipts := ?ipts\<rparr>)"
    using assms(1) ipt_shift_calm [of ?c1] by (simp add: calm_def)
  then show ?thesis
    using assms ipts Some old
      update_delay_calm [of "?c1\<lparr>cg_ipts := ?ipts @ [0], cg_ipt := 0\<rparr>" np]
    by (auto simp: ipt_packet_def calm_def dur_sub_def dur_div_def dur_add_def Let_def)
qed

text \<open>A poll of the bookkeeping asks for a status update as soon as two packets came.\<close>

lemma poll_congestion_calm:
  assumes "calm t (rc_congestion r)"
  shows "\<exists>c ms. poll_congestion np (calm_env t wr rv) r = Inr (r\<lparr>rc_congestion := c, rc_tx := rc_tx r @ ms\<rparr>) \<and>
    calm t c \<and> cg_packets_since_last_notify c = 0 \<and> cg_last_ipt c = cg_last_ipt (rc_congestion r) \<and>
    (cg_delay c = None \<longleftrightarrow> cg_delay (rc_congestion r) = None) \<and>
    (cg_delay (rc_congestion r) \<noteq> None \<longrightarrow> UploadStatus \<in> set ms)"
proof (cases "cg_delay (rc_congestion r)")
  case None
  then show ?thesis
    using assms
    by (intro exI [of _ "rc_congestion r"] exI [of _ "[]"])
      (auto simp: poll_congestion_def CongestionInfo_poll_def calm_def)
next
  case (Some d)
  let ?c = "(rc_congestion r)\<lparr>cg_packets_since_last_notify := 0, cg_last_notify := t, cg_delay := Some t\<rparr>"
  have "notify_now np t (rc_congestion r) = Inr (Ready (Some ()), ?c)"
    using assms update_delay_calm [of "(rc_congestion r)\<lparr>cg_packets_since_last_notify := 0, cg_last_notify := t\<rparr>" np]
    by (simp add: notify_now_def calm_def)
  then have cp: "CongestionInfo_poll np t DelayReady (rc_congestion r) = Inr (Ready (Some ()), ?c)"
    using Some assms by (simp add: CongestionInfo_poll_def calm_def)
  have "poll_congestion np (calm_env t wr rv) r =
      Inr (r\<lparr>rc_congestion := ?c, rc_tx := rc_tx r @ [UploadStatus]\<rparr>)"
    unfolding poll_congestion_def calm_env_simps cp
    by (simp only: bindE_Inr prod.case async.case option.case unit.case Let_def) simp
  moreover have "calm t ?c" using assms by (simp add: calm_def)
  ultimately show ?thesis
    using Some by (intro exI [of _ ?c] exI [of _ "[UploadStatus]"]) simp
qed

section \<open>The receiver makes progress\<close>

lemma takes_packet:
  assumes up: "upload_ok ci src fp bp" and inv: "recv_inv ci src fp bp r"
    and st: "rc_state r = WaitForChunk st" and calm: "calm t (rc_congestion r)" and k: "k < ci_num_chunks ci"
  shows "\<exists>r'. Receiver_poll np (calm_env t wr (RecvData (data_packet ci src k))) r = Inr (Ready (Some ()), r') \<and>
    calm t (rc_congestion r') \<and> cg_last_ipt (rc_congestion r') = Some t \<and>
    (cg_last_ipt (rc_congestion r) = Some t \<longrightarrow> cg_delay (rc_congestion r') \<noteq> None) \<and>
    rc_bitmap r' = rc_bitmap r \<and>
    (if bit_at (rc_bitmap r) k then \<exists>st'. rc_state r' = WaitForChunk st'
     else \<exists>w. rc_state r' = WritingChunk w \<and> ch_index (wc_chunk w) = k \<and> wc_written w = 0)"
proof -
  obtain c ms where c: "poll_congestion np (calm_env t wr (RecvData (data_packet ci src k))) r =
      Inr (r\<lparr>rc_congestion := c, rc_tx := rc_tx r @ ms\<rparr>)"
    "calm t c" "cg_packets_since_last_notify c = 0" "cg_last_ipt c = cg_last_ipt (rc_congestion r)"
    using poll_congestion_calm [OF calm] by blast
  let ?r1 = "r\<lparr>rc_congestion := c, rc_tx := rc_tx r @ ms\<rparr>"
  obtain c' b where c': "ipt_packet np t c = Inr (c', b)" "calm t c'" "cg_last_ipt c' = Some t"
    "cg_last_ipt c = Some t \<longrightarrow> cg_delay c' \<noteq> None"
    using ipt_packet_calm [OF c(2,3), of np] by blast
  have ci: "wf_chunk_info st = ci" using inv st by (simp add: recv_inv_def)
  have "genuine ci src (data_packet ci src k)" using k by (auto simp: genuine_def)
  then have buf: "recv_buf (wf_buf st) (data_packet ci src k) = data_packet ci src k"
    using length_genuine [OF up] recv_buf_id by blast
  have get: "BitMap_get (rc_bitmap r) k = Inr (bit_at (rc_bitmap r) k)"
    using bm.get_view [of "rc_bitmap r" k] inv k by (auto simp: recv_inv_def stored_def)
  have dec: "Chunk_decode (data_packet ci src k) (ci_index_field_size ci) =
      Inr \<lparr>ch_index_field_size = ci_index_field_size ci, ch_index = k, ch_buf = data_packet ci src k\<rparr>"
    using decode_header [OF up, of k] k by (simp add: data_packet_def)
  have idx: "wrapping_sub64 k (ci_num_chunks ci) \<noteq> 0" using wrapping_index [OF up, of k] k by simp
  note off = chunk_offset [OF up k]
  show ?thesis
    using c(1,4) c' st ci buf get dec idx off
    by (cases "bit_at (rc_bitmap r) k")
      (simp_all add: Receiver_poll_def poll_writing_def poll_recv_state_def Receiver_chunk_def Let_def)
qed

lemma chunk_written_ok:
  assumes "bm_ok (rc_bitmap r)" and "ch_index (wc_chunk w) < bm_num_bits (rc_bitmap r)"
  shows "\<exists>r'. chunk_written w f r = Inr r' \<and> rc_congestion r' = rc_congestion r \<and>
    (\<exists>st. rc_state r' = WaitForChunk st) \<and>
    bits (rc_bitmap r') = (bits (rc_bitmap r))[ch_index (wc_chunk w) := True]"
proof -
  obtain m where "BitMap_set (rc_bitmap r) (ch_index (wc_chunk w)) True = Inr (bit_at (rc_bitmap r) (ch_index (wc_chunk w)), m)"
    "bits m = (bits (rc_bitmap r))[ch_index (wc_chunk w) := True]"
    using BitMap_set_ok [OF assms] by blast
  then show ?thesis by (simp add: chunk_written_def Let_def)
qed

lemma takes_write:
  assumes inv: "recv_inv ci src fp bp r"
    and st: "rc_state r = WritingChunk w" and calm: "calm t (rc_congestion r)"
  shows "\<exists>r'. Receiver_poll np (calm_env t (WBytes (length src)) RecvNotReady) r = Inr (NotReady, r') \<and>
    calm t (rc_congestion r') \<and> cg_last_ipt (rc_congestion r') = cg_last_ipt (rc_congestion r) \<and>
    (\<exists>st'. rc_state r' = WaitForChunk st') \<and>
    bits (rc_bitmap r') = (bits (rc_bitmap r))[ch_index (wc_chunk w) := True]"
proof -
  let ?d = "chunk_data ci src (ch_index (wc_chunk w))"
  obtain c ms where c: "poll_congestion np (calm_env t (WBytes (length src)) RecvNotReady) r =
      Inr (r\<lparr>rc_congestion := c, rc_tx := rc_tx r @ ms\<rparr>)"
    "calm t c" "cg_last_ipt c = cg_last_ipt (rc_congestion r)"
    using poll_congestion_calm [OF calm] by blast
  let ?r1 = "r\<lparr>rc_congestion := c, rc_tx := rc_tx r @ ms\<rparr>"
  have w: "Chunk_as_ref (wc_chunk w) = Inr ?d"
    and ok: "bm_ok (rc_bitmap r)" "ch_index (wc_chunk w) < bm_num_bits (rc_bitmap r)"
    using inv st by (auto simp: recv_inv_def stored_def writing_ok_def Let_def Chunk_as_ref_def data_packet_def)
  have len: "length (drop (wc_written w) ?d) \<le> length src" by (simp add: length_chunk_data)
  have "\<exists>r'. poll_writing (calm_env t (WBytes (length src)) RecvNotReady) ?r1 = Inr (Ready (), r') \<and>
    rc_congestion r' = c \<and> (\<exists>st. rc_state r' = WaitForChunk st) \<and>
    bits (rc_bitmap r') = (bits (rc_bitmap r))[ch_index (wc_chunk w) := True]"
  proof (cases "drop (wc_written w) ?d = []")
    case True
    obtain r' where "chunk_written w (wc_file w) ?r1 = Inr r'" "rc_congestion r' = c"
      "\<exists>st. rc_state r' = WaitForChunk st"
      "bits (rc_bitmap r') = (bits (rc_bitmap r))[ch_index (wc_chunk w) := True]"
      using chunk_written_ok [of ?r1 w "wc_file w"] ok by auto
    then show ?thesis using st w True by (simp add: poll_writing_def)
  next
    case False
    obtain fs' file' where fw: "file_write (rc_fs r) (wc_file w) (take (length src) (drop (wc_written w) ?d)) = (fs', file')"
      by (cases "file_write (rc_fs r) (wc_file w) (take (length src) (drop (wc_written w) ?d))")
    obtain r' where "chunk_written w file' (?r1\<lparr>rc_fs := fs'\<rparr>) = Inr r'" "rc_congestion r' = c"
      "\<exists>st. rc_state r' = WaitForChunk st"
      "bits (rc_bitmap r') = (bits (rc_bitmap r))[ch_index (wc_chunk w) := True]"
      using chunk_written_ok [of "?r1\<lparr>rc_fs := fs'\<rparr>" w file'] ok by auto
    then show ?thesis using st w False len fw by (simp add: poll_writing_def)
  qed
  then obtain r' where "poll_writing (calm_env t (WBytes (length src)) RecvNotReady) ?r1 = Inr (Ready (), r')"
    "rc_congestion r' = c" "\<exists>st. rc_state r' = WaitForChunk st"
    "bits (rc_bitmap r') = (bits (rc_bitmap r))[ch_index (wc_chunk w) := True]" by blast
  then show ?thesis using c by (auto simp: Receiver_poll_def poll_recv_state_def)
qed

lemma idle_poll:
  assumes st: "rc_state r = WaitForChunk st" and calm: "calm t (rc_congestion r)"
  shows "\<exists>r'. Receiver_poll np (calm_env t wr RecvNotReady) r = Inr (NotReady, r') \<and>
    calm t (rc_congestion r') \<and> (\<exists>st'. rc_state r' = WaitForChunk st') \<and> rc_bitmap r' = rc_bitmap r \<and>
    (cg_delay (rc_congestion r) \<noteq> None \<longrightarrow> UploadStatus \<in> set (rc_tx r'))"
proof -
  obtain c ms where c: "poll_congestion np (calm_env t wr RecvNotReady) r =
      Inr (r\<lparr>rc_congestion := c, rc_tx := rc_tx r @ ms\<rparr>)" "calm t c"
    "cg_delay (rc_congestion r) \<noteq> None \<longrightarrow> UploadStatus \<in> set ms"
    using poll_congestion_calm [OF calm] by blast
  then show ?thesis using st by (auto simp: Receiver_poll_def poll_writing_def poll_recv_state_def)
qed

section \<open>The connection makes progress\<close>

definition resting :: "nat \<Rightarrow> Conn \<Rightarrow> bool" where
  "resting t cn \<longleftrightarrow> \<not> cn_ended cn \<and> calm t (rc_congestion (cn_receiver cn)) \<and>
     (\<exists>st. rc_state (cn_receiver cn) = WaitForChunk st) \<and> sn_state (cn_sender cn) = Waiting"

text \<open>A poll of the receiving half whose receiver has something, or not yet.\<close>

lemma conn_receive_step:
  assumes "Receiver_poll np (calm_env t wr rv) (cn_receiver cn) = Inr (a, r)" and "\<not> cn_ended cn"
    and "a = NotReady \<or> a = Ready (Some ())" and "\<forall>d. rv = RecvData d \<longrightarrow> d \<in> net"
  shows "\<exists>cn'. conn_step V np net cn cn' \<and> cn_receiver cn' = r \<and> cn_sender cn' = cn_sender cn \<and> \<not> cn_ended cn'"
proof -
  have "\<exists>cn'. conn_receive np (calm_env t wr rv) (\<lambda>_. IvNotReady) cn = Inr cn' \<and> cn_receiver cn' = r \<and>
      cn_sender cn' = cn_sender cn \<and> \<not> cn_ended cn'"
    using assms(1-3) by (auto simp: conn_receive_def TimeoutStream_poll_def stream_ends_def)
  then show ?thesis using assms(2,4) conn_step.receive [of cn "calm_env t wr rv" net np "\<lambda>_. IvNotReady"] by auto
qed

lemma conn_takes:
  assumes up: "upload_ok ci src fp bp" and inv: "recv_inv ci src fp bp (cn_receiver cn)"
    and rest: "resting t cn" and k: "k < ci_num_chunks ci" "data_packet ci src k \<in> net"
  shows "\<exists>cn'. (conn_step V np net)\<^sup>*\<^sup>* cn cn' \<and> resting t cn' \<and>
    bits (rc_bitmap (cn_receiver cn')) = (bits (rc_bitmap (cn_receiver cn)))[k := True] \<and>
    cg_last_ipt (rc_congestion (cn_receiver cn')) = Some t \<and>
    (cg_last_ipt (rc_congestion (cn_receiver cn)) = Some t \<longrightarrow> bit_at (rc_bitmap (cn_receiver cn)) k \<longrightarrow>
      cg_delay (rc_congestion (cn_receiver cn')) \<noteq> None)"
proof -
  let ?r = "cn_receiver cn" and ?e = "calm_env t (WBytes 0) (RecvData (data_packet ci src k))"
  obtain st where st: "rc_state ?r = WaitForChunk st" and calm: "calm t (rc_congestion ?r)"
    and open': "\<not> cn_ended cn" and w: "sn_state (cn_sender cn) = Waiting"
    using rest by (auto simp: resting_def)
  obtain r1 where r1: "Receiver_poll np ?e ?r = Inr (Ready (Some ()), r1)" "calm t (rc_congestion r1)"
    "cg_last_ipt (rc_congestion r1) = Some t"
    "cg_last_ipt (rc_congestion ?r) = Some t \<longrightarrow> cg_delay (rc_congestion r1) \<noteq> None"
    "rc_bitmap r1 = rc_bitmap ?r"
    "if bit_at (rc_bitmap ?r) k then \<exists>st'. rc_state r1 = WaitForChunk st'
     else \<exists>w. rc_state r1 = WritingChunk w \<and> ch_index (wc_chunk w) = k \<and> wc_written w = 0"
    using takes_packet [OF up inv st calm k(1)] by blast
  obtain cn1 where s1: "conn_step V np net cn cn1" and cn1: "cn_receiver cn1 = r1" "\<not> cn_ended cn1"
    "sn_state (cn_sender cn1) = Waiting"
    using conn_receive_step [OF r1(1) open', of net V] k(2) w by auto
  show ?thesis
  proof (cases "bit_at (rc_bitmap ?r) k")
    case True
    have "k < length (bits (rc_bitmap ?r))" "bits (rc_bitmap ?r) ! k"
      using inv k(1) True by (simp_all add: recv_inv_def stored_def)
    then have "(bits (rc_bitmap ?r))[k := True] = bits (rc_bitmap ?r)" by (metis list_update_id)
    then show ?thesis
      using s1 cn1 r1 True by (intro exI [of _ cn1]) (auto simp: resting_def)
  next
    case False
    then obtain w' where w': "rc_state r1 = WritingChunk w'" "ch_index (wc_chunk w') = k" using r1(6) by auto
    have "genuine ci src (data_packet ci src k)" using k(1) by (auto simp: genuine_def)
    then have "recv_inv ci src fp bp r1"
      using Receiver_poll_inv [OF up inv _ r1(1)] by (simp add: genuine_env_def)
    from takes_write [OF this w'(1) r1(2)] obtain r2 where
      r2: "Receiver_poll np (calm_env t (WBytes (length src)) RecvNotReady) r1 = Inr (NotReady, r2)"
      "calm t (rc_congestion r2)" "cg_last_ipt (rc_congestion r2) = cg_last_ipt (rc_congestion r1)"
      "\<exists>st'. rc_state r2 = WaitForChunk st'" "bits (rc_bitmap r2) = (bits (rc_bitmap r1))[k := True]"
      using w'(2) by blast
    obtain cn2 where s2: "conn_step V np net cn1 cn2" and "cn_receiver cn2 = r2" "\<not> cn_ended cn2"
      "sn_state (cn_sender cn2) = Waiting"
      using conn_receive_step [of np t "WBytes (length src)" RecvNotReady cn1 NotReady r2 net V] r2(1) cn1 by auto
    moreover have "(conn_step V np net)\<^sup>*\<^sup>* cn cn2"
      using s1 s2 by (meson converse_rtranclp_into_rtranclp rtranclp.rtrancl_refl)
    ultimately show ?thesis
      using r2 r1(3,5) False by (intro exI [of _ cn2]) (auto simp: resting_def)
  qed
qed

text \<open>A repeated packet makes a status update due.\<close>

lemma conn_asks:
  assumes up: "upload_ok ci src fp bp" and inv: "recv_inv ci src fp bp (cn_receiver cn)"
    and rest: "resting t cn" and k: "k < ci_num_chunks ci" "data_packet ci src k \<in> net"
    and marked: "bit_at (rc_bitmap (cn_receiver cn)) k" and seen: "cg_last_ipt (rc_congestion (cn_receiver cn)) = Some t"
  shows "\<exists>cn'. (conn_step V np net)\<^sup>*\<^sup>* cn cn' \<and> resting t cn' \<and>
    bits (rc_bitmap (cn_receiver cn')) = bits (rc_bitmap (cn_receiver cn)) \<and>
    UploadStatus \<in> set (rc_tx (cn_receiver cn'))"
proof -
  obtain cn1 where cn1: "(conn_step V np net)\<^sup>*\<^sup>* cn cn1" "resting t cn1"
    "bits (rc_bitmap (cn_receiver cn1)) = (bits (rc_bitmap (cn_receiver cn)))[k := True]"
    "cg_delay (rc_congestion (cn_receiver cn1)) \<noteq> None"
    using conn_takes [OF up inv rest k] marked seen by blast
  have "k < length (bits (rc_bitmap (cn_receiver cn)))" "bits (rc_bitmap (cn_receiver cn)) ! k"
    using inv k(1) marked by (simp_all add: recv_inv_def stored_def)
  then have same: "bits (rc_bitmap (cn_receiver cn1)) = bits (rc_bitmap (cn_receiver cn))"
    unfolding cn1(3) by (metis list_update_id)
  obtain st where st: "rc_state (cn_receiver cn1) = WaitForChunk st" "calm t (rc_congestion (cn_receiver cn1))"
    "\<not> cn_ended cn1" "sn_state (cn_sender cn1) = Waiting"
    using cn1(2) by (auto simp: resting_def)
  from idle_poll [OF st(1,2)] obtain r where r:
    "Receiver_poll np (calm_env t (WBytes 0) RecvNotReady) (cn_receiver cn1) = Inr (NotReady, r)"
    "calm t (rc_congestion r)" "\<exists>st'. rc_state r = WaitForChunk st'" "rc_bitmap r = rc_bitmap (cn_receiver cn1)"
    "UploadStatus \<in> set (rc_tx r)"
    using cn1(4) by blast
  obtain cn2 where "conn_step V np net cn1 cn2" "cn_receiver cn2 = r" "\<not> cn_ended cn2"
    "sn_state (cn_sender cn2) = Waiting"
    using conn_receive_step [OF r(1) st(3), of net V] st(4) by auto
  then show ?thesis
    using cn1(1) r same by (intro exI [of _ cn2]) (auto simp: resting_def)
qed

text \<open>Forwarding the messages of the channel one by one, each flushed to the network.\<close>

definition told :: "varint_api \<Rightarrow> Conn \<Rightarrow> bool" where
  "told V cn \<longleftrightarrow> (\<exists>vec pkt. status_packet V (rc_bitmap (cn_receiver cn)) vec = Inr pkt \<and> pkt \<in> set (cn_out cn))"

context varint_codec
begin

lemma conn_tells_one:
  assumes up: "upload_ok ci src fp bp" and inv: "conn_inv V ci src fp bp cn" and rest: "resting t cn"
    and tx: "rc_tx (cn_receiver cn) = it # q"
  shows "\<exists>cn'. (conn_step V np net)\<^sup>*\<^sup>* cn cn' \<and> resting t cn' \<and>
    cn_receiver cn' = (cn_receiver cn)\<lparr>rc_tx := q\<rparr> \<and> set (cn_out cn) \<subseteq> set (cn_out cn') \<and>
    (it = UploadStatus \<longrightarrow> told V cn')"
proof -
  let ?r = "cn_receiver cn" and ?s = "cn_sender cn"
  have w: "sn_state ?s = Waiting" and open': "\<not> cn_ended cn" using rest by (simp_all add: resting_def)
  have m: "bm_ok (rc_bitmap ?r)" "bm_num_bits (rc_bitmap ?r) < 2 ^ 60"
    using inv num_chunks_small [OF up] by (auto simp: conn_inv_def recv_inv_def stored_def)
  have co: "it = UploadStart \<longleftrightarrow> \<not> sn_bitmap ?s"
    using inv tx by (auto simp: conn_inv_def channel_ok_def split: if_splits)
  obtain pkt where pkt: "status_packet V (rc_bitmap ?r) (sn_vec ?s) = Inr pkt"
    using status_packet_exact [OF m] by blast
  let ?s' = "if it = UploadStart then ?s\<lparr>sn_bitmap := True\<rparr> else ?s\<lparr>sn_vec := pkt, sn_state := Sending\<rparr>"
  have start: "Sender_start_send V (rc_bitmap ?r) SendNotReady it ?s = Inr (SinkReady, ?s')"
    using w co pkt by (cases it) (simp_all add: Sender_start_send_def)
  have "\<exists>cn1. conn_forward V SendNotReady (\<lambda>_. IvNotReady) cn = Inr cn1 \<and> \<not> cn_ended cn1 \<and>
      cn_receiver cn1 = ?r\<lparr>rc_tx := q\<rparr> \<and> cn_sender cn1 = ?s' \<and> cn_out cn1 = cn_out cn"
    using start tx open' w
    by (simp add: conn_forward_def TimeoutStream_poll_def stream_ends_def sent_by_def Let_def)
  then obtain cn1 where cn1: "conn_forward V SendNotReady (\<lambda>_. IvNotReady) cn = Inr cn1" "\<not> cn_ended cn1"
      "cn_receiver cn1 = ?r\<lparr>rc_tx := q\<rparr>" "cn_sender cn1 = ?s'" "cn_out cn1 = cn_out cn"
    by blast
  then have s1: "conn_step V np net cn cn1" using open' by (intro conn_step.forward)
  let ?cn2 = "cn1\<lparr>cn_sender := ?s'\<lparr>sn_state := Waiting\<rparr>, cn_out := cn_out cn @ (if it = UploadStatus then [pkt] else [])\<rparr>"
  have "conn_flush (SendWritten (length pkt)) cn1 = Inr ?cn2"
    using cn1(4,5) w by (cases it) (simp_all add: conn_flush_def Sender_poll_complete_def sent_by_def)
  then have "conn_step V np net cn1 ?cn2" using cn1(2) by (intro conn_step.flush)
  with s1 have "(conn_step V np net)\<^sup>*\<^sup>* cn ?cn2"
    by (meson converse_rtranclp_into_rtranclp rtranclp.rtrancl_refl)
  moreover have "resting t ?cn2" using rest cn1 by (auto simp: resting_def)
  ultimately show ?thesis
    using cn1(3,5) pkt by (intro exI [of _ ?cn2]) (auto simp: told_def)
qed

lemma conn_inv_steps:
  assumes "(conn_step V np net)\<^sup>*\<^sup>* cn cn'" and "upload_ok ci src fp bp" and "conn_inv V ci src fp bp cn"
    and "\<forall>d \<in> net. genuine ci src d"
  shows "conn_inv V ci src fp bp cn'"
  using assms(1)
proof (induction rule: rtranclp_induct)
  case base
  show ?case by (rule assms(3))
next
  case (step y z)
  then show ?case using conn_inv_step [OF step.hyps(2) assms(2) _ assms(4)] by blast
qed

lemma conn_tells:
  assumes "upload_ok ci src fp bp" and "conn_inv V ci src fp bp cn" and "resting t cn"
    and "\<forall>d \<in> net. genuine ci src d"
  shows "\<exists>cn'. (conn_step V np net)\<^sup>*\<^sup>* cn cn' \<and> resting t cn' \<and>
    rc_bitmap (cn_receiver cn') = rc_bitmap (cn_receiver cn) \<and>
    rc_congestion (cn_receiver cn') = rc_congestion (cn_receiver cn) \<and>
    (UploadStatus \<in> set (rc_tx (cn_receiver cn)) \<or> told V cn \<longrightarrow> told V cn')"
  using assms(2,3)
proof (induction "rc_tx (cn_receiver cn)" arbitrary: cn)
  case Nil
  then show ?case by (intro exI [of _ cn]) auto
next
  case (Cons it q)
  obtain cn1 where cn1: "(conn_step V np net)\<^sup>*\<^sup>* cn cn1" "resting t cn1"
    "cn_receiver cn1 = (cn_receiver cn)\<lparr>rc_tx := q\<rparr>" "set (cn_out cn) \<subseteq> set (cn_out cn1)"
    "it = UploadStatus \<longrightarrow> told V cn1"
    using conn_tells_one [OF assms(1) Cons.prems Cons.hyps(2) [symmetric]] by blast
  moreover have "conn_inv V ci src fp bp cn1"
    using conn_inv_steps [OF cn1(1) assms(1) Cons.prems(1) assms(4)] .
  ultimately obtain cn2 where "(conn_step V np net)\<^sup>*\<^sup>* cn1 cn2" "resting t cn2"
    "rc_bitmap (cn_receiver cn2) = rc_bitmap (cn_receiver cn1)"
    "rc_congestion (cn_receiver cn2) = rc_congestion (cn_receiver cn1)"
    "UploadStatus \<in> set (rc_tx (cn_receiver cn1)) \<or> told V cn1 \<longrightarrow> told V cn2"
    using Cons.hyps(1) [of cn1] by auto
  moreover have "told V cn \<longrightarrow> told V cn1" using cn1(3,4) by (auto simp: told_def)
  ultimately show ?case
    using cn1 rtranclp_trans [OF cn1(1)] unfolding Cons.hyps(2) [symmetric]
    by (intro exI [of _ cn2]) auto
qed

end

section \<open>The client answers\<close>

lemma client_next_sends:
  assumes inv: "client_inv src c" and "pending (cl_missing c) \<noteq> {}"
  shows "\<exists>c' chunk off. client_next buf c = Inr c' \<and> cl_send c' = SendChunk chunk off \<and>
    ch_index chunk \<in> pending (cl_missing c) \<and> cl_out c' = cl_out c \<and> cl_finished c' = cl_finished c"
proof -
  have "finite (pending (cl_missing c))" by (simp add: pending_def)
  then have "Min (pending (cl_missing c)) \<in> pending (cl_missing c)" using assms(2) by (intro Min_in)
  moreover obtain cs mr chunk off where "do_chunk (cl_chunk_info c) (cl_missing c) buf = Inr (cs, mr)"
    "cs = SendChunk chunk off" "ch_index chunk = Min (pending (cl_missing c))"
    using do_chunk_spec [of "length src" "cl_chunk_info c" "cl_missing c" buf] inv assms(2)
    by (auto simp: client_inv_def)
  ultimately show ?thesis by (simp add: client_next_def)
qed

text \<open>An answer to a status update takes one datagram of an idle client, two of a busy one.\<close>

lemma client_answers:
  assumes inv: "client_inv src c" and len: "length d \<le> MTU"
    and parse: "parse_status_update V (cl_missing c) d = Inr (False, mr)"
    and mr: "missing_ok (cl_chunk_info c) mr" "pending mr \<noteq> {}"
  shows "\<exists>c1. client_step V src (StatusUpdate d) c = Inr c1 \<and> cl_finished c1 = cl_finished c \<and>
    ((\<exists>chunk off. cl_send c1 = SendChunk chunk off \<and> ch_index chunk \<in> pending mr) \<or>
     (\<exists>chunk off c2. cl_send c1 = SendChunk chunk off \<and> client_step V src ChunkSent c1 = Inr c2 \<and>
        cl_finished c2 = cl_finished c \<and>
        (\<exists>chunk' off'. cl_send c2 = SendChunk chunk' off' \<and> ch_index chunk' \<in> pending mr)))"
proof -
  let ?buf = "overwrite (cl_recv_buf c) 0 d"
  let ?c1 = "c\<lparr>cl_recv_buf := ?buf, cl_missing := mr\<rparr>"
  have buf: "recv_dgram (cl_recv_buf c) d = (?buf, length d)" "length ?buf = MTU"
    "slice_to ?buf (length d) = Inr d"
    using recv_dgram_fits [of "cl_recv_buf c" d] inv len by (simp_all add: client_inv_def)
  have inv1: "client_inv src ?c1" using inv buf(2) mr by (simp add: client_inv_def)
  show ?thesis
  proof (cases "cl_send c")
    case (SendIdle b)
    obtain c' chunk off where "client_next b ?c1 = Inr c'" "cl_send c' = SendChunk chunk off"
      "ch_index chunk \<in> pending mr" "cl_finished c' = cl_finished c"
      using client_next_sends [OF inv1, of b] mr(2) by auto
    then show ?thesis using SendIdle buf parse by (simp add: client_step_def Let_def)
  next
    case (SendChunk chunk off)
    let ?p = "client_packet (cl_chunk_info c) src (ch_index chunk)"
    let ?c2 = "?c1\<lparr>cl_out := cl_out c @ [?p]\<rparr>"
    have "client_inv src ?c2" using inv1 by (simp add: client_inv_def)
    then obtain c' chunk' off' where "client_next ?p ?c2 = Inr c'" "cl_send c' = SendChunk chunk' off'"
      "ch_index chunk' \<in> pending mr" "cl_finished c' = cl_finished c"
      using client_next_sends [of src ?c2 ?p] mr(2) by auto
    moreover have "send_chunk src chunk off = Inr ?p"
      using send_chunk_packet [of src "cl_chunk_info c" chunk off] inv SendChunk by (simp add: client_inv_def)
    ultimately have "client_step V src ChunkSent ?c1 = Inr c'"
      using SendChunk by (simp add: client_step_def)
    moreover have "client_step V src (StatusUpdate d) c = Inr ?c1"
      using SendChunk buf parse by (simp add: client_step_def Let_def)
    ultimately show ?thesis
      using SendChunk \<open>cl_send c' = SendChunk chunk' off'\<close> \<open>ch_index chunk' \<in> pending mr\<close>
        \<open>cl_finished c' = cl_finished c\<close> by auto
  qed
qed

section \<open>A round of the system\<close>

definition upload_due ::
    "varint_api \<Rightarrow> ChunkInfo \<Rightarrow> u8 list \<Rightarrow> u8 list list \<Rightarrow> u8 list list \<Rightarrow> nat \<Rightarrow> System \<Rightarrow> bool" where
  "upload_due V ci src fp bp t s \<longleftrightarrow>
     varint_codec V \<and> upload_ok ci src fp bp \<and> ci_last_chunk_size ci \<noteq> 0 \<and> upload_inv V ci src fp bp s \<and>
     resting t (sy_conn s) \<and> UploadStatus \<in> set (rc_tx (cn_receiver (sy_conn s)))"

lemma server_steps:
  assumes "(conn_step V np (set (tl (cl_out (sy_client s)))))\<^sup>*\<^sup>* (sy_conn s) cn"
  shows "(upload_step V np src)\<^sup>*\<^sup>* s (s\<lparr>sy_conn := cn\<rparr>)"
  using assms
proof (induction rule: rtranclp_induct)
  case base
  then show ?case by simp
next
  case (step y z)
  have "upload_step V np src (s\<lparr>sy_conn := y\<rparr>) (s\<lparr>sy_conn := y\<rparr>\<lparr>sy_conn := z\<rparr>)"
    using step.hyps(2) by (intro upload_step.server_moves) simp
  then show ?case using step.IH by (simp add: rtranclp.rtrancl_into_rtrancl)
qed

context varint_codec
begin

lemma upload_inv_steps:
  assumes "(upload_step V np src)\<^sup>*\<^sup>* s s'" and "upload_ok ci src fp bp" and "ci_last_chunk_size ci \<noteq> 0"
    and "upload_inv V ci src fp bp s"
  shows "upload_inv V ci src fp bp s'"
  using assms(1,4)
proof (induction rule: rtranclp_induct)
  case (step y z)
  then show ?case using upload_inv_step [OF step.hyps(2) assms(2,3)] by blast
qed

text \<open>The client sends the chunk it holds.\<close>

lemma client_sends_chunk:
  assumes inv: "upload_inv V ci src fp bp s" and up: "upload_ok ci src fp bp" and last: "ci_last_chunk_size ci \<noteq> 0"
    and open': "\<not> cl_finished (sy_client s)" and sc: "cl_send (sy_client s) = SendChunk chunk off"
  shows "\<exists>c. upload_step V np src s (s\<lparr>sy_client := c\<rparr>) \<and> \<not> cl_finished c \<and>
    client_step V src ChunkSent (sy_client s) = Inr c \<and>
    ch_index chunk < ci_num_chunks ci \<and> data_packet ci src (ch_index chunk) \<in> set (tl (cl_out c))"
proof -
  have ci: "client_inv src (sy_client s)" "cl_chunk_info (sy_client s) = ci" "cl_out (sy_client s) \<noteq> []"
    using inv by (simp_all add: upload_inv_def)
  obtain c where c: "client_step V src ChunkSent (sy_client s) = Inr c" "cl_finished c = cl_finished (sy_client s)"
    "ch_index chunk < ci_num_chunks ci"
    "cl_out c = cl_out (sy_client s) @ [client_packet ci src (ch_index chunk)]"
    using client_step_sent [OF ci(1), of V] ci(2) sc by auto
  have "client_packet ci src (ch_index chunk) = data_packet ci src (ch_index chunk)"
    using c(3) last up by (intro payload_chunk) (auto simp: upload_ok_def)
  then show ?thesis using c ci(3) open' upload_step.client_sends [of s V src c] by auto
qed

text \<open>A status update has arrived that reports something missing: the client sends one such chunk.\<close>

lemma client_replies:
  assumes inv: "upload_inv V ci src fp bp s" and up: "upload_ok ci src fp bp" and last: "ci_last_chunk_size ci \<noteq> 0"
    and open': "\<not> cl_finished (sy_client s)" and d: "d \<in> set (cn_out (sy_conn s))" "length d \<le> MTU"
    and parse: "parse_status_update V (cl_missing (sy_client s)) d = Inr (False, mr)"
    and mr: "missing_ok ci mr" "pending mr \<noteq> {}"
  shows "\<exists>c i. (upload_step V np src)\<^sup>*\<^sup>* s (s\<lparr>sy_client := c\<rparr>) \<and> \<not> cl_finished c \<and>
    i \<in> pending mr \<and> i < ci_num_chunks ci \<and> data_packet ci src i \<in> set (tl (cl_out c))"
proof -
  have ci: "client_inv src (sy_client s)" "cl_chunk_info (sy_client s) = ci"
    using inv by (simp_all add: upload_inv_def)
  obtain c1 where c1: "client_step V src (StatusUpdate d) (sy_client s) = Inr c1" "\<not> cl_finished c1"
    and alt: "(\<exists>chunk off. cl_send c1 = SendChunk chunk off \<and> ch_index chunk \<in> pending mr) \<or>
     (\<exists>chunk off c2. cl_send c1 = SendChunk chunk off \<and> client_step V src ChunkSent c1 = Inr c2 \<and>
        cl_finished c2 = cl_finished (sy_client s) \<and>
        (\<exists>chunk' off'. cl_send c2 = SendChunk chunk' off' \<and> ch_index chunk' \<in> pending mr))"
    using client_answers [OF ci(1) d(2) parse] mr ci(2) open' by auto
  have s1: "upload_step V np src s (s\<lparr>sy_client := c1\<rparr>)"
    by (rule upload_step.client_hears [OF open' d(1) c1(1)])
  have inv1: "upload_inv V ci src fp bp (s\<lparr>sy_client := c1\<rparr>)"
    using upload_inv_step [OF s1 up last inv] .
  from alt obtain c2 chunk off where c2: "(upload_step V np src)\<^sup>*\<^sup>* s (s\<lparr>sy_client := c2\<rparr>)" "\<not> cl_finished c2"
    "cl_send c2 = SendChunk chunk off" "ch_index chunk \<in> pending mr"
  proof (elim disjE exE conjE)
    fix chunk off
    assume "cl_send c1 = SendChunk chunk off" "ch_index chunk \<in> pending mr"
    then show thesis using that s1 c1(2) by blast
  next
    fix chunk off c2 chunk' off'
    assume a: "cl_send c1 = SendChunk chunk off" "client_step V src ChunkSent c1 = Inr c2"
      "cl_finished c2 = cl_finished (sy_client s)" "cl_send c2 = SendChunk chunk' off'" "ch_index chunk' \<in> pending mr"
    have "upload_step V np src (s\<lparr>sy_client := c1\<rparr>) (s\<lparr>sy_client := c1\<rparr>\<lparr>sy_client := c2\<rparr>)"
      using a(2) c1(2) by (intro upload_step.client_sends) simp_all
    then have "(upload_step V np src)\<^sup>*\<^sup>* s (s\<lparr>sy_client := c2\<rparr>)" using s1 by simp
    then show thesis using that a open' by blast
  qed
  have "upload_inv V ci src fp bp (s\<lparr>sy_client := c2\<rparr>)" using upload_inv_steps [OF c2(1) up last inv] .
  from client_sends_chunk [OF this up last] c2(2,3) obtain c3 where
    "upload_step V np src (s\<lparr>sy_client := c2\<rparr>) (s\<lparr>sy_client := c3\<rparr>)" "\<not> cl_finished c3"
    "ch_index chunk < ci_num_chunks ci" "data_packet ci src (ch_index chunk) \<in> set (tl (cl_out c3))"
    by auto
  then show ?thesis using c2(1,4) by (meson rtranclp.rtrancl_into_rtrancl)
qed

lemma marking_decreases:
  assumes "bm_ok m" and "bm_ok m'" and "bits m' = (bits m)[i := True]" and "i < bm_num_bits m" and "\<not> bit_at m i"
  shows "bm_zeroes m' < bm_zeroes m"
  using assms count_list_update [of i "bits m" True False] by (simp add: bm_ok_def)

text \<open>The server marks a chunk it was sent, and a status update is due again.\<close>

lemma server_marks:
  assumes inv: "upload_inv V ci src fp bp s" and up: "upload_ok ci src fp bp" and last: "ci_last_chunk_size ci \<noteq> 0"
    and rest: "resting t (sy_conn s)"
    and i: "i < ci_num_chunks ci" "data_packet ci src i \<in> set (tl (cl_out (sy_client s)))"
      "\<not> bit_at (rc_bitmap (cn_receiver (sy_conn s))) i"
  shows "\<exists>cn. (upload_step V np src)\<^sup>*\<^sup>* s (s\<lparr>sy_conn := cn\<rparr>) \<and> resting t cn \<and>
    UploadStatus \<in> set (rc_tx (cn_receiver cn)) \<and>
    bm_zeroes (rc_bitmap (cn_receiver cn)) < bm_zeroes (rc_bitmap (cn_receiver (sy_conn s)))"
proof -
  let ?net = "set (tl (cl_out (sy_client s)))"
  have ri: "recv_inv ci src fp bp cn" if "upload_inv V ci src fp bp (s\<lparr>sy_conn := c\<rparr>)" "cn = cn_receiver c" for c cn
    using that by (simp add: upload_inv_def conn_inv_def)
  have ri0: "recv_inv ci src fp bp (cn_receiver (sy_conn s))" using inv by (simp add: upload_inv_def conn_inv_def)
  obtain cn1 where cn1: "(conn_step V np ?net)\<^sup>*\<^sup>* (sy_conn s) cn1" "resting t cn1"
    "bits (rc_bitmap (cn_receiver cn1)) = (bits (rc_bitmap (cn_receiver (sy_conn s))))[i := True]"
    "cg_last_ipt (rc_congestion (cn_receiver cn1)) = Some t"
    using conn_takes [OF up ri0 rest i(1,2)] by blast
  have s1: "upload_inv V ci src fp bp (s\<lparr>sy_conn := cn1\<rparr>)"
    using upload_inv_steps [OF server_steps [OF cn1(1)] up last inv] .
  have n: "bm_num_bits (rc_bitmap (cn_receiver (sy_conn s))) = ci_num_chunks ci"
    "bm_num_bits (rc_bitmap (cn_receiver cn1)) = ci_num_chunks ci"
    using ri0 ri [OF s1 refl] by (simp_all add: recv_inv_def stored_def)
  then have "bit_at (rc_bitmap (cn_receiver cn1)) i"
    using i(1) cn1(3) nth_bits [of i "rc_bitmap (cn_receiver cn1)"] by simp
  from conn_asks [OF up ri [OF s1 refl] cn1(2) i(1,2) this cn1(4)]
  obtain cn2 where cn2: "(conn_step V np ?net)\<^sup>*\<^sup>* cn1 cn2" "resting t cn2"
    "bits (rc_bitmap (cn_receiver cn2)) = bits (rc_bitmap (cn_receiver cn1))"
    "UploadStatus \<in> set (rc_tx (cn_receiver cn2))"
    by blast
  have steps: "(upload_step V np src)\<^sup>*\<^sup>* s (s\<lparr>sy_conn := cn2\<rparr>)"
    using cn1(1) cn2(1) by (intro server_steps) (rule rtranclp_trans)
  have "recv_inv ci src fp bp (cn_receiver cn2)"
    using ri [OF upload_inv_steps [OF steps up last inv] refl] .
  then have "bm_zeroes (rc_bitmap (cn_receiver cn2)) < bm_zeroes (rc_bitmap (cn_receiver (sy_conn s)))"
    using ri0 i cn1(3) cn2(3) n(1) by (intro marking_decreases) (auto simp: recv_inv_def stored_def)
  with steps cn2 show ?thesis by blast
qed

lemma upload_round:
  assumes due: "upload_due V ci src fp bp t s" and open': "\<not> cl_finished (sy_client s)"
  shows "\<exists>s'. (upload_step V np src)\<^sup>*\<^sup>* s s' \<and> (cl_finished (sy_client s') \<or> upload_due V ci src fp bp t s' \<and>
    bm_zeroes (rc_bitmap (cn_receiver (sy_conn s'))) < bm_zeroes (rc_bitmap (cn_receiver (sy_conn s))))"
proof -
  have up: "upload_ok ci src fp bp" and last: "ci_last_chunk_size ci \<noteq> 0" and inv: "upload_inv V ci src fp bp s"
    and rest: "resting t (sy_conn s)" and tx: "UploadStatus \<in> set (rc_tx (cn_receiver (sy_conn s)))"
    using due by (simp_all add: upload_due_def)
  let ?m = "rc_bitmap (cn_receiver (sy_conn s))" and ?net = "set (tl (cl_out (sy_client s)))"
  obtain cn1 where cn1: "(conn_step V np ?net)\<^sup>*\<^sup>* (sy_conn s) cn1" "resting t cn1"
    "rc_bitmap (cn_receiver cn1) = ?m" "told V cn1"
    using conn_tells [of ci src fp bp "sy_conn s" t ?net] up inv rest tx by (auto simp: upload_inv_def)
  let ?s1 = "s\<lparr>sy_conn := cn1\<rparr>"
  note steps1 = server_steps [OF cn1(1)]
  have inv1: "upload_inv V ci src fp bp ?s1" using upload_inv_steps [OF steps1 up last inv] .
  have m: "bm_ok ?m" "bm_num_bits ?m = ci_num_chunks ci" "bm_num_bits ?m < 2 ^ 60"
    using inv num_chunks_small [OF up] by (auto simp: upload_inv_def conn_inv_def recv_inv_def stored_def)
  obtain vec pkt where pkt: "status_packet V ?m vec = Inr pkt" "pkt \<in> set (cn_out cn1)"
    using cn1(3,4) by (auto simp: told_def)
  obtain pkt' mr stop where pkt': "status_packet V ?m vec = Inr pkt'" and "length pkt' \<le> MTU"
    and "parse_status_update V (cl_missing (sy_client s)) pkt' = Inr (BitMap_all ?m, mr)"
    and mr: "mr_cursor mr = 0" "ranges_ok (mr_missing mr)"
      "covered (mr_missing mr) = {i. i < stop \<and> \<not> bits ?m ! i}" "stop \<le> bm_num_bits ?m"
      "BitMap_all ?m \<or> covered (mr_missing mr) \<noteq> {}"
    using status_packet_exact [OF m(1,3), of vec "cl_missing (sy_client s)"] by (elim exE conjE) (rule that)
  moreover have "pkt' = pkt" using pkt(1) pkt' by simp
  ultimately have len: "length pkt \<le> MTU"
    and parse: "parse_status_update V (cl_missing (sy_client s)) pkt = Inr (BitMap_all ?m, mr)" by simp_all
  have "covered (mr_missing mr) \<subseteq> {..<ci_num_chunks ci}"
    unfolding mr(3) using mr(4) m(2) by (auto simp del: nth_bits)
  then have mok: "missing_ok ci mr" using mr(2) unfolding missing_ok_def by blast
  have pend: "pending mr = covered (mr_missing mr)" using mr(1) by (simp add: pending_def)
  have ci: "client_inv src (sy_client s)" "cl_chunk_info (sy_client s) = ci"
    using inv by (simp_all add: upload_inv_def)
  show ?thesis
  proof (cases "BitMap_all ?m")
    case True
    obtain c where "client_step V src (StatusUpdate pkt) (sy_client s) = Inr c" "cl_finished c"
      using client_step_status [OF ci(1) len parse] mok ci(2) True by auto
    then have "upload_step V np src ?s1 (?s1\<lparr>sy_client := c\<rparr>)"
      using open' pkt(2) by (intro upload_step.client_hears) simp_all
    then show ?thesis
      using rtranclp.rtrancl_into_rtrancl [OF steps1] \<open>cl_finished c\<close>
      by (intro exI [of _ "?s1\<lparr>sy_client := c\<rparr>"]) simp
  next
    case False
    then have "parse_status_update V (cl_missing (sy_client ?s1)) pkt = Inr (False, mr)" "pending mr \<noteq> {}"
      using parse mr(5) pend by simp_all
    from client_replies [OF inv1 up last _ _ len this(1) mok this(2), of np] open' pkt(2) obtain c i where
      c: "(upload_step V np src)\<^sup>*\<^sup>* ?s1 (?s1\<lparr>sy_client := c\<rparr>)" "i \<in> pending mr" "i < ci_num_chunks ci"
        "data_packet ci src i \<in> set (tl (cl_out c))"
      by auto
    let ?s2 = "?s1\<lparr>sy_client := c\<rparr>"
    have inv2: "upload_inv V ci src fp bp ?s2" using upload_inv_steps [OF c(1) up last inv1] .
    have "\<not> bit_at ?m i" using c(2,3) m(2) unfolding pend mr(3) by simp
    with server_marks [OF inv2 up last, of t i np] cn1(2,3) c(3,4) obtain cn3 where
      cn3: "(upload_step V np src)\<^sup>*\<^sup>* ?s2 (?s2\<lparr>sy_conn := cn3\<rparr>)" "resting t cn3"
        "UploadStatus \<in> set (rc_tx (cn_receiver cn3))" "bm_zeroes (rc_bitmap (cn_receiver cn3)) < bm_zeroes ?m"
      by auto
    have "(upload_step V np src)\<^sup>*\<^sup>* s (?s2\<lparr>sy_conn := cn3\<rparr>)"
      using steps1 c(1) cn3(1) by (meson rtranclp_trans)
    moreover have "upload_inv V ci src fp bp (?s2\<lparr>sy_conn := cn3\<rparr>)"
      using upload_inv_steps [OF cn3(1) up last inv2] .
    ultimately show ?thesis
      using cn3 due by (intro exI [of _ "?s2\<lparr>sy_conn := cn3\<rparr>"]) (simp add: upload_due_def)
  qed
qed

end

interpretation upload: progress "upload_step V np src" "upload_due V ci src fp bp t"
    "\<lambda>s. cl_finished (sy_client s)" "\<lambda>s. bm_zeroes (rc_bitmap (cn_receiver (sy_conn s)))"
  for V np src ci fp bp t
  by unfold_locales (metis upload_due_def varint_codec.upload_round)

section \<open>The start of an upload\<close>

lemma upload_request_waits:
  "upload_request h req r = Inr r' \<Longrightarrow> rc_congestion r' = rc_congestion r \<and> (\<exists>st. rc_state r' = WaitForChunk st)"
  by (auto simp: upload_request_def bindE_eq_Inr Let_def split: if_splits)

lemma Receiver_new_waits:
  assumes "Receiver_new h now files login = Inr r" and "now < dur_limit"
  shows "calm now (rc_congestion r) \<and> (\<exists>st. rc_state r = WaitForChunk st) \<and> UploadStatus \<in> set (rc_tx r)"
  using assms upload_request_waits
  by (cases "lg_command login")
    (fastforce simp: Receiver_new_def bindE_eq_Inr start_rtt_def CongestionInfo_new_def calm_def Let_def split: if_splits)

lemma upload_reaches_steps: "(upload_step V np src)\<^sup>*\<^sup>* s s' \<Longrightarrow> upload_reaches V np src s s'"
  by (induction rule: rtranclp_induct) (auto intro: upload_reaches.intros)

text \<open>
  C3: A new upload can be completed. From its start, for every file whose length is not a multiple of the
  chunk size, some run of client, server and network ends with a client that has
  learned that everything arrived, and with exactly its file on the server.
\<close>

theorem upload_can_finish:
  assumes "varint_codec V" and "length src < 2 ^ 63" and "now < dur_limit"
    and "index_field_size (length src) = Inr ci" and "ci_last_chunk_size ci \<noteq> 0"
    and "login_wf V (client_login filename (length src))"
    and "length (login_bytes V (client_login filename (length src))) \<le> MTU"
    and "files (server_entry h (client_login filename (length src)) filename ''bitmap'') = None"
    and "upload_start V h now files filename src = Inr s0"
  shows "\<exists>s. upload_reaches V np src s0 s \<and> cl_finished (sy_client s) \<and>
    rc_fs (cn_receiver (sy_conn s)) (server_entry h (client_login filename (length src)) filename ''file'') = Some src"
proof -
  let ?fp = "server_entry h (client_login filename (length src)) filename ''file''"
  let ?bp = "server_entry h (client_login filename (length src)) filename ''bitmap''"
  obtain ci' where ci': "index_field_size (length src) = Inr ci'" "upload_ok ci' src ?fp ?bp"
    "upload_inv V ci' src ?fp ?bp s0"
    using varint_codec.upload_start_inv [OF assms(1,2,6-9)] .
  obtain r where "Receiver_new h now files (client_login filename (length src)) = Inr r"
    "sy_conn s0 = \<lparr>cn_receiver = r, cn_sender = Sender_new, cn_recv_timeout = TimeoutStream_new,
      cn_send_timeout = TimeoutStream_new, cn_out = [], cn_ended = False\<rparr>"
    using varint_codec.upload_start_elim [OF assms(1,2,6,7,9)] .
  with Receiver_new_waits [OF _ assms(3)]
  have "resting now (sy_conn s0)" "UploadStatus \<in> set (rc_tx (cn_receiver (sy_conn s0)))"
    by (auto simp: resting_def Sender_new_def)
  then have "upload_due V ci' src ?fp ?bp now s0"
    using ci' assms(1,4,5) by (simp add: upload_due_def)
  from upload.reaches_goal [OF this, of np] obtain s where
    s: "(upload_step V np src)\<^sup>*\<^sup>* s0 s" "cl_finished (sy_client s)" by blast
  have "upload_inv V ci' src ?fp ?bp s"
    using varint_codec.upload_inv_steps [OF assms(1) s(1) ci'(2) _ ci'(3)] ci'(1) assms(4,5) by simp
  then show ?thesis using s upload_reaches_steps upload_finished [OF ci'(2)] by blast
qed

theorem upload_can_finish_witness:
  "\<exists>s0 s. upload_start leb_api demo_host 0 (\<lambda>_. None) [97] [1, 2, 3] = Inr s0 \<and>
    upload_reaches leb_api (\<lambda>_. 0) [1, 2, 3] s0 s \<and> cl_finished (sy_client s) \<and>
    rc_fs (cn_receiver (sy_conn s)) demo_fp = Some [1, 2, 3]"
proof -
  have "index_field_size (length [1, 2, 3 :: u8]) = Inr demo_ci" "ci_last_chunk_size demo_ci \<noteq> 0"
    "login_wf leb_api (client_login [97] (length [1, 2, 3 :: u8]))"
    "length (login_bytes leb_api (client_login [97] (length [1, 2, 3 :: u8]))) \<le> MTU"
    using demo_index_field_size demo_login_wf demo_login_bytes
    by (simp_all add: numeral_3_eq_3 demo_ci_def demo_login_def MTU_def)
  from upload_can_finish [OF leb_varint_codec _ _ this _ demo_upload_start, of "\<lambda>_. 0"]
  show ?thesis using demo_upload_start by (simp add: demo_fp_def numeral_3_eq_3 dur_limit_def)
qed

end
