(* ===== verification/Server_Run.thy ===== *)
theory Server_Run
  imports Upload_Properties
begin

text \<open>
  The main loop of the version 1 server (\<^verbatim>\<open>run\<close> in \<^verbatim>\<open>v1/csync/src/server/mod.rs\<close>): every datagram of
  the listener becomes a connection, and all connections run side by side on the same files. The
  theorem is that they do not disturb each other: what is true of one connection is true of each.
\<close>

section \<open>The loop\<close>

record 'a CsyncServer =
  sv_listener :: Listener
  sv_fs :: fs
  sv_clients :: "('a \<times> Conn) list"

definition server_run :: "fs \<Rightarrow> 'a CsyncServer" where
  "server_run files = \<lparr>sv_listener = Listener_new, sv_fs = files, sv_clients = []\<rparr>"

text \<open>
  One item of \<^verbatim>\<open>listener.for_each\<close>: the connection is opened, which touches the files, and spawned. An
  undecodable login spawns a future that has failed already; a panic ends the loop.
\<close>

definition server_accept ::
    "varint_api \<Rightarrow> host \<Rightarrow> nat \<Rightarrow> u8 list \<Rightarrow> 'a \<Rightarrow> 'a CsyncServer \<Rightarrow> 'a CsyncServer res" where
  "server_accept V h now d addr s =
     (case Listener_poll (Some (d, addr)) (sv_listener s) of
        (NotReady, l) \<Rightarrow> Inr (s\<lparr>sv_listener := l\<rparr>)
      | (Ready (buf, n, a), l) \<Rightarrow>
          bindE (handle_client V h now (sv_fs s) buf n) (\<lambda>client.
          case client of
            None \<Rightarrow> Inr (s\<lparr>sv_listener := l\<rparr>)
          | Some cn \<Rightarrow> Inr \<lparr>sv_listener = l, sv_fs = rc_fs (cn_receiver cn), sv_clients = sv_clients s @ [(a, cn)]\<rparr>))"

text \<open>The files are the machine's: a connection that moves sees what all connections wrote.\<close>

definition on_files :: "fs \<Rightarrow> Conn \<Rightarrow> Conn" where
  "on_files fs cn = cn\<lparr>cn_receiver := (cn_receiver cn)\<lparr>rc_fs := fs\<rparr>\<rparr>"

text \<open>
  \<open>logins a\<close> and \<open>net a\<close> are the datagrams that may arrive from \<open>a\<close>: the operating system hands those
  of an address that has a connected socket to that socket, the others to the listener.
\<close>

inductive server_step ::
    "varint_api \<Rightarrow> (nat \<Rightarrow> nat) \<Rightarrow> host \<Rightarrow> ('a \<Rightarrow> u8 list set) \<Rightarrow> ('a \<Rightarrow> u8 list set) \<Rightarrow>
      'a CsyncServer \<Rightarrow> 'a CsyncServer \<Rightarrow> bool"
  for V np h logins net where
  accept: "d \<in> logins a \<Longrightarrow> a \<notin> fst ` set (sv_clients s) \<Longrightarrow> server_accept V h now d a s = Inr s' \<Longrightarrow>
    server_step V np h logins net s s'"
| client: "i < length (sv_clients s) \<Longrightarrow> sv_clients s ! i = (a, cn) \<Longrightarrow>
    conn_step V np (net a) (on_files (sv_fs s) cn) cn' \<Longrightarrow>
    server_step V np h logins net s
      (s\<lparr>sv_fs := rc_fs (cn_receiver cn'), sv_clients := (sv_clients s)[i := (a, cn')]\<rparr>)"

section \<open>A receiver touches only its own files\<close>

lemma sync_bitmap_frame: "p \<noteq> bp \<Longrightarrow> sync_bitmap bp m fs p = fs p"
  by (simp add: sync_bitmap_def split: option.split)

lemma chunk_written_frame:
  "chunk_written w f r = Inr r' \<Longrightarrow> p \<noteq> wc_bitmap_path w \<Longrightarrow> rc_fs r' p = rc_fs r p"
  by (auto simp: chunk_written_def bindE_eq_Inr Let_def sync_bitmap_frame)

lemma poll_writing_fs:
  assumes inv: "recv_inv ci src fp bp r" and poll: "poll_writing e r = Inr (a, r')"
    and p: "p \<noteq> fp" "p \<noteq> bp"
  shows "rc_fs r' p = rc_fs r p"
proof (cases "rc_state r")
  case (WritingChunk w)
  have w: "fl_path (wc_file w) = fp" "wc_bitmap_path w = bp"
    using inv WritingChunk by (simp_all add: recv_inv_def handle_ok_def)
  obtain d where d: "Chunk_as_ref (wc_chunk w) = Inr d"
    using poll WritingChunk by (auto simp: poll_writing_def bindE_eq_Inr)
  show ?thesis
  proof (cases "drop (wc_written w) d = []")
    case True
    then show ?thesis
      using poll WritingChunk d w p chunk_written_frame by (auto simp: poll_writing_def bindE_eq_Inr)
  next
    case False
    then obtain n where n: "re_write e = WBytes n"
      using poll WritingChunk d by (cases "re_write e") (auto simp: poll_writing_def)
    obtain fs' f' where fw: "file_write (rc_fs r) (wc_file w) (take n (drop (wc_written w) d)) = (fs', f')"
      by (cases "file_write (rc_fs r) (wc_file w) (take n (drop (wc_written w) d))")
    then have fs': "fs' p = rc_fs r p" using file_write_frame [of p "wc_file w" "rc_fs r"] w p by (metis fst_conv)
    show ?thesis
      using poll WritingChunk d False n fw fs' w p chunk_written_frame [of w f' "r\<lparr>rc_fs := fs'\<rparr>" _ p]
      by (auto simp: poll_writing_def bindE_eq_Inr Let_def split: if_splits)
  qed
qed (use poll in \<open>auto simp: poll_writing_def\<close>)

lemma poll_recv_state_fs:
  assumes inv: "recv_inv ci src fp bp r" and poll: "poll_recv_state np e r = Inr (a, r')" and p: "p \<noteq> bp"
  shows "rc_fs r' p = rc_fs r p"
  using assms
  by (auto simp: poll_recv_state_def bindE_eq_Inr Receiver_ack_def Receiver_chunk_def got_fin_def Let_def
      recv_inv_def fs_remove_def split: ReceiverState.splits recv_poll.splits if_splits)

lemma Receiver_poll_fs:
  assumes up: "upload_ok ci src fp bp" and inv: "recv_inv ci src fp bp r"
    and poll: "Receiver_poll np e r = Inr (a, r')" and p: "p \<noteq> fp" "p \<noteq> bp"
  shows "rc_fs r' p = rc_fs r p"
  using poll
proof (cases rule: Receiver_poll_elim)
  case (writing r1)
  note fr = poll_congestion_frame [OF writing(1)]
  have "recv_inv ci src fp bp r1" using recv_inv_frame [OF fr] inv by blast
  from poll_writing_fs [OF this writing(2) p] fr show ?thesis by simp
next
  case (receiving r1 r2)
  note fr = poll_congestion_frame [OF receiving(1)]
  have i1: "recv_inv ci src fp bp r1" using recv_inv_frame [OF fr] inv by blast
  have "recv_inv ci src fp bp r2" using poll_writing_inv [OF up i1 receiving(2)] by blast
  from poll_recv_state_fs [OF this receiving(3) p(2)] poll_writing_fs [OF i1 receiving(2) p] fr
  show ?thesis by simp
qed

lemma recv_inv_fs:
  "fs fp = fs' fp \<Longrightarrow> recv_inv ci src fp bp (r\<lparr>rc_fs := fs\<rparr>) = recv_inv ci src fp bp (r\<lparr>rc_fs := fs'\<rparr>)"
  by (cases "rc_state r") (simp_all add: recv_inv_def stored_def writing_ok_def)

text \<open>A step of a connection keeps its invariant and leaves all other files alone.\<close>

lemma conn_step_fs:
  assumes step: "conn_step V np net cn cn'" and up: "upload_ok ci src fp bp"
    and inv: "recv_inv ci src fp bp (cn_receiver cn)" and net: "\<forall>d \<in> net. genuine ci src d"
  shows "recv_inv ci src fp bp (cn_receiver cn') \<and>
    (\<forall>p. p \<noteq> fp \<longrightarrow> p \<noteq> bp \<longrightarrow> rc_fs (cn_receiver cn') p = rc_fs (cn_receiver cn) p)"
  using step
proof cases
  case (receive e ivs)
  then obtain a where poll: "Receiver_poll np e (cn_receiver cn) = Inr (a, cn_receiver cn')"
    using conn_receive_poll by blast
  have "genuine_env ci src e" using receive(2) net by (auto simp: genuine_env_def)
  then show ?thesis
    using Receiver_poll_inv [OF up inv _ poll] Receiver_poll_fs [OF up inv poll] by blast
next
  case (forward sp ivs)
  from this(2) show ?thesis
    by (cases rule: conn_forward_elim) (use inv recv_inv_tx in auto)
next
  case (flush sp)
  then have "cn_receiver cn' = cn_receiver cn" by (auto simp: conn_flush_def bindE_eq_Inr)
  then show ?thesis using inv by simp
qed

section \<open>Opening a connection\<close>

lemma upload_request_fs:
  assumes "upload_request h req r = Inr r'"
    and "p \<noteq> upload_entry h (rc_folder r) (ur_path req) ''file''"
    and "p \<noteq> upload_entry h (rc_folder r) (ur_path req) ''bitmap''"
  shows "rc_fs r' p = rc_fs r p"
  using assms
  by (auto simp: upload_request_def bindE_eq_Inr fs_create_def fs_set_len_def Let_def
      split: if_splits option.splits)

abbreviation data_path :: "host \<Rightarrow> u8 list \<Rightarrow> nat \<Rightarrow> u8 list list" where
  "data_path h filename n \<equiv> server_entry h (client_login filename n) filename ''file''"

abbreviation bitmap_path :: "host \<Rightarrow> u8 list \<Rightarrow> nat \<Rightarrow> u8 list list" where
  "bitmap_path h filename n \<equiv> server_entry h (client_login filename n) filename ''bitmap''"

context varint_codec
begin

lemma server_accept_eq:
  assumes "login_wf V l" and "length (login_bytes V l) \<le> MTU" and "sv_listener s = Listener_new"
  shows "server_accept V h now (login_bytes V l) a s =
    bindE (Receiver_new h now (sv_fs s) l) (\<lambda>r.
    Inr \<lparr>sv_listener = Listener_new, sv_fs = rc_fs r,
      sv_clients = sv_clients s @ [(a, \<lparr>cn_receiver = r, cn_sender = Sender_new,
        cn_recv_timeout = TimeoutStream_new, cn_send_timeout = TimeoutStream_new, cn_out = [], cn_ended = False\<rparr>)]\<rparr>)"
proof -
  obtain buf where "Listener_poll (Some (login_bytes V l, a)) Listener_new
      = (Ready (buf, length (login_bytes V l), a), Listener_new)"
    and "\<And>h now files. handle_client V h now files buf (length (login_bytes V l)) =
      bindE (Receiver_new h now files l) (\<lambda>r.
        Inr (Some \<lparr>cn_receiver = r, cn_sender = Sender_new, cn_recv_timeout = TimeoutStream_new,
          cn_send_timeout = TimeoutStream_new, cn_out = [], cn_ended = False\<rparr>))"
    using listener_login [where a = a, OF assms(1,2)] by blast
  then show ?thesis
    using assms(3) by (cases "Receiver_new h now (sv_fs s) l") (simp_all add: server_accept_def)
qed

lemma server_accept_login:
  assumes wf: "login_wf V (client_login filename (length src))"
    and fits: "length (login_bytes V (client_login filename (length src))) \<le> MTU"
    and len: "length src < 2 ^ 63" and new: "sv_fs s (bitmap_path h filename (length src)) = None"
    and lst: "sv_listener s = Listener_new"
    and acc: "server_accept V h now (login_bytes V (client_login filename (length src))) a s = Inr s'"
  obtains cn ci where
    "s' = \<lparr>sv_listener = Listener_new, sv_fs = rc_fs (cn_receiver cn), sv_clients = sv_clients s @ [(a, cn)]\<rparr>"
    and "index_field_size (length src) = Inr ci"
    and "upload_ok ci src (data_path h filename (length src)) (bitmap_path h filename (length src))"
    and "recv_inv ci src (data_path h filename (length src)) (bitmap_path h filename (length src)) (cn_receiver cn)"
    and "\<forall>p. p \<noteq> data_path h filename (length src) \<longrightarrow> p \<noteq> bitmap_path h filename (length src) \<longrightarrow>
      rc_fs (cn_receiver cn) p = sv_fs s p"
proof -
  let ?l = "client_login filename (length src)"
  let ?req = "\<lparr>ur_path = filename, ur_length = length src\<rparr>"
  obtain r where r: "Receiver_new h now (sv_fs s) ?l = Inr r"
    and s1: "s' = \<lparr>sv_listener = Listener_new, sv_fs = rc_fs r,
      sv_clients = sv_clients s @ [(a, \<lparr>cn_receiver = r, cn_sender = Sender_new,
        cn_recv_timeout = TimeoutStream_new, cn_send_timeout = TimeoutStream_new, cn_out = [],
        cn_ended = False\<rparr>)]\<rparr>"
    using acc unfolding server_accept_eq [OF wf fits lst] bindE_eq_Inr by auto
  define cn where "cn = \<lparr>cn_receiver = r, cn_sender = Sender_new, cn_recv_timeout = TimeoutStream_new,
    cn_send_timeout = TimeoutStream_new, cn_out = [], cn_ended = False\<rparr>"
  have cn: "Receiver_new h now (sv_fs s) ?l = Inr (cn_receiver cn)"
    and s': "s' = \<lparr>sv_listener = Listener_new, sv_fs = rc_fs (cn_receiver cn),
      sv_clients = sv_clients s @ [(a, cn)]\<rparr>"
    using r s1 by (simp_all add: cn_def)
  from Receiver_new_elim [OF cn] obtain r0 r1 where
    r0: "rc_folder r0 = path_join (Path_new (str_bytes ''./files/'')) (Path_new (h_digest h (lg_client_token ?l)))"
      "rc_fs r0 = sv_fs s" "rc_tx r0 = []"
    and r1: "upload_request h ?req r0 = Inr r1"
    and fr: "rc_bitmap (cn_receiver cn) = rc_bitmap r1 \<and> rc_fs (cn_receiver cn) = rc_fs r1
      \<and> rc_state (cn_receiver cn) = rc_state r1" .
  have paths: "upload_entry h (rc_folder r0) filename nm = server_entry h ?l filename nm" for nm
    using r0 by (simp add: server_entry_def)
  obtain ci where ci: "index_field_size (length src) = Inr ci"
    "upload_ok ci src (data_path h filename (length src)) (bitmap_path h filename (length src))"
    "recv_inv ci src (data_path h filename (length src)) (bitmap_path h filename (length src)) r1"
    using upload_request_fresh [of ?req src r0 h r1] len r1 r0 paths new by auto
  have "rc_fs (cn_receiver cn) p = sv_fs s p"
    if "p \<noteq> data_path h filename (length src)" "p \<noteq> bitmap_path h filename (length src)" for p
    using upload_request_fs [OF r1] that paths r0 fr by simp
  with ci s' recv_inv_frame [OF fr] show thesis using that by blast
qed

end

section \<open>The connections do not disturb each other\<close>

text \<open>
  The uploads a server meets: whoever sends from \<open>a\<close> logs in for the file \<open>src a\<close> under the name
  \<open>name a\<close>, and what arrives from \<open>a\<close> later was sent by that client. No two of them share a path,
  and none is a resumed one.
\<close>

definition path_pair :: "host \<Rightarrow> ('a \<Rightarrow> u8 list) \<Rightarrow> ('a \<Rightarrow> u8 list) \<Rightarrow> 'a \<Rightarrow> u8 list list set" where
  "path_pair h name src a =
     {data_path h (name a) (length (src a)), bitmap_path h (name a) (length (src a))}"

definition separate_uploads ::
    "varint_api \<Rightarrow> host \<Rightarrow> ('a \<Rightarrow> u8 list) \<Rightarrow> ('a \<Rightarrow> u8 list) \<Rightarrow> ('a \<Rightarrow> u8 list set) \<Rightarrow> ('a \<Rightarrow> u8 list set) \<Rightarrow>
      fs \<Rightarrow> bool" where
  "separate_uploads V h name src logins net files \<longleftrightarrow>
     (\<forall>a d. d \<in> logins a \<longrightarrow>
        d = login_bytes V (client_login (name a) (length (src a))) \<and> length d \<le> MTU
        \<and> login_wf V (client_login (name a) (length (src a))) \<and> length (src a) < 2 ^ 63
        \<and> files (bitmap_path h (name a) (length (src a))) = None)
     \<and> (\<forall>a d ci. d \<in> net a \<longrightarrow> index_field_size (length (src a)) = Inr ci \<longrightarrow> genuine ci (src a) d)
     \<and> (\<forall>a b. a \<noteq> b \<longrightarrow> logins a \<noteq> {} \<longrightarrow> logins b \<noteq> {} \<longrightarrow>
          path_pair h name src a \<inter> path_pair h name src b = {})"

definition client_ok :: "host \<Rightarrow> ('a \<Rightarrow> u8 list) \<Rightarrow> ('a \<Rightarrow> u8 list) \<Rightarrow> fs \<Rightarrow> 'a \<Rightarrow> Conn \<Rightarrow> bool" where
  "client_ok h name src fs a cn \<longleftrightarrow>
     (\<exists>ci. index_field_size (length (src a)) = Inr ci
        \<and> upload_ok ci (src a) (data_path h (name a) (length (src a))) (bitmap_path h (name a) (length (src a)))
        \<and> recv_inv ci (src a) (data_path h (name a) (length (src a))) (bitmap_path h (name a) (length (src a)))
            (cn_receiver (on_files fs cn)))"

definition server_inv ::
    "host \<Rightarrow> ('a \<Rightarrow> u8 list) \<Rightarrow> ('a \<Rightarrow> u8 list) \<Rightarrow> ('a \<Rightarrow> u8 list set) \<Rightarrow> fs \<Rightarrow> 'a CsyncServer \<Rightarrow> bool" where
  "server_inv h name src logins files s \<longleftrightarrow>
     sv_listener s = Listener_new
     \<and> distinct (map fst (sv_clients s))
     \<and> (\<forall>(a, cn) \<in> set (sv_clients s). logins a \<noteq> {} \<and> client_ok h name src (sv_fs s) a cn)
     \<and> (\<forall>p. (\<forall>a \<in> fst ` set (sv_clients s). p \<notin> path_pair h name src a) \<longrightarrow> sv_fs s p = files p)"

lemma client_ok_frame:
  assumes "client_ok h name src fs a cn" and "\<forall>p \<in> path_pair h name src a. fs' p = fs p"
  shows "client_ok h name src fs' a cn"
proof -
  have "recv_inv ci (src a) (data_path h (name a) (length (src a))) bp (cn_receiver (on_files fs' cn))
      = recv_inv ci (src a) (data_path h (name a) (length (src a))) bp (cn_receiver (on_files fs cn))" for ci bp
    using recv_inv_fs [of fs' "data_path h (name a) (length (src a))" fs ci "src a" bp "cn_receiver cn"] assms(2)
    by (simp add: on_files_def path_pair_def)
  then show ?thesis using assms(1) by (simp add: client_ok_def)
qed

lemma on_files_self [simp]: "on_files (rc_fs (cn_receiver cn)) cn = cn"
  by (simp add: on_files_def)

section \<open>Every step keeps the invariant\<close>

lemma server_inv_run: "server_inv h name src logins files (server_run files)"
  by (simp add: server_inv_def server_run_def)

context varint_codec
begin

lemma server_inv_accept:
  assumes sep: "separate_uploads V h name src logins net files"
    and inv: "server_inv h name src logins files s"
    and d: "d \<in> logins a" and a: "a \<notin> fst ` set (sv_clients s)"
    and acc: "server_accept V h now d a s = Inr s'"
  shows "server_inv h name src logins files s'"
proof -
  have log: "d = login_bytes V (client_login (name a) (length (src a)))" "length d \<le> MTU"
    "login_wf V (client_login (name a) (length (src a)))" "length (src a) < 2 ^ 63"
    "files (bitmap_path h (name a) (length (src a))) = None"
    using sep d unfolding separate_uploads_def by blast+
  have apart: "path_pair h name src a \<inter> path_pair h name src b = {}" if "b \<in> fst ` set (sv_clients s)" for b
  proof -
    have "logins b \<noteq> {}" "logins a \<noteq> {}" "a \<noteq> b"
      using inv that a d by (auto simp: server_inv_def)
    then show ?thesis using sep unfolding separate_uploads_def by blast
  qed
  then have "\<forall>b \<in> fst ` set (sv_clients s). bitmap_path h (name a) (length (src a)) \<notin> path_pair h name src b"
    unfolding path_pair_def by blast
  then have "sv_fs s (bitmap_path h (name a) (length (src a))) = files (bitmap_path h (name a) (length (src a)))"
    using inv unfolding server_inv_def by blast
  then have new: "sv_fs s (bitmap_path h (name a) (length (src a))) = None" using log by simp
  have lst: "sv_listener s = Listener_new" using inv by (simp add: server_inv_def)
  obtain cn ci where
    s': "s' = \<lparr>sv_listener = Listener_new, sv_fs = rc_fs (cn_receiver cn), sv_clients = sv_clients s @ [(a, cn)]\<rparr>"
    and ci: "index_field_size (length (src a)) = Inr ci"
    "upload_ok ci (src a) (data_path h (name a) (length (src a))) (bitmap_path h (name a) (length (src a)))"
    "recv_inv ci (src a) (data_path h (name a) (length (src a))) (bitmap_path h (name a) (length (src a)))
      (cn_receiver cn)"
    and fr: "\<forall>p. p \<noteq> data_path h (name a) (length (src a)) \<longrightarrow> p \<noteq> bitmap_path h (name a) (length (src a)) \<longrightarrow>
      rc_fs (cn_receiver cn) p = sv_fs s p"
    using server_accept_login [of "name a" "src a" s h now a s', OF _ _ log(4) new lst] log(1-3) acc
    by blast
  have own: "client_ok h name src (rc_fs (cn_receiver cn)) a cn"
    using ci by (simp add: client_ok_def)
  have same: "rc_fs (cn_receiver cn) p = sv_fs s p" if "p \<notin> path_pair h name src a" for p
    using fr that by (simp add: path_pair_def)
  have "client_ok h name src (rc_fs (cn_receiver cn)) b cb" if "(b, cb) \<in> set (sv_clients s)" for b cb
  proof (rule client_ok_frame)
    show "client_ok h name src (sv_fs s) b cb" using inv that by (auto simp: server_inv_def)
    show "\<forall>p \<in> path_pair h name src b. rc_fs (cn_receiver cn) p = sv_fs s p"
      using apart [of b] same that by force
  qed
  moreover have "distinct (map fst (sv_clients s))" "\<forall>(b, cb) \<in> set (sv_clients s). logins b \<noteq> {}"
    using inv by (auto simp: server_inv_def)
  ultimately show ?thesis
    using own inv a d same unfolding server_inv_def s' by auto
qed

end

lemma server_inv_client:
  assumes sep: "separate_uploads V h name src logins net files"
    and inv: "server_inv h name src logins files s"
    and i: "i < length (sv_clients s)" "sv_clients s ! i = (a, cn)"
    and step: "conn_step V np (net a) (on_files (sv_fs s) cn) cn'"
  shows "server_inv h name src logins files
    (s\<lparr>sv_fs := rc_fs (cn_receiver cn'), sv_clients := (sv_clients s)[i := (a, cn')]\<rparr>)"
proof -
  have mem: "(a, cn) \<in> set (sv_clients s)" using i nth_mem by metis
  then have ok: "client_ok h name src (sv_fs s) a cn" and log: "logins a \<noteq> {}"
    using inv by (auto simp: server_inv_def)
  from ok obtain ci where ci: "index_field_size (length (src a)) = Inr ci"
    "upload_ok ci (src a) (data_path h (name a) (length (src a))) (bitmap_path h (name a) (length (src a)))"
    "recv_inv ci (src a) (data_path h (name a) (length (src a))) (bitmap_path h (name a) (length (src a)))
      (cn_receiver (on_files (sv_fs s) cn))"
    unfolding client_ok_def by blast
  have "\<forall>d \<in> net a. genuine ci (src a) d" using sep ci(1) unfolding separate_uploads_def by blast
  note fr = conn_step_fs [OF step ci(2,3) this]
  have own: "client_ok h name src (rc_fs (cn_receiver cn')) a cn'"
    using ci(1,2) fr by (simp add: client_ok_def)
  have same: "rc_fs (cn_receiver cn') p = sv_fs s p" if "p \<notin> path_pair h name src a" for p
    using fr that by (simp add: path_pair_def on_files_def)
  have keys: "map fst ((sv_clients s)[i := (a, cn')]) = map fst (sv_clients s)"
    using i by (simp add: map_update list_update_same_conv)
  then have keys': "fst ` set ((sv_clients s)[i := (a, cn')]) = fst ` set (sv_clients s)"
    by (metis set_map)
  have dist: "distinct (map fst (sv_clients s))" using inv by (simp add: server_inv_def)
  have others: "logins b \<noteq> {} \<and> client_ok h name src (rc_fs (cn_receiver cn')) b cb"
    if b: "(b, cb) \<in> set ((sv_clients s)[i := (a, cn')])" for b cb
  proof (cases "b = a")
    case True
    have "distinct (map fst ((sv_clients s)[i := (a, cn')]))" using dist keys by simp
    moreover have "(a, cn') \<in> set ((sv_clients s)[i := (a, cn')])" using i(1) by (rule set_update_memI)
    ultimately have "cb = cn'" using b True by (metis eq_key_imp_eq_value)
    then show ?thesis using True own log by simp
  next
    case False
    then have old: "(b, cb) \<in> set (sv_clients s)"
      using b set_update_subset_insert [of "sv_clients s" i "(a, cn')"] by auto
    then have lb: "logins b \<noteq> {}" and okb: "client_ok h name src (sv_fs s) b cb"
      using inv by (auto simp: server_inv_def)
    then have "path_pair h name src a \<inter> path_pair h name src b = {}"
      using sep False log unfolding separate_uploads_def by metis
    then have "\<forall>p \<in> path_pair h name src b. rc_fs (cn_receiver cn') p = sv_fs s p" using same by blast
    then show ?thesis using client_ok_frame [OF okb] lb by blast
  qed
  have "sv_fs s p = files p \<and> p \<notin> path_pair h name src a"
    if "\<forall>b \<in> fst ` set (sv_clients s). p \<notin> path_pair h name src b" for p
    using inv that mem unfolding server_inv_def by force
  then have "\<forall>p. (\<forall>b \<in> fst ` set (sv_clients s). p \<notin> path_pair h name src b) \<longrightarrow>
      rc_fs (cn_receiver cn') p = files p"
    using same by simp
  then show ?thesis
    using inv others dist keys keys' unfolding server_inv_def by auto
qed

lemma server_inv_step:
  assumes "server_step V np h logins net s s'" and "varint_codec V"
    and "separate_uploads V h name src logins net files" and "server_inv h name src logins files s"
  shows "server_inv h name src logins files s'"
  using assms(1)
proof cases
  case (accept d a now)
  from varint_codec.server_inv_accept [OF assms(2-4) this] show ?thesis .
next
  case (client i a cn cn')
  from server_inv_client [OF assms(3,4) client(2-)] show ?thesis unfolding client(1) .
qed

lemma server_inv_reaches:
  assumes "(server_step V np h logins net)\<^sup>*\<^sup>* (server_run files) s" and "varint_codec V"
    and "separate_uploads V h name src logins net files"
  shows "server_inv h name src logins files s"
  using assms(1)
proof induction
  case base
  show ?case by (rule server_inv_run)
next
  case (step s s')
  then show ?case using server_inv_step assms(2,3) by metis
qed

section \<open>Two uploads\<close>

definition demo_name :: "bool \<Rightarrow> u8 list" where "demo_name a = (if a then [97] else [98])"
definition demo_source :: "bool \<Rightarrow> u8 list" where "demo_source a = (if a then [1, 2, 3] else [4, 5, 6])"
definition demo_logins :: "bool \<Rightarrow> u8 list set" where
  "demo_logins a = {login_bytes leb_api (client_login (demo_name a) 3)}"
definition demo_net :: "bool \<Rightarrow> u8 list set" where
  "demo_net a = {d. genuine demo_ci (demo_source a) d}"

lemma demo_entries:
  "path_pair demo_host demo_name demo_source True \<inter> path_pair demo_host demo_name demo_source False = {}"
  by code_simp

lemma demo_login_b: "login_wf leb_api (client_login [98] 3)" "length (login_bytes leb_api (client_login [98] 3)) \<le> MTU"
  by (simp_all add: login_wf_def login_bytes_def client_login_def request_bytes_def leb_api_def leb_enc.simps MTU_def)

lemma demo_separate: "separate_uploads leb_api demo_host demo_name demo_source demo_logins demo_net (\<lambda>_. None)"
  unfolding separate_uploads_def
proof (intro conjI allI impI)
  fix a d assume d: "d \<in> demo_logins a"
  have n: "length (demo_source a) = 3" by (simp add: demo_source_def)
  show "d = login_bytes leb_api (client_login (demo_name a) (length (demo_source a)))"
    using d n by (simp add: demo_logins_def)
  show "length d \<le> MTU" "login_wf leb_api (client_login (demo_name a) (length (demo_source a)))"
    using d n demo_login_b demo_login_wf demo_login_bytes
    by (auto simp: demo_logins_def demo_name_def demo_login_def MTU_def)
  show "length (demo_source a) < 2 ^ 63" using n by simp
next
  fix a d ci
  assume "d \<in> demo_net a" "index_field_size (length (demo_source a)) = Inr ci"
  then show "genuine ci (demo_source a) d"
    using demo_index_field_size by (simp add: demo_net_def demo_source_def numeral_3_eq_3 split: if_splits)
next
  fix a b :: bool assume "a \<noteq> b"
  then show "path_pair demo_host demo_name demo_source a \<inter> path_pair demo_host demo_name demo_source b = {}"
    using demo_entries by (cases a; cases b) auto
qed simp


lemma demo_conn_steps:
  "\<exists>cn1 cn2. conn_step leb_api np (demo_net True) (demo_start_conn folder) cn1
    \<and> conn_step leb_api np (demo_net True) cn1 cn2 \<and> BitMap_all (rc_bitmap (cn_receiver cn2))"
proof -
  define e1 where "e1 = \<lparr>re_now = 0, re_delay = DelayNotReady, re_write = WBytes 10, re_recv = RecvData [0, 1, 2, 3]\<rparr>"
  define e2 where "e2 = \<lparr>re_now = 0, re_delay = DelayNotReady, re_write = WBytes 10, re_recv = RecvNotReady\<rparr>"
  have "\<exists>cn1 cn2. conn_receive np e1 (\<lambda>_. IvNotReady) (demo_start_conn folder) = Inr cn1 \<and> \<not> cn_ended cn1
      \<and> conn_receive np e2 (\<lambda>_. IvNotReady) cn1 = Inr cn2 \<and> BitMap_all (rc_bitmap (cn_receiver cn2))"
    using demo_paths
    by (simp add: e1_def e2_def demo_start_conn_def TimeoutStream_poll_def stream_ends_def conn_receive_def
      demo_ci_def Receiver_poll_def poll_congestion_def CongestionInfo_poll_def poll_writing_def
      poll_recv_state_def CongestionInfo_new_def demo_recv_buf Chunk_decode_eq wrapping_sub64_def Receiver_chunk_def
      ipt_packet_def BitMap_get_def BitMap_check_def bitmask_def file_seek_def file_write_def chunk_written_def
      BitMap_set_def BitMap_all_def sync_bitmap_def Chunk_as_ref_def demo_index_bytes Let_def)
  moreover have "genuine demo_ci [1, 2, 3] [0, 1, 2, 3]"
    by (simp add: genuine_def data_packet_def chunk_data_def chunk_of_def demo_ci_def demo_index_bytes)
  then have "\<forall>d. re_recv e1 = RecvData d \<longrightarrow> d \<in> demo_net True" "\<forall>d. re_recv e2 = RecvData d \<longrightarrow> d \<in> demo_net True"
    by (simp_all add: e1_def e2_def demo_net_def demo_source_def)
  moreover have "\<not> cn_ended (demo_start_conn folder)" by (simp add: demo_start_conn_def)
  ultimately show ?thesis by (metis conn_step.receive)
qed

lemma demo_second:
  assumes "files (bitmap_path demo_host [98] 3) = None"
  shows "\<exists>r. Receiver_new demo_host 0 files (client_login [98] 3) = Inr r"
proof -
  let ?req = "\<lparr>ur_path = [98], ur_length = 3\<rparr>"
  define r0 where "r0 = \<lparr>rc_state = Invalid, rc_tx = [],
    rc_folder = path_join (Path_new (str_bytes ''./files/''))
      (Path_new (h_digest demo_host (lg_client_token (client_login [98] 3)))),
    rc_congestion = CongestionInfo_new 0, rc_bitmap = \<lparr>bm_buf = [], bm_num_bits = 0, bm_zeroes = 0\<rparr>, rc_fs = files\<rparr>"
  have new: "rc_fs r0 (upload_entry demo_host (rc_folder r0) (ur_path ?req) ''bitmap'') = None"
    using assms by (simp add: r0_def server_entry_def)
  have ci: "index_field_size (length [4, 5, 6 :: u8]) = Inr demo_ci"
    using demo_index_field_size by (simp add: numeral_3_eq_3)
  obtain m where m: "BitMap_with_length (replicate ((ci_num_chunks demo_ci + 7) div 8) 0) (ci_num_chunks demo_ci) = Inr m"
    using fresh_bitmap [of "ci_num_chunks demo_ci"] by (auto simp: demo_ci_def)
  have host: "h_open_ok demo_host p" "0 < n \<Longrightarrow> h_mmap_ok demo_host n" for p n by (simp_all add: demo_host_def)
  obtain r1 where r1: "upload_request demo_host ?req r0 = Inr r1" "rc_congestion r1 = CongestionInfo_new 0"
    using upload_request_fresh_eq [OF _ _ ci new m] host
    by (simp add: Let_def demo_ci_def r0_def)
  have cmd: "Receiver_command demo_host (lg_command (client_login [98] 3)) r0 = upload_request demo_host ?req r0"
    by (simp add: client_login_def)
  show ?thesis
    unfolding Receiver_new_def Let_def r0_def [symmetric] cmd
    using r1 by (simp add: start_rtt_def CongestionInfo_new_def)
qed

section \<open>Properties\<close>

text \<open>C5: uploads do not disturb each other. However the connections of a server interleave, and
  whatever the network loses, repeats or reorders of the packets after each login, a connection whose bitmap is full has exactly its client's bytes
  in its own data file, and no path outside the files of the uploads ever changes. The uploads have
  different paths, none of them resumes an earlier one, and a connection receives only packets of its
  own client and its login once.\<close>

theorem uploads_isolated:
  assumes "varint_codec V" and "separate_uploads V h name src logins net files"
    and "(server_step V np h logins net)\<^sup>*\<^sup>* (server_run files) s"
  shows "(\<forall>(a, cn) \<in> set (sv_clients s). BitMap_all (rc_bitmap (cn_receiver cn)) \<longrightarrow>
      sv_fs s (data_path h (name a) (length (src a))) = Some (src a))
    \<and> (\<forall>p. (\<forall>(a, cn) \<in> set (sv_clients s). p \<notin> path_pair h name src a) \<longrightarrow> sv_fs s p = files p)"
proof -
  have inv: "server_inv h name src logins files s" using server_inv_reaches assms by metis
  have "sv_fs s (data_path h (name a) (length (src a))) = Some (src a)"
    if a: "(a, cn) \<in> set (sv_clients s)" and full: "BitMap_all (rc_bitmap (cn_receiver cn))" for a cn
  proof -
    have "client_ok h name src (sv_fs s) a cn" using inv a by (auto simp: server_inv_def)
    then show ?thesis
      using stored_complete [OF _ _ full] by (fastforce simp: client_ok_def recv_inv_def on_files_def)
  qed
  moreover have "sv_fs s p = files p" if "\<forall>(a, cn) \<in> set (sv_clients s). p \<notin> path_pair h name src a" for p
    using inv that by (fastforce simp: server_inv_def)
  ultimately show ?thesis by blast
qed

theorem uploads_isolated_witness:
  "\<exists>s. (server_step leb_api (\<lambda>_. 0) demo_host demo_logins demo_net)\<^sup>*\<^sup>* (server_run (\<lambda>_. None)) s
    \<and> map fst (sv_clients s) = [True, False]
    \<and> sv_fs s (data_path demo_host [97] 3) = Some [1, 2, 3] \<and> sv_fs s [] = None"
proof -
  let ?step = "server_step leb_api (\<lambda>_. 0) demo_host demo_logins demo_net"
  let ?s0 = "server_run (\<lambda>_. None) :: bool CsyncServer"
  define c0 where "c0 = demo_start_conn demo_entry_folder"
  have b: "demo_name True = [97]" "demo_name False = [98]" "length (demo_source True) = 3"
    "length (demo_source False) = 3" "demo_source True = [1, 2, 3]"
    by (simp_all add: demo_name_def demo_source_def)
  have la: "login_bytes leb_api (client_login [97] 3) \<in> demo_logins True"
    "login_bytes leb_api (client_login [98] 3) \<in> demo_logins False"
    by (simp_all add: demo_logins_def b)
  define s1 where "s1 = \<lparr>sv_listener = Listener_new, sv_fs = rc_fs (cn_receiver c0), sv_clients = [(True, c0)]\<rparr>"
  have "server_accept leb_api demo_host 0 (login_bytes leb_api (client_login [97] 3)) True ?s0 = Inr s1"
    using varint_codec.server_accept_eq [OF leb_varint_codec demo_login_wf, of ?s0 demo_host 0 True] demo_login_bytes
      demo_receiver_new
    by (simp add: server_run_def s1_def c0_def demo_start_conn_def demo_login_def MTU_def)
  then have 1: "?step ?s0 s1" using server_step.accept [where logins = demo_logins and a = True, OF la(1)] by (simp add: server_run_def)
  obtain c1 c2 where c: "conn_step leb_api (\<lambda>_. 0) (demo_net True) c0 c1"
    "conn_step leb_api (\<lambda>_. 0) (demo_net True) c1 c2" "BitMap_all (rc_bitmap (cn_receiver c2))"
    using demo_conn_steps unfolding c0_def by blast
  define s2 where "s2 = \<lparr>sv_listener = Listener_new, sv_fs = rc_fs (cn_receiver c1), sv_clients = [(True, c1)]\<rparr>"
  define s3 where "s3 = \<lparr>sv_listener = Listener_new, sv_fs = rc_fs (cn_receiver c2), sv_clients = [(True, c2)]\<rparr>"
  have 2: "?step s1 s2"
    using server_step.client [of 0 s1 True c0 leb_api "\<lambda>_. 0" demo_net c1 demo_host demo_logins] c(1)
    by (simp add: s1_def s2_def)
  have 3: "?step s2 s3"
    using server_step.client [of 0 s2 True c1 leb_api "\<lambda>_. 0" demo_net c2 demo_host demo_logins] c(2)
    by (simp add: s2_def s3_def)
  have r3: "?step\<^sup>*\<^sup>* ?s0 s3" using 1 2 3 by (meson converse_rtranclp_into_rtranclp rtranclp.rtrancl_refl)
  have "sv_fs s3 (bitmap_path demo_host [98] 3) = None"
    using server_inv_reaches [OF r3 leb_varint_codec demo_separate] demo_entries
    by (auto simp: server_inv_def s3_def path_pair_def b)
  then obtain r where r: "Receiver_new demo_host 0 (sv_fs s3) (client_login [98] 3) = Inr r"
    using demo_second by blast
  define s4 where "s4 = \<lparr>sv_listener = Listener_new, sv_fs = rc_fs r, sv_clients = [(True, c2),
      (False, \<lparr>cn_receiver = r, cn_sender = Sender_new, cn_recv_timeout = TimeoutStream_new,
        cn_send_timeout = TimeoutStream_new, cn_out = [], cn_ended = False\<rparr>)]\<rparr>"
  have "server_accept leb_api demo_host 0 (login_bytes leb_api (client_login [98] 3)) False s3 = Inr s4"
    using varint_codec.server_accept_eq [OF leb_varint_codec demo_login_b, of s3 demo_host 0 False] r
    by (simp add: s3_def s4_def)
  then have "?step s3 s4" using server_step.accept [where logins = demo_logins and a = False, OF la(2)] by (simp add: s3_def)
  with r3 have r4: "?step\<^sup>*\<^sup>* ?s0 s4" by simp
  note iso = uploads_isolated [OF leb_varint_codec demo_separate r4]
  have "sv_fs s4 (data_path demo_host [97] 3) = Some [1, 2, 3]"
    using iso c(3) by (simp add: s4_def b numeral_3_eq_3)
  moreover have "[] \<notin> path_pair demo_host demo_name demo_source True"
    "[] \<notin> path_pair demo_host demo_name demo_source False"
    by code_simp+
  then have "sv_fs s4 [] = None" using iso by (simp add: s4_def)
  moreover have "map fst (sv_clients s4) = [True, False]" by (simp add: s4_def)
  ultimately show ?thesis using r4 by (intro exI [of _ s4] conjI)
qed

end
