(* ===== verification/Repeated_Login.thy ===== *)
theory Repeated_Login
  imports Upload_Properties
begin

text \<open>
  What the receiver of version 1 does with a second copy of the login datagram. The first copy goes to
  the listener and opens the connection; from then on datagrams of that address go to the receiver,
  which waits for chunks and takes every datagram for one.
\<close>

section \<open>Storing a foreign datagram\<close>

text \<open>A datagram that is not a chunk of the file, but starts with the index of an unmarked one.\<close>

lemma poll_foreign_chunk:
  assumes up: "upload_ok ci src fp bp" and inv: "recv_inv ci src fp bp r"
    and st: "rc_state r = WaitForChunk st" and d: "re_recv e = RecvData d" "length d \<le> MTU"
    and size: "ci_index_field_size ci \<le> length d"
    and i: "le_value (take (ci_index_field_size ci) d) = i" "i < ci_num_chunks ci" "\<not> bit_at (rc_bitmap r) i"
    and poll: "Receiver_poll np e r = Inr (a, r')"
  shows "\<exists>w. rc_state r' = WritingChunk w \<and> wc_written w = 0
    \<and> wc_chunk w = \<lparr>ch_index_field_size = ci_index_field_size ci, ch_index = i, ch_buf = d\<rparr>
    \<and> handle_ok fp (wc_file w) \<and> fl_pos (wc_file w) = i * ci_chunk_size ci \<and> wc_bitmap_path w = bp
    \<and> rc_bitmap r' = rc_bitmap r \<and> rc_fs r' = rc_fs r"
  using poll
proof (cases rule: Receiver_poll_elim)
  case (writing r1)
  then show ?thesis using poll_congestion_frame [OF writing(1)] st by (simp add: poll_writing_def)
next
  case (receiving r1 r2)
  note fr = poll_congestion_frame [OF receiving(1)]
  have r2: "r2 = r1" using receiving(2) fr st by (simp add: poll_writing_def)
  have stored: "stored ci src fp (rc_bitmap r) (rc_fs r)" and ok: "handle_ok fp (wf_file st)"
    "wf_bitmap_path st = bp" "wf_chunk_info st = ci"
    using inv st by (auto simp: recv_inv_def)
  have get: "BitMap_get (rc_bitmap r) i = Inr False"
    using i(2,3) stored by (auto simp: stored_def bm_ok_def BitMap_get_fits)
  have "Chunk_decode d (ci_index_field_size ci)
      = Inr \<lparr>ch_index_field_size = ci_index_field_size ci, ch_index = i, ch_buf = d\<rparr>"
    using size i(1) upload_okD(2) [OF up] by (simp add: Chunk_decode_eq)
  moreover have "wrapping_sub64 i (ci_num_chunks ci) \<noteq> 0" using wrapping_index [OF up, of i] i(2) by simp
  ultimately show ?thesis
    using receiving(3) fr st d ok get chunk_offset [OF up i(2)] unfolding r2
    by (auto simp: poll_recv_state_def recv_buf_id Receiver_chunk_def bindE_eq_Inr Let_def
        handle_ok_def file_seek_def)
qed

lemma poll_stores_chunk:
  assumes st: "rc_state r = WritingChunk w" "wc_written w = 0" "handle_ok fp (wc_file w)" "wc_bitmap_path w = bp"
    and data: "Chunk_as_ref (wc_chunk w) = Inr ds" "ds \<noteq> []"
    and fl: "rc_fs r fp = Some c" "fl_pos (wc_file w) + length ds \<le> length c" "fp \<noteq> bp"
    and m: "bm_ok (rc_bitmap r)" "ch_index (wc_chunk w) < bm_num_bits (rc_bitmap r)"
    and e: "re_write e = WBytes n" "length ds \<le> n" "re_recv e = RecvNotReady"
    and poll: "Receiver_poll np e r = Inr (a, r')"
  shows "rc_fs r' fp = Some (overwrite c (fl_pos (wc_file w)) ds)
    \<and> bit_at (rc_bitmap r') (ch_index (wc_chunk w))"
  using poll
proof (cases rule: Receiver_poll_elim)
  case (writing r1)
  then show ?thesis
    using poll_congestion_frame [OF writing(1)] st data e
    by (auto simp: poll_writing_def bindE_eq_Inr Let_def case_prod_beta)
next
  case (receiving r1 r2)
  note fr = poll_congestion_frame [OF receiving(1)]
  obtain fs f where fw: "file_write (rc_fs r1) (wc_file w) ds = (fs, f)"
    by (cases "file_write (rc_fs r1) (wc_file w) ds")
  have fs: "fs fp = Some (overwrite c (fl_pos (wc_file w)) ds)"
    using file_write_inside [of "wc_file w" "rc_fs r1" c ds] st(3) fl fw fr by (auto simp: handle_ok_def)
  have "chunk_written w f (r1\<lparr>rc_fs := fs\<rparr>) = Inr r2"
    using receiving(2) fr st data e fw by (auto simp: poll_writing_def bindE_eq_Inr Let_def)
  then obtain old m' where set: "BitMap_set (rc_bitmap r) (ch_index (wc_chunk w)) True = Inr (old, m')"
    and r2: "rc_bitmap r2 = m'" "rc_fs r2 = sync_bitmap bp m' fs" "\<exists>st. rc_state r2 = WaitForChunk st"
    using fr st(4) by (auto simp: chunk_written_def bindE_eq_Inr Let_def)
  have "bit_at m' (ch_index (wc_chunk w))"
    using bm.upd_ok [OF m(1) _ set] m nth_bits [of "ch_index (wc_chunk w)" m'] length_bits [of m'] length_bits [of "rc_bitmap r"]
    by (metis length_list_update nth_list_update_eq)
  moreover have "rc_bitmap r' = rc_bitmap r2" by (rule poll_recv_state_bitmap [OF receiving(3)])
  moreover have "rc_fs r' = rc_fs r2"
    using receiving(3) r2(3) e(3) by (auto simp: poll_recv_state_def)
  moreover have "sync_bitmap bp m' fs fp = fs fp"
    using fl(3) by (auto simp: sync_bitmap_def split: option.split)
  ultimately show ?thesis using fs r2 by simp
qed

section \<open>Properties\<close>

lemma login_first_byte: "\<exists>rest. login_bytes leb_api (client_login filename n) = 10 # rest \<and> rest \<noteq> []"
  by (simp add: login_bytes_def client_login_def leb_api_def leb_enc.simps)

text \<open>C35: a repeated login corrupts the upload. When the index field has one byte, a second copy of the
  login datagram is taken for chunk 10, because its first byte is the length of the client's token: the
  rest of the login is written to the place of that chunk and the chunk is marked as received, so it is
  never asked for again. Varints are LEB128 here.\<close>

theorem repeated_login_stored:
  assumes "upload_ok ci src fp bp" and "recv_inv ci src fp bp r" and "rc_state r = WaitForChunk st"
    and "ci_index_field_size ci = 1" and "10 < ci_num_chunks ci" and "\<not> bit_at (rc_bitmap r) 10"
    and "login = login_bytes leb_api (client_login filename n)" and "length login \<le> MTU"
    and "10 * ci_chunk_size ci + length login \<le> length src"
    and "re_recv e1 = RecvData login" and "re_recv e2 = RecvNotReady" and "re_write e2 = WBytes k"
    and "length login \<le> k" and "Receiver_polls np [e1, e2] r = Inr r'"
  shows "\<exists>c. rc_fs r' fp = Some c \<and> take (length login - 1) (drop (10 * ci_chunk_size ci) c) = tl login
    \<and> bit_at (rc_bitmap r') 10"
proof -
  obtain rest where login: "login = 10 # rest" "rest \<noteq> []" using login_first_byte assms(7) by blast
  obtain a1 r1 a2 where p1: "Receiver_poll np e1 r = Inr (a1, r1)" and p2: "Receiver_poll np e2 r1 = Inr (a2, r')"
    using assms(14) by (auto simp: bindE_eq_Inr)
  have "le_value (take (ci_index_field_size ci) login) = 10" "ci_index_field_size ci \<le> length login"
    using assms(4) login by simp_all
  from poll_foreign_chunk [OF assms(1-3,10,8) this(2,1) assms(5,6) p1] obtain w where
    w: "rc_state r1 = WritingChunk w" "wc_written w = 0"
      "wc_chunk w = \<lparr>ch_index_field_size = 1, ch_index = 10, ch_buf = login\<rparr>"
      "handle_ok fp (wc_file w)" "fl_pos (wc_file w) = 10 * ci_chunk_size ci" "wc_bitmap_path w = bp"
      "rc_bitmap r1 = rc_bitmap r" "rc_fs r1 = rc_fs r"
    using assms(4) by auto
  have data: "Chunk_as_ref (wc_chunk w) = Inr rest" using w(3) login by (simp add: Chunk_as_ref_def)
  obtain c where c: "rc_fs r fp = Some c" "length c = length src" and m: "bm_ok (rc_bitmap r)"
    "bm_num_bits (rc_bitmap r) = ci_num_chunks ci"
    using assms(2) by (auto simp: recv_inv_def stored_def)
  have "fp \<noteq> bp" using assms(1) by (simp add: upload_ok_def)
  then have "rc_fs r' fp = Some (overwrite c (10 * ci_chunk_size ci) rest) \<and> bit_at (rc_bitmap r') 10"
    using poll_stores_chunk [OF w(1,2,4,6) data login(2) _ _ _ _ _ assms(12) _ assms(11) p2, of c] w c m
      assms(5,9,13) login(1) by simp
  moreover have "take (length login - 1) (drop (10 * ci_chunk_size ci) (overwrite c (10 * ci_chunk_size ci) rest)) = rest"
    using c(2) assms(9) login(1) by (simp add: overwrite_def)
  ultimately show ?thesis using login(1) by auto
qed

definition long_ci :: ChunkInfo where
  "long_ci = \<lparr>ci_index_field_size = 1, ci_chunk_size = 1459, ci_num_chunks = 14, ci_last_chunk_size = 1033\<rparr>"

definition long_login :: "u8 list" where
  "long_login = [10, 114, 111, 102, 108, 99, 111, 112, 116, 101, 114, 0, 1, 97, 160, 156, 1]"

definition long_file :: "u8 list" where
  "long_file = replicate 20000 0"

definition long_receiver :: Receiver where
  "long_receiver = \<lparr>rc_state = WaitForChunk
       \<lparr>wf_file = \<lparr>fl_path = [[1]], fl_pos = 0, fl_append = False\<rparr>, wf_bitmap_path = [[2]], wf_buf = [],
        wf_chunk_info = long_ci\<rparr>,
     rc_tx = [UploadStart, UploadStatus], rc_folder = (False, []), rc_congestion = CongestionInfo_new 0,
     rc_bitmap = \<lparr>bm_buf = [0, 0], bm_num_bits = 14, bm_zeroes = 14\<rparr>,
     rc_fs = [[[1]] \<mapsto> long_file, [[2]] \<mapsto> [0, 0]]\<rparr>"

lemma long_login_bytes: "login_bytes leb_api (client_login [97] 20000) = long_login"
  by (simp add: login_bytes_def client_login_def request_bytes_def leb_api_def leb_enc.simps long_login_def)

lemma long_upload_ok: "upload_ok long_ci long_file [[1]] [[2]]"
  by (simp add: upload_ok_def geometry_def long_ci_def long_file_def MTU_def div_up_def)

lemma long_inv: "recv_inv long_ci long_file [[1]] [[2]] long_receiver"
  by (simp add: recv_inv_def stored_def long_receiver_def bm_ok_def bm_fits_def bits_def bit_at_def
      handle_ok_def long_ci_def upt_rec)

theorem repeated_login_stored_witness:
  "\<exists>c r'. Receiver_polls (\<lambda>_. 0) [demo_arrival\<lparr>re_recv := RecvData long_login\<rparr>, demo_quiet] long_receiver = Inr r'
    \<and> rc_fs r' [[1]] = Some c \<and> take 16 (drop 14590 c) = tl long_login \<and> bit_at (rc_bitmap r') 10"
proof -
  let ?e = "demo_arrival\<lparr>re_recv := RecvData long_login\<rparr>"
  have buf: "recv_buf [] long_login = long_login" by (rule recv_buf_id) (simp add: long_login_def MTU_def)
  obtain r' where run: "Receiver_polls (\<lambda>_. 0) [?e, demo_quiet] long_receiver = Inr r'"
    by (simp add: Receiver_poll_def poll_congestion_def CongestionInfo_poll_def poll_writing_def
        poll_recv_state_def demo_arrival_def demo_quiet_def long_receiver_def long_ci_def CongestionInfo_new_def
        buf [unfolded long_login_def] long_login_def Chunk_decode_eq wrapping_sub64_def Receiver_chunk_def
        ipt_packet_def BitMap_get_def BitMap_check_def bitmask_def file_seek_def Chunk_as_ref_def file_write_def
        chunk_written_def BitMap_set_def sync_bitmap_def BitMap_all_def Let_def)
  have "\<not> bit_at (rc_bitmap long_receiver) 10" by (simp add: long_receiver_def bit_at_def)
  moreover have len: "length long_login = 17" by (simp add: long_login_def)
  moreover have st: "rc_state long_receiver = WaitForChunk \<lparr>wf_file = \<lparr>fl_path = [[1]], fl_pos = 0, fl_append = False\<rparr>,
      wf_bitmap_path = [[2]], wf_buf = [], wf_chunk_info = long_ci\<rparr>" by (simp add: long_receiver_def)
  ultimately obtain c where "rc_fs r' [[1]] = Some c" "bit_at (rc_bitmap r') 10"
    "take (length long_login - 1) (drop (10 * ci_chunk_size long_ci) c) = tl long_login"
    using repeated_login_stored [OF long_upload_ok long_inv st _ _ _ long_login_bytes [symmetric] _ _ _ _ _ _ run, of 100]
    by (auto simp: long_ci_def MTU_def long_file_def demo_arrival_def demo_quiet_def)
  then show ?thesis using run len by (auto simp: long_ci_def)
qed

end
