(* ===== verification/Unit_Tests.thy ===== *)
theory Unit_Tests
  imports Runlength
begin

text \<open>
  The repository's own unit tests (\<^verbatim>\<open>v1/csync/src/codec.rs\<close> and \<^verbatim>\<open>v1/bitte-ein-bit/src/lib.rs\<close>) run
  on the model, each assertion a conjunct. A test that panics fails. The varints are LEB128, which is
  what the expected bytes of the tests are.
\<close>

section \<open>The tests\<close>

definition test_rle_enc :: "u8 list \<Rightarrow> u8 list \<Rightarrow> bool" where
  "test_rle_enc bitmap result =
     (case bindE (BitMap_new bitmap) (\<lambda>m. write_runlength_encoded leb_api m vec_writer) of
        Inl _ \<Rightarrow> False
      | Inr (written, enc) \<Rightarrow> wr_out enc = result \<and> written = length result)"

definition test_runlength_encode :: bool where
  "test_runlength_encode \<longleftrightarrow>
     test_rle_enc [0b11111111] [8]
     \<and> test_rle_enc [0b00000000] [0, 8]
     \<and> test_rle_enc [0b00000001] [1, 7]
     \<and> test_rle_enc [0b10000000] [0, 7, 1]
     \<and> test_rle_enc [0b00001011] [2, 1, 1, 4]
     \<and> test_rle_enc [0b10001011] [2, 1, 1, 3, 1]
     \<and> test_rle_enc [0b10001011, 0b00001111] [2, 1, 1, 3, 5, 4]"

text \<open>\<^verbatim>\<open>RunlengthIter::new(message).collect()\<close>; every element takes a byte at least.\<close>

fun RunlengthIter_collect :: "varint_api \<Rightarrow> nat \<Rightarrow> u8 list \<Rightarrow> nat list res" where
  "RunlengthIter_collect V 0 bs = Inl OutOfFuel"
| "RunlengthIter_collect V (Suc fuel) bs =
     bindE (RunlengthIter_next V bs) (\<lambda>r.
     case r of
       None \<Rightarrow> Inr []
     | Some (x, rest) \<Rightarrow> bindE (RunlengthIter_collect V fuel rest) (\<lambda>xs. Inr (x # xs)))"

definition test_rle_dec :: "u8 list \<Rightarrow> nat list \<Rightarrow> bool" where
  "test_rle_dec message numbers \<longleftrightarrow>
     RunlengthIter_collect leb_api (Suc (length message)) message = Inr numbers"

definition test_runlength_decode :: bool where
  "test_runlength_decode \<longleftrightarrow>
     test_rle_dec [] []
     \<and> test_rle_dec [0] [0]
     \<and> test_rle_dec [1, 2, 3] [1, 2, 3]
     \<and> test_rle_dec [1, 0x80, 1, 2] [1, 0x80, 2]
     \<and> test_rle_dec [1, 0xff, 0xff, 0xff, 0xff, 0xff, 0xff, 0xff, 0xff, 0xff, 0x01, 2]
         [1, 0xffffffffffffffff, 2]
     \<and> test_rle_dec [1, 0x80, 0x80, 0x80, 0x80, 0x80, 0x80, 0x80, 0x80, 0x40, 2]
         [1, 0x4000000000000000, 2]"

definition test_missing_ranges :: bool where
  "test_missing_ranges =
     (case parse_status_update leb_api MissingRanges_default [2, 2, 3, 4] of
        Inl _ \<Rightarrow> False
      | Inr (_, mr) \<Rightarrow>
          mr_missing mr = [(2, 4), (7, 11)]
          \<and> advance_cursor mr 0 = Inr (Some 2)
          \<and> advance_cursor mr 1 = Inr (Some 2)
          \<and> advance_cursor mr 2 = Inr (Some 3)
          \<and> advance_cursor mr 3 = Inr (Some 7)
          \<and> advance_cursor mr 6 = Inr (Some 7)
          \<and> advance_cursor mr 7 = Inr (Some 8)
          \<and> advance_cursor mr 8 = Inr (Some 9)
          \<and> advance_cursor mr 9 = Inr (Some 10)
          \<and> advance_cursor mr 10 = Inr None
          \<and> advance_cursor mr 11 = Inr None)"

text \<open>\<^verbatim>\<open>for i in 0..8\<close> of the test \<^verbatim>\<open>get_set\<close>.\<close>

fun get_set_loop :: "nat list \<Rightarrow> BitMap \<Rightarrow> bool" where
  "get_set_loop [] m = True"
| "get_set_loop (i # is) m =
     (case BitMap_set m i True of
        Inl _ \<Rightarrow> False
      | Inr (old, m') \<Rightarrow> \<not> old \<and> BitMap_get m' i = Inr True \<and> get_set_loop is m')"

definition get_set :: bool where
  "get_set = (case BitMap_new [0] of Inl _ \<Rightarrow> False | Inr m \<Rightarrow> get_set_loop [0..<8] m)"

section \<open>They pass\<close>

lemmas rle_run_simps = test_rle_enc_def BitMap_new_def BitMap_with_length_def BitMap_iter_def BitMap_iter_range_def
  Iter_collect.simps Iter_next_def BitMap_get_def BitMap_check_def bitmask_def write_runlength_encoded_def
  rle_loop.simps rle_write_def leb_api_def leb_enc.simps write_all_def wr_fits_def vec_writer_def

lemma test_runlength_encode_passes: "test_runlength_encode"
  unfolding test_runlength_encode_def
  by (intro conjI; simp add: rle_run_simps)

lemma test_runlength_decode_passes: "test_runlength_decode"
  unfolding test_runlength_decode_def
  by (intro conjI; simp add: test_rle_dec_def RunlengthIter_next_def leb_api_def leb_dec_def)

lemma test_missing_ranges_passes: "test_missing_ranges"
  by (simp add: test_missing_ranges_def parse_status_update_def RunlengthIter_next_def leb_api_def leb_dec_def
      MissingRanges_default_def advance_cursor_def)

lemma get_set_passes: "get_set"
  by (simp add: get_set_def upt_rec rle_run_simps BitMap_set_def Let_def)

text \<open>The model passes the unit tests of the repository: the run-length encoding and decoding
  vectors, the cursor over missing ranges, and setting and reading bits of a bitmap.\<close>

theorem unit_tests_pass:
  "test_runlength_encode \<and> test_runlength_decode \<and> test_missing_ranges \<and> get_set"
  using test_runlength_encode_passes test_runlength_decode_passes test_missing_ranges_passes get_set_passes by blast

end
