(* ===== verification/Csync.thy ===== *)
theory Csync
  imports Upload_Properties
begin

text \<open>
  The command line program of version 1 (\<^verbatim>\<open>v1/csync/src/main.rs\<close>, \<^verbatim>\<open>client\<close> of
  \<^verbatim>\<open>client.rs\<close>): the options, the choice between server and client, and the walk over the
  directory to upload. The entries that the crate \<^verbatim>\<open>walkdir\<close> yields are an argument, and so is,
  per file, what the operating system and the network do during its upload.
\<close>

record Opt =
  op_server :: bool
  op_port :: nat
  op_host :: string
  op_files :: "string option"

definition unwrap_option :: "'a option \<Rightarrow> 'a res" where
  "unwrap_option x = (case x of None \<Rightarrow> Inl (Panic UnwrapNone) | Some y \<Rightarrow> Inr y)"

text \<open>An entry is an error of the walk, or whether it is a regular file and its path below the root.\<close>

datatype walk_entry = WalkErr | WalkEntry bool "u8 list"

text \<open>
  One upload: the sockets and the runtime can fail before it starts, the file can fail to open, and the
  futures complete as \<open>ue_events\<close> says. Errors before the start are returned, all later ones are
  unwrapped. An upload that still waits when no event is left has not ended (\<open>OutOfFuel\<close>).
\<close>

record upload_env =
  ue_setup :: "io_kind option"
  ue_file :: "u8 list option"
  ue_events :: "client_event list"

definition client_once :: "varint_api \<Rightarrow> upload_env \<Rightarrow> u8 list \<Rightarrow> Client res" where
  "client_once V e filename =
     (case ue_setup e of
        Some k \<Rightarrow> Inl (IoErr k)
      | None \<Rightarrow>
          (case ue_file e of
             None \<Rightarrow> Inl (Panic UnwrapErr)
           | Some src \<Rightarrow>
               unwrap_res
                 (bindE (client_once_start V filename src) (\<lambda>c.
                  bindE (client_loop V src (ue_events e) c) (\<lambda>c'.
                  if cl_finished c' then Inr c' else Inl OutOfFuel)))))"

text \<open>Returns the files handed to \<^verbatim>\<open>client_once\<close>, in order, and how the walk ended.\<close>

fun client_walk :: "(u8 list \<Rightarrow> 'a res) \<Rightarrow> walk_entry list \<Rightarrow> u8 list list \<times> unit res" where
  "client_walk once [] = ([], Inr ())"
| "client_walk once (WalkErr # es) = ([], Inl (Panic UnwrapErr))"
| "client_walk once (WalkEntry is_file name # es) =
     (if \<not> is_file then client_walk once es
      else if \<not> utf8_valid name then ([], Inl (Panic UnwrapNone))
      else case once name of
          Inl e \<Rightarrow> ([name], Inl e)
        | Inr _ \<Rightarrow> (case client_walk once es of (done, r) \<Rightarrow> (name # done, r)))"

definition client_main ::
    "(u8 list \<Rightarrow> 'a res) \<Rightarrow> (string \<Rightarrow> walk_entry list) \<Rightarrow> Opt \<Rightarrow> u8 list list \<times> unit res" where
  "client_main once walk opt =
     (case unwrap_option (op_files opt) of
        Inl e \<Rightarrow> ([], Inl e)
      | Inr files \<Rightarrow> client_walk once (walk files))"

definition csync_main ::
    "(Opt \<Rightarrow> unit res) \<Rightarrow> (u8 list \<Rightarrow> 'a res) \<Rightarrow> (string \<Rightarrow> walk_entry list) \<Rightarrow> Opt \<Rightarrow> unit res" where
  "csync_main server once walk opt =
     (if op_server opt then server opt
      else if op_files opt = None then Inr ()
      else unwrap_res (snd (client_main once walk opt)))"

section \<open>One upload\<close>

lemma client_next_out: "client_next buf c = Inr c' \<Longrightarrow> cl_out c' = cl_out c"
  by (auto simp: client_next_def outcome_simps)

lemma client_step_out: "client_step V src ev c = Inr c' \<Longrightarrow> \<exists>ds. cl_out c' = cl_out c @ ds"
  by (auto simp: client_step_def client_fin_def outcome_simps Let_def case_prod_beta
      dest!: client_next_out split: client_event.splits chunk_send.splits if_splits)

lemma client_loop_out: "client_loop V src evs c = Inr c' \<Longrightarrow> \<exists>ds. cl_out c' = cl_out c @ ds"
proof (induction evs arbitrary: c)
  case (Cons ev evs)
  show ?case
  proof (cases "cl_finished c")
    case False
    then obtain c1 where "client_step V src ev c = Inr c1" "client_loop V src evs c1 = Inr c'"
      using Cons.prems by (auto simp: outcome_simps)
    then show ?thesis using client_step_out [of V src ev c c1] Cons.IH [of c1] by fastforce
  qed (use Cons.prems in simp)
qed simp

text \<open>An upload that succeeds sent the login of its file first and then ran to its end.\<close>

definition uploaded :: "varint_api \<Rightarrow> upload_env \<Rightarrow> u8 list \<Rightarrow> bool" where
  "uploaded V e name \<longleftrightarrow>
     (\<exists>c src w. client_once V e name = Inr c \<and> cl_finished c \<and> ue_file e = Some src \<and>
        Login_encode V (client_login name (length src)) vec_writer = Inr w \<and> hd (cl_out c) = wr_out w)"

lemma client_once_uploaded:
  assumes "client_once V e name = Inr c"
  shows "uploaded V e name"
proof -
  obtain src c0 where src: "ue_file e = Some src" and c0: "client_once_start V name src = Inr c0"
    and c: "client_loop V src (ue_events e) c0 = Inr c" "cl_finished c"
    using assms by (auto simp: client_once_def outcome_simps split: option.splits if_splits)
  obtain w where w: "Login_encode V (client_login name (length src)) vec_writer = Inr w" "cl_out c0 = [wr_out w]"
    using c0 by (auto simp: client_once_start_def outcome_simps dest!: client_next_out)
  with client_loop_out [OF c(1)] have "hd (cl_out c) = wr_out w" by auto
  with assms src c(2) w(1) show ?thesis unfolding uploaded_def by blast
qed

section \<open>The walk\<close>

text \<open>Entries over which the walk goes on, and the files among some entries.\<close>

definition goes_on :: "(u8 list \<Rightarrow> 'a res) \<Rightarrow> walk_entry \<Rightarrow> bool" where
  "goes_on once e =
     (case e of WalkErr \<Rightarrow> False | WalkEntry f n \<Rightarrow> f \<longrightarrow> utf8_valid n \<and> \<not> isl (once n))"

definition regular :: "walk_entry list \<Rightarrow> u8 list list" where
  "regular es = [n. WalkEntry f n \<leftarrow> es, f]"

definition walk_end :: "(u8 list \<Rightarrow> 'a res) \<Rightarrow> walk_entry list \<Rightarrow> u8 list list \<times> unit res" where
  "walk_end once es =
     (case es of
        [] \<Rightarrow> ([], Inr ())
      | WalkErr # _ \<Rightarrow> ([], Inl (Panic UnwrapErr))
      | WalkEntry _ n # _ \<Rightarrow>
          if utf8_valid n then ([n], case once n of Inl e \<Rightarrow> Inl e | Inr _ \<Rightarrow> Inr ())
          else ([], Inl (Panic UnwrapNone)))"

lemma client_walk_split:
  "client_walk once es =
     (regular (takeWhile (goes_on once) es) @ fst (walk_end once (dropWhile (goes_on once) es)),
      snd (walk_end once (dropWhile (goes_on once) es)))"
  by (induction once es rule: client_walk.induct)
    (auto simp: goes_on_def regular_def walk_end_def split: sum.splits prod.splits)

section \<open>Properties\<close>

text \<open>C30: how the client program ends. It goes through the entries of the walk up to the first one it
  fails on. It has then uploaded every regular file before that entry, once and in the order of the
  walk; each of these uploads sent the login with the name and the length of its file first and ran to
  its end. If it failed on none, the program ends normally; an entry that cannot be read, a name that
  is not UTF-8 and an upload that fails or panics end it with a panic, and no later file is uploaded.
  (An upload whose events run out before its end has no result, and neither has the program.)\<close>

theorem client_uploads_all_files:
  assumes "\<not> op_server opt" and "op_files opt = Some dir"
  shows "let once = \<lambda>n. client_once V (env n) n;
      good = takeWhile (goes_on once) (walk dir)
    in (\<forall>n \<in> set (regular good). uploaded V (env n) n) \<and>
      (case dropWhile (goes_on once) (walk dir) of
         [] \<Rightarrow> client_main once walk opt = (regular (walk dir), Inr ()) \<and> csync_main server once walk opt = Inr ()
       | WalkErr # _ \<Rightarrow>
           client_main once walk opt = (regular good, Inl (Panic UnwrapErr)) \<and>
           csync_main server once walk opt = Inl (Panic UnwrapErr)
       | WalkEntry f n # _ \<Rightarrow>
           f \<and>
           (if utf8_valid n then
              \<exists>e. once n = Inl e \<and> client_main once walk opt = (regular good @ [n], Inl e) \<and>
                csync_main server once walk opt = Inl (case e of IoErr k \<Rightarrow> Panic UnwrapErr | _ \<Rightarrow> e)
            else
              client_main once walk opt = (regular good, Inl (Panic UnwrapNone)) \<and>
              csync_main server once walk opt = Inl (Panic UnwrapNone)))"
proof -
  define once where "once = (\<lambda>n. client_once V (env n) n)"
  define good bad where "good = takeWhile (goes_on once) (walk dir)" and "bad = dropWhile (goes_on once) (walk dir)"
  have up: "\<forall>n \<in> set (regular good). uploaded V (env n) n"
  proof
    fix n
    assume "n \<in> set (regular good)"
    then have "WalkEntry True n \<in> set good" by (auto simp: regular_def split: walk_entry.splits if_splits)
    then have "goes_on once (WalkEntry True n)" unfolding good_def by (auto dest: set_takeWhileD)
    then show "uploaded V (env n) n"
      by (cases "once n") (auto simp: goes_on_def once_def intro: client_once_uploaded)
  qed
  have main: "client_main once walk opt = (regular good @ fst (walk_end once bad), snd (walk_end once bad))"
    "csync_main server once walk opt = unwrap_res (snd (walk_end once bad))"
    using assms by (simp_all add: client_main_def csync_main_def unwrap_option_def client_walk_split good_def bad_def)
  have "case bad of
      [] \<Rightarrow> client_main once walk opt = (regular (walk dir), Inr ()) \<and> csync_main server once walk opt = Inr ()
    | WalkErr # _ \<Rightarrow> client_main once walk opt = (regular good, Inl (Panic UnwrapErr)) \<and>
        csync_main server once walk opt = Inl (Panic UnwrapErr)
    | WalkEntry f n # _ \<Rightarrow> f \<and>
        (if utf8_valid n then \<exists>e. once n = Inl e \<and> client_main once walk opt = (regular good @ [n], Inl e) \<and>
            csync_main server once walk opt = Inl (case e of IoErr k \<Rightarrow> Panic UnwrapErr | _ \<Rightarrow> e)
         else client_main once walk opt = (regular good, Inl (Panic UnwrapNone)) \<and>
            csync_main server once walk opt = Inl (Panic UnwrapNone))"
  proof (cases bad)
    case Nil
    then have "good = walk dir" unfolding good_def bad_def by (metis append_Nil2 takeWhile_dropWhile_id)
    then show ?thesis using main Nil by (simp add: walk_end_def)
  next
    case (Cons e es)
    then have "\<not> goes_on once e" unfolding bad_def by (metis hd_dropWhile list.distinct(1) list.sel(1))
    then show ?thesis
      using main Cons
      by (cases e; cases "once (case e of WalkEntry f n \<Rightarrow> n | WalkErr \<Rightarrow> [])")
        (auto simp: walk_end_def goes_on_def unwrap_res_def split: error.splits)
  qed
  with up show ?thesis unfolding once_def good_def bad_def Let_def by blast
qed

text \<open>The first file is uploaded; the socket for the second cannot be bound, so the third never is.\<close>

definition demo_once_env :: "u8 list \<Rightarrow> upload_env" where
  "demo_once_env n = \<lparr>ue_setup = (if n = [98] then Some OtherIo else None), ue_file = Some [1, 2, 3],
     ue_events = [StatusUpdate [1]]\<rparr>"

definition demo_walk :: "string \<Rightarrow> walk_entry list" where
  "demo_walk d = [WalkEntry False [47], WalkEntry True [97], WalkEntry True [98], WalkEntry True [97]]"

lemma demo_once: "\<exists>c. client_once leb_api (demo_once_env [97]) [97] = Inr c"
  by (simp add: client_once_def demo_once_env_def demo_client_start client_step_def demo_start_client_def
      recv_dgram_def overwrite_def demo_parse_full client_fin_def demo_ci_def Chunk_new_def MTU_def Let_def)

theorem client_uploads_all_files_witness:
  "uploaded leb_api (demo_once_env [97]) [97] \<and>
   client_main (\<lambda>n. client_once leb_api (demo_once_env n) n) demo_walk
     \<lparr>op_server = False, op_port = 21088, op_host = ''localhost'', op_files = Some ''d''\<rparr>
     = ([[97], [98]], Inl (IoErr OtherIo))"
proof -
  let ?once = "\<lambda>n. client_once leb_api (demo_once_env n) n"
  have ends: "goes_on ?once (WalkEntry True [97])" "\<not> goes_on ?once (WalkEntry True [98])"
    "goes_on ?once (WalkEntry False [47])" "?once [98] = Inl (IoErr OtherIo)"
    using demo_once by (auto simp: goes_on_def client_once_def demo_once_env_def)
  have walk: "takeWhile (goes_on ?once) (demo_walk ''d'') = [WalkEntry False [47], WalkEntry True [97]]"
    "dropWhile (goes_on ?once) (demo_walk ''d'') = [WalkEntry True [98], WalkEntry True [97]]"
    by (simp_all add: demo_walk_def ends)
  show ?thesis
    using client_uploads_all_files [of "\<lparr>op_server = False, op_port = 21088, op_host = ''localhost'',
        op_files = Some ''d''\<rparr>" "''d''" leb_api demo_once_env demo_walk "\<lambda>_. Inr ()"]
    by (auto simp: Let_def walk regular_def ends(4))
qed

end
