(* ===== verification/Block_Db.thy ===== *)
theory Block_Db
  imports Prelude
begin

text \<open>
  The block database of version 2 (\<^verbatim>\<open>v2/scsync/src/blockdb.rs\<close>): references to blocks with their
  decryption keys, blocks that are complete or still being received, and the store itself with the
  current and the pending root. Block ids and keys are fixed-size byte arrays in the source; here
  they are byte lists, and \<open>BlockRef_ok\<close> is the typing condition the arrays carry.
\<close>

section \<open>References and blocks\<close>

type_synonym BlockId = "u8 list"
type_synonym Key = "u8 list"

datatype BlockRef = BlockRef (blockid: BlockId) (key: Key) (hints: "Hint list")
  and Hint = Hint (hint_blockref: BlockRef) (hint_offset: nat) (hint_length: nat)

definition BlockRef_new :: "BlockId \<Rightarrow> Key \<Rightarrow> Hint list \<Rightarrow> BlockRef" where
  "BlockRef_new i k hs = BlockRef i k hs"

definition BlockId_ok :: "BlockId \<Rightarrow> bool" where
  "BlockId_ok i \<longleftrightarrow> length i = 32"

definition Key_ok :: "Key \<Rightarrow> bool" where
  "Key_ok k \<longleftrightarrow> length k = 16"

primrec BlockRef_ok :: "BlockRef \<Rightarrow> bool" and Hint_ok :: "Hint \<Rightarrow> bool" where
  "BlockRef_ok (BlockRef i k hs) \<longleftrightarrow> BlockId_ok i \<and> Key_ok k \<and> list_all id (map Hint_ok hs)"
| "Hint_ok (Hint r off len) \<longleftrightarrow> BlockRef_ok r \<and> off < 2 ^ 64 \<and> len < 2 ^ 64"

record Partial =
  partial_id :: BlockId
  partial_data :: "u8 list"
  available :: "bool list"

record Full =
  full_id :: BlockId
  full_data :: "u8 list"

datatype Block = Partial Partial | Full Full

definition Block_id :: "Block \<Rightarrow> BlockId" where
  "Block_id b = (case b of Partial p \<Rightarrow> partial_id p | Full f \<Rightarrow> full_id f)"

definition Block_full :: "Block \<Rightarrow> Full res" where
  "Block_full b = (case b of Full f \<Rightarrow> Inr f | Partial _ \<Rightarrow> Inl (Panic ExplicitPanic))"

definition Block_partial :: "Block \<Rightarrow> Partial res" where
  "Block_partial b = (case b of Full _ \<Rightarrow> Inl (Panic ExplicitPanic) | Partial p \<Rightarrow> Inr p)"

text \<open>A mutable borrow is the value read and the function that stores a new value in its place.\<close>

definition Block_partial_mut :: "Block \<Rightarrow> (Partial \<times> (Partial \<Rightarrow> Block)) res" where
  "Block_partial_mut b =
     (case b of Full _ \<Rightarrow> Inl (Panic ExplicitPanic) | Partial p \<Rightarrow> Inr (p, Partial))"

definition Block_len :: "Block \<Rightarrow> nat" where
  "Block_len b = (case b of Full f \<Rightarrow> length (full_data f) | Partial p \<Rightarrow> length (partial_data p))"

section \<open>The store\<close>

record BlockDb =
  db_root :: BlockRef
  db_pending_root :: "BlockRef option"
  db_blocks :: "BlockId \<rightharpoonup> Block"

definition BlockDb_new :: "BlockRef \<Rightarrow> (BlockId \<rightharpoonup> Block) \<Rightarrow> BlockDb" where
  "BlockDb_new root blocks = \<lparr>db_root = root, db_pending_root = None, db_blocks = blocks\<rparr>"

definition BlockDb_root :: "BlockDb \<Rightarrow> BlockRef" where
  "BlockDb_root db = db_root db"

definition pending_root :: "BlockDb \<Rightarrow> BlockRef option" where
  "pending_root db = db_pending_root db"

definition set_pending_root :: "BlockDb \<Rightarrow> BlockRef \<Rightarrow> BlockDb" where
  "set_pending_root db r = db\<lparr>db_pending_root := Some r\<rparr>"

text \<open>The pending root is taken and becomes the root; the old root is the result.\<close>

definition apply_pending :: "BlockDb \<Rightarrow> (BlockRef \<times> BlockDb) res" where
  "apply_pending db =
     (case db_pending_root db of
        None \<Rightarrow> Inl (Panic UnwrapNone)
      | Some r \<Rightarrow> Inr (db_root db, db\<lparr>db_root := r, db_pending_root := None\<rparr>))"

definition contains :: "BlockDb \<Rightarrow> BlockId \<Rightarrow> bool" where
  "contains db i \<longleftrightarrow> db_blocks db i \<noteq> None"

text \<open>Indexing a \<^verbatim>\<open>HashMap\<close> and \<^verbatim>\<open>get_mut().unwrap()\<close> panic on a missing key.\<close>

definition BlockDb_get :: "BlockDb \<Rightarrow> BlockId \<Rightarrow> Block res" where
  "BlockDb_get db i =
     (case db_blocks db i of None \<Rightarrow> Inl (Panic UnwrapNone) | Some b \<Rightarrow> Inr b)"

definition BlockDb_get_mut :: "BlockDb \<Rightarrow> BlockId \<Rightarrow> (Block \<times> (Block \<Rightarrow> BlockDb)) res" where
  "BlockDb_get_mut db i =
     (case db_blocks db i of
        None \<Rightarrow> Inl (Panic UnwrapNone)
      | Some b \<Rightarrow> Inr (b, \<lambda>b'. db\<lparr>db_blocks := (db_blocks db)(i \<mapsto> b')\<rparr>))"

text \<open>\<^verbatim>\<open>entry().or_insert()\<close>: a block that is there already stays.\<close>

definition BlockDb_add :: "BlockDb \<Rightarrow> Block \<Rightarrow> BlockDb" where
  "BlockDb_add db b =
     (case db_blocks db (Block_id b) of
        Some _ \<Rightarrow> db
      | None \<Rightarrow> db\<lparr>db_blocks := (db_blocks db)(Block_id b \<mapsto> b)\<rparr>)"

definition try_promote :: "BlockDb \<Rightarrow> BlockId \<Rightarrow> (bool \<times> BlockDb) res" where
  "try_promote db i =
     bindE (BlockDb_get db i) (\<lambda>b.
     bindE (Block_partial b) (\<lambda>p.
     if \<not> list_all id (available p) then Inr (False, db)
     else
       Inr (True, db\<lparr>db_blocks :=
         (db_blocks db)(i \<mapsto> Full \<lparr>full_id = partial_id p, full_data = partial_data p\<rparr>)\<rparr>)))"

section \<open>The store keeps its blocks under their ids\<close>

definition db_wf :: "BlockDb \<Rightarrow> bool" where
  "db_wf db \<longleftrightarrow> (\<forall>i b. db_blocks db i = Some b \<longrightarrow> Block_id b = i)"

definition full_at :: "BlockDb \<Rightarrow> BlockId \<Rightarrow> u8 list option" where
  "full_at db i =
     (case db_blocks db i of Some (Full f) \<Rightarrow> Some (full_data f) | _ \<Rightarrow> None)"

lemma Block_id_simps [simp]:
  "Block_id (Partial p) = partial_id p" "Block_id (Full f) = full_id f"
  by (simp_all add: Block_id_def)

lemma Block_full_simps [simp]:
  "Block_full (Full f) = Inr f" "Block_full (Partial p) = Inl (Panic ExplicitPanic)"
  by (simp_all add: Block_full_def)

lemma Block_partial_simps [simp]:
  "Block_partial (Partial p) = Inr p" "Block_partial (Full f) = Inl (Panic ExplicitPanic)"
  by (simp_all add: Block_partial_def)

lemma Block_full_eq_Inr [outcome_simps]: "Block_full b = Inr f \<longleftrightarrow> b = Full f"
  by (cases b) auto

lemma Block_partial_eq_Inr [outcome_simps]: "Block_partial b = Inr p \<longleftrightarrow> b = Partial p"
  by (cases b) auto

lemma BlockDb_get_eq_Inr [outcome_simps]: "BlockDb_get db i = Inr b \<longleftrightarrow> db_blocks db i = Some b"
  by (auto simp: BlockDb_get_def split: option.splits)

lemma full_at_eq_Some: "full_at db i = Some d \<longleftrightarrow> (\<exists>f. db_blocks db i = Some (Full f) \<and> full_data f = d)"
  by (auto simp: full_at_def split: option.splits Block.splits)

lemma add_wf:
  assumes "db_wf db"
  shows "db_wf (BlockDb_add db b)"
  using assms by (auto simp: db_wf_def BlockDb_add_def split: option.splits)

lemma add_keeps: "db_blocks db i = Some b \<Longrightarrow> db_blocks (BlockDb_add db b') i = Some b"
  by (auto simp: BlockDb_add_def split: option.splits)

lemma add_contains: "contains (BlockDb_add db b) (Block_id b)"
  by (auto simp: BlockDb_add_def contains_def split: option.splits)

text \<open>Promotion happens exactly on a partial block with nothing missing and keeps its bytes.\<close>

lemma try_promote_True:
  "try_promote db i = Inr (True, db') \<longleftrightarrow>
     (\<exists>p. db_blocks db i = Some (Partial p) \<and> list_all id (available p) \<and>
       db' = db\<lparr>db_blocks := (db_blocks db)
         (i \<mapsto> Full \<lparr>full_id = partial_id p, full_data = partial_data p\<rparr>)\<rparr>)"
  by (auto simp: try_promote_def outcome_simps)

lemma try_promote_False:
  "try_promote db i = Inr (False, db') \<longleftrightarrow>
     (\<exists>p. db_blocks db i = Some (Partial p) \<and> \<not> list_all id (available p) \<and> db' = db)"
  by (auto simp: try_promote_def outcome_simps)

lemma try_promote_wf:
  assumes "db_wf db" and "try_promote db i = Inr (r, db')"
  shows "db_wf db'"
  using assms
  by (cases r) (fastforce simp: try_promote_True try_promote_False db_wf_def split: if_splits)+

text \<open>No operation of the store takes a complete block away or changes its bytes.\<close>

lemma full_stays:
  assumes "full_at db i = Some d"
  shows "full_at (BlockDb_add db b) i = Some d"
    and "full_at (set_pending_root db r) i = Some d"
    and "try_promote db j = Inr (t, db') \<Longrightarrow> full_at db' i = Some d"
    and "apply_pending db = Inr (old, db') \<Longrightarrow> full_at db' i = Some d"
  using assms
  by (auto simp: full_at_eq_Some BlockDb_add_def set_pending_root_def apply_pending_def
      try_promote_def outcome_simps split: option.splits if_splits)

end
