(* ===== verification/Serde.thy ===== *)
theory Serde
  imports Varints Block_Db
begin

text \<open>
  The third-party crate \<^verbatim>\<open>serde_cbor\<close> with the \<^verbatim>\<open>Serialize\<close> and \<^verbatim>\<open>Deserialize\<close>
  implementations that \<^verbatim>\<open>serde_derive\<close> generates is a parameter of the model of version 2: for each
  serialised type a record of a writer and a reader, and the locale \<open>serde_codec\<close> with the law
  the program relies on, that a well-typed value is read back.

  The second half gives a concrete self-describing serialisation (numbers in base 128, sequences with
  an end marker) that satisfies the law, so the theorems over the parameter have instances.
\<close>

section \<open>The crate as a parameter\<close>

record 'a serde =
  to_writer :: "'a \<Rightarrow> u8 list"
  from_reader :: "u8 list \<Rightarrow> 'a option"

locale serde_codec =
  fixes S :: "'a serde" and ok :: "'a \<Rightarrow> bool"
  assumes read_written: "ok x \<Longrightarrow> from_reader S (to_writer S x) = Some x"
begin

lemma to_writer_inj: "ok x \<Longrightarrow> ok y \<Longrightarrow> to_writer S x = to_writer S y \<Longrightarrow> x = y"
  by (metis option.inject read_written)

end

section \<open>A self-describing serialisation\<close>

datatype item = Num nat | Seq "item list"

fun enc_item :: "item \<Rightarrow> u8 list" where
  "enc_item (Num n) = 0 # leb_enc n"
| "enc_item (Seq xs) = 1 # concat (map enc_item xs) @ [2]"

fun dec_item :: "nat \<Rightarrow> u8 list \<Rightarrow> (item \<times> u8 list) option"
  and dec_items :: "nat \<Rightarrow> u8 list \<Rightarrow> (item list \<times> u8 list) option" where
  "dec_item 0 bs = None"
| "dec_item (Suc f) bs =
     (case bs of
        [] \<Rightarrow> None
      | b # r \<Rightarrow>
          if b = 0 then (case leb_dec r of Inl _ \<Rightarrow> None | Inr (n, r') \<Rightarrow> Some (Num n, r'))
          else if b = 1 then
            (case dec_items f r of None \<Rightarrow> None | Some (xs, r') \<Rightarrow> Some (Seq xs, r'))
          else None)"
| "dec_items 0 bs = None"
| "dec_items (Suc f) bs =
     (case bs of
        [] \<Rightarrow> None
      | b # r \<Rightarrow>
          if b = 2 then Some ([], r)
          else (case dec_item f bs of
              None \<Rightarrow> None
            | Some (x, r') \<Rightarrow>
                (case dec_items f r' of None \<Rightarrow> None | Some (xs, r'') \<Rightarrow> Some (x # xs, r''))))"

fun item_ok :: "item \<Rightarrow> bool" where
  "item_ok (Num n) \<longleftrightarrow> n < 2 ^ 64"
| "item_ok (Seq xs) \<longleftrightarrow> list_all id (map item_ok xs)"

lemma item_ok_Seq [simp]: "item_ok (Seq xs) \<longleftrightarrow> (\<forall>x \<in> set xs. item_ok x)"
  by (auto simp: list_all_iff)

declare item_ok.simps(2) [simp del]

lemma enc_item_head: "\<exists>b r. enc_item x = b # r \<and> b \<noteq> 2"
  by (cases x) auto

lemma dec_items_enc:
  assumes step: "\<And>x f rest. x \<in> set xs \<Longrightarrow> 2 * length (enc_item x) - 1 \<le> f \<Longrightarrow>
      dec_item f (enc_item x @ rest) = Some (x, rest)"
    and fuel: "2 * length (concat (map enc_item xs) @ [2::u8]) \<le> f"
  shows "dec_items f (concat (map enc_item xs) @ 2 # rest) = Some (xs, rest)"
  using assms
proof (induction xs arbitrary: f)
  case Nil
  then show ?case by (cases f) auto
next
  case (Cons x xs)
  then obtain f' where f: "f = Suc f'" by (cases f) auto
  obtain b r where x: "enc_item x = b # r" and b: "b \<noteq> 2" using enc_item_head by blast
  have "dec_items f' (concat (map enc_item xs) @ 2 # rest) = Some (xs, rest)"
    using Cons.prems(2) f x by (intro Cons.IH Cons.prems(1)) auto
  moreover have "dec_item f' (enc_item x @ (concat (map enc_item xs) @ 2 # rest))
      = Some (x, concat (map enc_item xs) @ 2 # rest)"
    using Cons.prems(2) f by (intro Cons.prems(1)) auto
  ultimately show ?case using f x b by simp
qed

lemma dec_item_enc:
  "item_ok x \<Longrightarrow> 2 * length (enc_item x) - 1 \<le> f \<Longrightarrow>
   dec_item f (enc_item x @ rest) = Some (x, rest)"
proof (induction x arbitrary: f rest rule: enc_item.induct)
  case (1 n)
  then obtain f' where f: "f = Suc f'" by (cases f) auto
  with 1 leb_dec_enc_from [of n 0 rest] show ?case by (simp add: leb_dec_def)
next
  case (2 xs)
  then obtain f' where f: "f = Suc f'" by (cases f) auto
  have "dec_items f' (concat (map enc_item xs) @ 2 # rest) = Some (xs, rest)"
    using 2 f by (intro dec_items_enc) auto
  with f show ?case by simp
qed

section \<open>Serialisation through items\<close>

definition item_serde :: "('a \<Rightarrow> item) \<Rightarrow> (item \<Rightarrow> 'a option) \<Rightarrow> 'a serde" where
  "item_serde to from =
     \<lparr>to_writer = (\<lambda>x. enc_item (to x)),
      from_reader = (\<lambda>bs.
        case dec_item (2 * length bs) bs of Some (t, []) \<Rightarrow> from t | _ \<Rightarrow> None)\<rparr>"

lemma item_serde_codec:
  assumes "\<And>x. ok x \<Longrightarrow> item_ok (to x) \<and> from (to x) = Some x"
  shows "serde_codec (item_serde to from) ok"
proof
  fix x
  assume "ok x"
  with assms have "item_ok (to x)" and "from (to x) = Some x" by blast+
  then show "from_reader (item_serde to from) (to_writer (item_serde to from) x) = Some x"
    using dec_item_enc [of "to x" "2 * length (enc_item (to x))" "[]"] by (simp add: item_serde_def)
qed

definition bytes_item :: "u8 list \<Rightarrow> item" where
  "bytes_item bs = Seq (map (\<lambda>b. Num (unat b)) bs)"

fun num_of :: "item \<Rightarrow> nat option" where
  "num_of (Num n) = Some n"
| "num_of _ = None"

fun byte_of :: "item \<Rightarrow> u8 option" where
  "byte_of (Num n) = (if n < 256 then Some (of_nat n) else None)"
| "byte_of _ = None"

fun bytes_of :: "item \<Rightarrow> u8 list option" where
  "bytes_of (Seq xs) = those (map byte_of xs)"
| "bytes_of _ = None"

lemma those_map_Some: "(\<And>x. x \<in> set xs \<Longrightarrow> f (g x) = Some x) \<Longrightarrow> those (map f (map g xs)) = Some xs"
  by (induction xs) auto

lemma unat_u8_lt: "unat (b::u8) < 256"
  using unsigned_less [of b] by simp

lemma bytes_of_item [simp]: "bytes_of (bytes_item bs) = Some bs"
proof -
  have "byte_of (Num (unat b)) = Some b" for b by (simp add: unat_u8_lt)
  then show ?thesis unfolding bytes_item_def bytes_of.simps by (intro those_map_Some)
qed

lemma bytes_item_ok [simp]: "item_ok (bytes_item bs)"
proof -
  have "unat (b::u8) < 18446744073709551616" for b using unat_u8_lt [of b] by linarith
  then show ?thesis by (auto simp: bytes_item_def)
qed

text \<open>References and their hints.\<close>

primrec BlockRef_item :: "BlockRef \<Rightarrow> item" and Hint_item :: "Hint \<Rightarrow> item" where
  "BlockRef_item (BlockRef i k hs) = Seq [bytes_item i, bytes_item k, Seq (map Hint_item hs)]"
| "Hint_item (Hint r off len) = Seq [BlockRef_item r, Num off, Num len]"

fun item_BlockRef :: "item \<Rightarrow> BlockRef option" and item_Hint :: "item \<Rightarrow> Hint option" where
  "item_BlockRef t =
     (case t of
        Seq [i, k, Seq hs] \<Rightarrow>
          (case (bytes_of i, bytes_of k, those (map item_Hint hs)) of
             (Some i', Some k', Some hs') \<Rightarrow> Some (BlockRef i' k' hs')
           | _ \<Rightarrow> None)
      | _ \<Rightarrow> None)"
| "item_Hint t =
     (case t of
        Seq [r, Num off, Num len] \<Rightarrow>
          (case item_BlockRef r of Some r' \<Rightarrow> Some (Hint r' off len) | None \<Rightarrow> None)
      | _ \<Rightarrow> None)"

declare item_BlockRef.simps [simp del] item_Hint.simps [simp del]

lemma BlockRef_item_inverse:
  shows "item_BlockRef (BlockRef_item r) = Some r"
    and "item_Hint (Hint_item h) = Some h"
proof (induction r and h rule: BlockRef.induct Hint.induct)
  case (BlockRef i k hs)
  then have "those (map item_Hint (map Hint_item hs)) = Some hs" by (intro those_map_Some)
  then show ?case by (subst item_BlockRef.simps) simp
next
  case (Hint r off len)
  then show ?case by (subst item_Hint.simps) simp
qed

lemma BlockRef_item_ok:
  shows "BlockRef_ok r \<Longrightarrow> item_ok (BlockRef_item r)"
    and "Hint_ok h \<Longrightarrow> item_ok (Hint_item h)"
  by (induction r and h rule: BlockRef.induct Hint.induct) (auto simp: list_all_iff)

text \<open>References to blocks go through it and back.\<close>

interpretation block_refs: serde_codec "item_serde BlockRef_item item_BlockRef" BlockRef_ok
  by (rule item_serde_codec) (simp add: BlockRef_item_inverse BlockRef_item_ok)

end
