(* ===== verification/Frontend.thy ===== *)
theory Frontend
  imports Serde File_System Codec
begin

text \<open>
  The frontend of version 2 (\<^verbatim>\<open>v2/scsync/src/frontend/mod.rs\<close>): the three kinds of decrypted
  block, encryption to content-addressed blocks and back, the block database of a folder, and
  writing a database out as a folder. Ciphers, hash, random numbers and the serialiser are
  parameters; the walk over the folder is the list of entries that \<^verbatim>\<open>walkdir\<close> yields.
\<close>

section \<open>Decrypted blocks\<close>

record Leaf =
  leaf_data :: "u8 list"

record Meta =
  meta_blocks :: "BlockRef list"

datatype BlockType = Directory | FileMeta | Leaf

record Child =
  child_name :: "u8 list"
  child_metadata :: unit
  child_type :: BlockType
  child_blockref :: BlockRef

record Dir =
  dir_children :: "Child list"

datatype Decoded = Dir Dir | Meta Meta | Leaf Leaf

definition Child_ok :: "Child \<Rightarrow> bool" where
  "Child_ok c \<longleftrightarrow> utf8_valid (child_name c) \<and> BlockRef_ok (child_blockref c)"

definition Dir_ok :: "Dir \<Rightarrow> bool" where
  "Dir_ok d \<longleftrightarrow> list_all Child_ok (dir_children d)"

definition Meta_ok :: "Meta \<Rightarrow> bool" where
  "Meta_ok m \<longleftrightarrow> list_all BlockRef_ok (meta_blocks m)"

section \<open>Ciphers and hash as parameters\<close>

text \<open>
  \<open>aes_write\<close> is the AES writer of the crate \<^verbatim>\<open>aesstream\<close> on a key, the initialisation
  vector it draws, and the plain bytes; \<open>aes_read\<close> is its reader: \<open>None\<close> when the reader
  cannot be created, \<open>Some None\<close> when reading fails. The first argument says whether the
  hardware implementation of the block cipher is used.
\<close>

record frontend_api =
  supports_aesni :: bool
  aes_write :: "bool \<Rightarrow> Key \<Rightarrow> u8 list \<Rightarrow> u8 list \<Rightarrow> u8 list"
  aes_read :: "bool \<Rightarrow> Key \<Rightarrow> u8 list \<Rightarrow> u8 list option option"
  keccak256 :: "u8 list \<Rightarrow> BlockId"
  s_leaf :: "u8 list serde"
  s_meta :: "Meta serde"
  s_dir :: "Dir serde"

text \<open>Both implementations of the cipher undo each other, and a digest has 32 bytes.\<close>

locale frontend_codec =
  leaf: serde_codec "s_leaf A" "\<lambda>_. True"
  + meta: serde_codec "s_meta A" Meta_ok
  + dir: serde_codec "s_dir A" Dir_ok
  for A :: frontend_api
  + assumes aes_read_write: "Key_ok k \<Longrightarrow> length iv = 16 \<Longrightarrow>
        aes_read A ni' k (aes_write A ni k iv bs) = Some (Some bs)"
      and keccak_length: "length (keccak256 A bs) = 32"

definition from_full :: "frontend_api \<Rightarrow> 'a serde \<Rightarrow> Full \<Rightarrow> Key \<Rightarrow> 'a option res" where
  "from_full A S full k =
     (if supports_aesni A then
        (case aes_read A True k (full_data full) of
           None \<Rightarrow> Inl (Panic UnwrapErr)
         | Some reader \<Rightarrow> Inr (Option.bind reader (from_reader S)))
      else
        (case aes_read A False k (full_data full) of
           None \<Rightarrow> Inl (Panic UnwrapErr)
         | Some reader \<Rightarrow> Inr (Option.bind reader (from_reader S))))"

text \<open>The key is drawn from \<^verbatim>\<open>OsRng\<close>, the initialisation vector by the writer.\<close>

definition to_block :: "frontend_api \<Rightarrow> 'a serde \<Rightarrow> Key \<times> u8 list \<Rightarrow> 'a \<Rightarrow> Key \<times> Block" where
  "to_block A S rnd t =
     (let (k, iv) = rnd;
          bytes = (if supports_aesni A then aes_write A True k iv (to_writer S t)
                   else aes_write A False k iv (to_writer S t))
      in (k, Full \<lparr>full_id = keccak256 A bytes, full_data = bytes\<rparr>))"

definition Leaf_from_full :: "frontend_api \<Rightarrow> Full \<Rightarrow> Key \<Rightarrow> Leaf option res" where
  "Leaf_from_full A full k =
     bindE (from_full A (s_leaf A) full k) (\<lambda>r. Inr (map_option (\<lambda>bs. \<lparr>leaf_data = bs\<rparr>) r))"

definition Leaf_to_block :: "frontend_api \<Rightarrow> Key \<times> u8 list \<Rightarrow> Leaf \<Rightarrow> Key \<times> Block" where
  "Leaf_to_block A rnd l = to_block A (s_leaf A) rnd (leaf_data l)"

definition Meta_from_full :: "frontend_api \<Rightarrow> Full \<Rightarrow> Key \<Rightarrow> Meta option res" where
  "Meta_from_full A full k = from_full A (s_meta A) full k"

definition Meta_to_block :: "frontend_api \<Rightarrow> Key \<times> u8 list \<Rightarrow> Meta \<Rightarrow> Key \<times> Block" where
  "Meta_to_block A rnd m = to_block A (s_meta A) rnd m"

definition Dir_from_full :: "frontend_api \<Rightarrow> Full \<Rightarrow> Key \<Rightarrow> Dir option res" where
  "Dir_from_full A full k = from_full A (s_dir A) full k"

definition Dir_to_block :: "frontend_api \<Rightarrow> Key \<times> u8 list \<Rightarrow> Dir \<Rightarrow> Key \<times> Block" where
  "Dir_to_block A rnd d = to_block A (s_dir A) rnd d"

definition unwrap_opt :: "panic \<Rightarrow> 'a option res \<Rightarrow> 'a res" where
  "unwrap_opt p r = bindE r (\<lambda>x. case x of None \<Rightarrow> Inl (Panic p) | Some y \<Rightarrow> Inr y)"

section \<open>A folder as a block database\<close>

text \<open>\<^verbatim>\<open>OsStr::to_string_lossy\<close>: malformed parts become U+FFFD.\<close>

definition utf8_unit :: "u8 list \<Rightarrow> nat \<times> bool" where
  "utf8_unit bs =
     (let n = unat (hd bs);
          second = (\<lambda>lo hi. 1 < length bs \<and> lo \<le> unat (bs ! 1) \<and> unat (bs ! 1) \<le> hi);
          cont = (\<lambda>i. i < length bs \<and> utf8_cont (bs ! i))
      in if n < 0x80 then (1, True)
         else if 0xC2 \<le> n \<and> n \<le> 0xDF then (if cont 1 then (2, True) else (1, False))
         else if 0xE0 \<le> n \<and> n \<le> 0xEF then
           (if \<not> (if n = 0xE0 then second 0xA0 0xBF else if n = 0xED then second 0x80 0x9F else cont 1)
            then (1, False)
            else if \<not> cont 2 then (2, False) else (3, True))
         else if 0xF0 \<le> n \<and> n \<le> 0xF4 then
           (if \<not> (if n = 0xF0 then second 0x90 0xBF else if n = 0xF4 then second 0x80 0x8F else cont 1)
            then (1, False)
            else if \<not> cont 2 then (2, False) else if \<not> cont 3 then (3, False) else (4, True))
         else (1, False))"

lemma utf8_unit_pos: "utf8_unit bs = (n, v) \<Longrightarrow> 0 < n"
  by (auto simp: utf8_unit_def Let_def split: if_splits)

function to_string_lossy :: "u8 list \<Rightarrow> u8 list" where
  "to_string_lossy [] = []"
| "to_string_lossy (b # bs) =
     (case utf8_unit (b # bs) of
        (n, v) \<Rightarrow>
          (if v then take n (b # bs) else [0xEF, 0xBF, 0xBD]) @ to_string_lossy (drop n (b # bs)))"
  by pat_completeness auto
termination
  by (relation "measure length") (auto dest: utf8_unit_pos [OF sym])

declare to_string_lossy.simps [simp del]

definition path_parent :: "path \<Rightarrow> path option" where
  "path_parent p = (if snd p = [] then None else Some (fst p, butlast (snd p)))"

fun join_slash :: "u8 list list \<Rightarrow> u8 list" where
  "join_slash [] = []"
| "join_slash [c] = c"
| "join_slash (c # d # cs) = c @ slash # join_slash (d # cs)"

definition path_os_str :: "path \<Rightarrow> u8 list" where
  "path_os_str p = (if fst p then slash # join_slash (snd p) else join_slash (snd p))"

text \<open>\<^verbatim>\<open>DirEntry::file_name\<close>: the last component, or the whole path if that has no name.\<close>

definition entry_file_name :: "path \<Rightarrow> u8 list" where
  "entry_file_name p =
     (if snd p = [] \<or> last (snd p) = [dot, dot] \<or> last (snd p) = [dot] then path_os_str p
      else last (snd p))"

datatype FileType = IsFile | IsDir | IsSymlink | IsOther

text \<open>\<open>de_content\<close> is what \<^verbatim>\<open>fs::read\<close> returns for the entry.\<close>

record DirEntry =
  de_path :: path
  de_type :: FileType
  de_content :: "u8 list option"

record FolderWalk =
  fw_map :: "path \<rightharpoonup> Child list"
  fw_blocks :: "BlockId \<rightharpoonup> Block"
  fw_root :: "BlockRef option"
  fw_draws :: nat

definition push_child :: "(path \<rightharpoonup> Child list) \<Rightarrow> path \<Rightarrow> Child \<Rightarrow> path \<rightharpoonup> Child list" where
  "push_child m p c = m(p \<mapsto> (case m p of None \<Rightarrow> [] | Some cs \<Rightarrow> cs) @ [c])"

definition folder_file ::
    "frontend_api \<Rightarrow> (nat \<Rightarrow> Key \<times> u8 list) \<Rightarrow> FolderWalk \<Rightarrow> DirEntry \<Rightarrow> FolderWalk res" where
  "folder_file A rnd fw e =
     (case de_content e of
        None \<Rightarrow> Inl (Panic UnwrapErr)
      | Some content \<Rightarrow>
          let (k, block) = Leaf_to_block A (rnd (fw_draws fw)) \<lparr>leaf_data = content\<rparr> in
          case path_parent (de_path e) of
            None \<Rightarrow> Inl (Panic UnwrapNone)
          | Some parent \<Rightarrow>
              let child = \<lparr>child_name = to_string_lossy (entry_file_name (de_path e)),
                           child_metadata = (), child_type = BlockType.Leaf,
                           child_blockref = BlockRef (Block_id block) k []\<rparr>
              in Inr (fw\<lparr>fw_map := push_child (fw_map fw) parent child,
                         fw_blocks := (fw_blocks fw)(Block_id block \<mapsto> block),
                         fw_draws := Suc (fw_draws fw)\<rparr>))"

definition folder_dir ::
    "frontend_api \<Rightarrow> (nat \<Rightarrow> Key \<times> u8 list) \<Rightarrow> path \<Rightarrow> FolderWalk \<Rightarrow> DirEntry \<Rightarrow> FolderWalk res" where
  "folder_dir A rnd folder fw e =
     (let children = (case fw_map fw (de_path e) of None \<Rightarrow> [] | Some cs \<Rightarrow> cs);
          removed = (fw_map fw)(de_path e := None);
          (k, block) = Dir_to_block A (rnd (fw_draws fw)) \<lparr>dir_children = children\<rparr>;
          i = Block_id block
      in case path_parent (de_path e) of
           None \<Rightarrow> Inl (Panic UnwrapNone)
         | Some parent \<Rightarrow>
             let child = \<lparr>child_name = to_string_lossy (entry_file_name (de_path e)),
                          child_metadata = (), child_type = Directory,
                          child_blockref = BlockRef i k []\<rparr>
             in Inr (fw\<lparr>fw_map := push_child removed parent child,
                        fw_blocks := (fw_blocks fw)(i \<mapsto> block),
                        fw_root := (if de_path e = folder then Some (BlockRef_new i k []) else fw_root fw),
                        fw_draws := Suc (fw_draws fw)\<rparr>))"

definition folder_step ::
    "frontend_api \<Rightarrow> (nat \<Rightarrow> Key \<times> u8 list) \<Rightarrow> path \<Rightarrow> FolderWalk \<Rightarrow> DirEntry option
      \<Rightarrow> FolderWalk res" where
  "folder_step A rnd folder fw file =
     (if fw_root fw \<noteq> None then Inl (Panic AssertFailed)
      else case file of
          None \<Rightarrow> Inl (Panic UnwrapErr)
        | Some e \<Rightarrow>
            (case de_type e of
               IsSymlink \<Rightarrow> Inr fw
             | IsFile \<Rightarrow> folder_file A rnd fw e
             | IsDir \<Rightarrow> folder_dir A rnd folder fw e
             | IsOther \<Rightarrow> Inr fw))"

fun folder_loop ::
    "frontend_api \<Rightarrow> (nat \<Rightarrow> Key \<times> u8 list) \<Rightarrow> path \<Rightarrow> DirEntry option list \<Rightarrow> FolderWalk
      \<Rightarrow> FolderWalk res" where
  "folder_loop A rnd folder [] fw = Inr fw"
| "folder_loop A rnd folder (e # es) fw =
     bindE (folder_step A rnd folder fw e) (folder_loop A rnd folder es)"

definition FolderWalk_new :: "nat \<Rightarrow> FolderWalk" where
  "FolderWalk_new n = \<lparr>fw_map = Map.empty, fw_blocks = Map.empty, fw_root = None, fw_draws = n\<rparr>"

definition blockdb_from_folder ::
    "frontend_api \<Rightarrow> (nat \<Rightarrow> Key \<times> u8 list) \<Rightarrow> path \<Rightarrow> bool \<Rightarrow> DirEntry option list \<Rightarrow> BlockDb res" where
  "blockdb_from_folder A rnd folder is_dir walkdir =
     (if \<not> is_dir then Inl (Panic AssertFailed)
      else bindE (folder_loop A rnd folder walkdir (FolderWalk_new 0)) (\<lambda>fw.
        case fw_root fw of
          None \<Rightarrow> Inl (Panic UnwrapNone)
        | Some root \<Rightarrow> Inr (BlockDb_new root (fw_blocks fw))))"

section \<open>A block database as a folder\<close>

text \<open>Files and directories of the machine by resolved path; failures are \<^verbatim>\<open>io::Error\<close>s.\<close>

datatype FsNode = FsFile "u8 list" | FsDir

type_synonym fs2 = "u8 list list \<rightharpoonup> FsNode"

definition remove_dir_all :: "fs2 \<Rightarrow> u8 list list \<Rightarrow> fs2 res" where
  "remove_dir_all fs p =
     (if fs p = Some FsDir then Inr (\<lambda>q. if take (length p) q = p then None else fs q)
      else Inl (IoErr OtherIo))"

definition create_dir :: "fs2 \<Rightarrow> u8 list list \<Rightarrow> fs2 res" where
  "create_dir fs p =
     (if fs p = None \<and> p \<noteq> [] \<and> fs (butlast p) = Some FsDir then Inr (fs(p \<mapsto> FsDir))
      else Inl (IoErr OtherIo))"

definition File_create :: "fs2 \<Rightarrow> u8 list list \<Rightarrow> fs2 res" where
  "File_create fs p =
     (case fs p of
        Some FsDir \<Rightarrow> Inl (IoErr OtherIo)
      | Some (FsFile _) \<Rightarrow> Inr (fs(p \<mapsto> FsFile []))
      | None \<Rightarrow>
          if p \<noteq> [] \<and> fs (butlast p) = Some FsDir then Inr (fs(p \<mapsto> FsFile []))
          else Inl (IoErr OtherIo))"

definition file_write_all :: "fs2 \<Rightarrow> u8 list list \<Rightarrow> u8 list \<Rightarrow> fs2" where
  "file_write_all fs p bs =
     (case fs p of Some (FsFile c) \<Rightarrow> fs(p \<mapsto> FsFile (c @ bs)) | _ \<Rightarrow> fs)"

text \<open>A leaf, a directory and a meta block of the store, decrypted; each failure is a panic.\<close>

definition get_decoded ::
    "(Full \<Rightarrow> Key \<Rightarrow> 'a option res) \<Rightarrow> BlockDb \<Rightarrow> BlockId \<Rightarrow> Key \<Rightarrow> 'a res" where
  "get_decoded dec db i k =
     bindE (BlockDb_get db i) (\<lambda>b.
     bindE (Block_full b) (\<lambda>f.
     unwrap_opt UnwrapErr (dec f k)))"

text \<open>The leaves of a meta block, appended to the open file.\<close>

fun write_leaves :: "frontend_api \<Rightarrow> BlockDb \<Rightarrow> u8 list list \<Rightarrow> BlockRef list \<Rightarrow> fs2 \<Rightarrow> fs2 res" where
  "write_leaves A db p [] fs = Inr fs"
| "write_leaves A db p (r # rs) fs =
     bindE (get_decoded (Leaf_from_full A) db (blockid r) (key r)) (\<lambda>leaf.
     write_leaves A db p rs (file_write_all fs p (leaf_data leaf)))"

text \<open>
  The recursion follows references of the store, so its depth is bounded by the stack only: the
  fuel is the number of nested calls the stack has room for.
\<close>

function write_to_dir_rec ::
    "frontend_api \<Rightarrow> nat \<Rightarrow> BlockDb \<Rightarrow> u8 list list \<Rightarrow> path \<Rightarrow> Child list \<Rightarrow> fs2 \<Rightarrow> fs2 res" where
  "write_to_dir_rec A fuel db cwd folder [] fs = Inr fs"
| "write_to_dir_rec A fuel db cwd folder (c # cs) fs =
     (let path = path_join folder (Path_new (child_name c));
          p = resolve_path cwd path;
          i = blockid (child_blockref c);
          k = key (child_blockref c)
      in bindE
        (case child_type c of
           BlockType.Leaf \<Rightarrow>
             bindE (unwrap_res (File_create fs p)) (\<lambda>fs1.
             bindE (get_decoded (Leaf_from_full A) db i k) (\<lambda>leaf.
             Inr (file_write_all fs1 p (leaf_data leaf))))
         | Directory \<Rightarrow>
             bindE (unwrap_res (create_dir fs p)) (\<lambda>fs1.
             bindE (get_decoded (Dir_from_full A) db i k) (\<lambda>dir.
             case fuel of
               0 \<Rightarrow> Inl OutOfFuel
             | Suc f \<Rightarrow> write_to_dir_rec A f db cwd path (dir_children dir) fs1))
         | FileMeta \<Rightarrow>
             bindE (unwrap_res (File_create fs p)) (\<lambda>fs1.
             bindE (get_decoded (Meta_from_full A) db i k) (\<lambda>meta.
             write_leaves A db p (meta_blocks meta) fs1)))
        (\<lambda>fs'. write_to_dir_rec A fuel db cwd folder cs fs'))"
  by pat_completeness auto
termination
  by (relation "measures [\<lambda>(A, fuel, r). fuel, \<lambda>(A, fuel, db, cwd, folder, cs, fs). length cs]") auto

declare write_to_dir_rec.simps [simp del]

definition write_to_dir ::
    "frontend_api \<Rightarrow> nat \<Rightarrow> BlockDb \<Rightarrow> u8 list list \<Rightarrow> path \<Rightarrow> fs2 \<Rightarrow> fs2 res" where
  "write_to_dir A fuel db cwd folder fs =
     bindE (unwrap_res (remove_dir_all fs (resolve_path cwd folder))) (\<lambda>fs1.
     bindE (unwrap_res (create_dir fs1 (resolve_path cwd folder))) (\<lambda>fs2.
     bindE (get_decoded (Dir_from_full A) db (blockid (BlockDb_root db)) (key (BlockDb_root db))) (\<lambda>dir.
     write_to_dir_rec A fuel db cwd folder (dir_children dir) fs2)))"

end
