(* ===== verification/Codec2.thy ===== *)
theory Codec2
  imports Runlength Serde
begin

text \<open>
  The messages of version 2 and their codec (\<^verbatim>\<open>v2/scsync/src/codec.rs\<close>). Two kinds of
  message are written by hand with varints: the payload of a chunk and the list of missing ranges,
  which travels as differences. The other four go through \<^verbatim>\<open>serde_cbor\<close>. The theorems are the
  round trips, with what truncation at one segment leaves of a status, and the panics of the
  decoder.
\<close>

definition MTU2 :: nat where
  "MTU2 = 1460"

section \<open>Messages\<close>

record TransferPayload =
  tp_chunkid :: nat
  tp_data :: "u8 list"

record TransferStatus =
  missing_ranges :: "(nat \<times> nat) list"

record RootUpdate =
  ru_nonce :: "u8 list"
  ru_from_blockid :: BlockId
  ru_to_blockref :: BlockRef

record RootUpdateResponse =
  rr_from_blockid :: BlockId
  rr_to_blockid :: BlockId
  rr_to_key :: Key

record BlockRequest =
  br_blockid :: BlockId

record BlockRequestResponse =
  bq_blockid :: BlockId
  bq_start_id :: nat
  bq_end_id :: nat
  bq_len :: nat

datatype Msg =
    TransferPayload TransferPayload
  | TransferStatus TransferStatus
  | RootUpdate RootUpdate
  | RootUpdateResponse RootUpdateResponse
  | BlockRequest BlockRequest
  | BlockRequestResponse BlockRequestResponse

text \<open>The array lengths and the 64-bit fields of the source's types.\<close>

definition RootUpdate_ok :: "RootUpdate \<Rightarrow> bool" where
  "RootUpdate_ok u \<longleftrightarrow>
     length (ru_nonce u) = 12 \<and> BlockId_ok (ru_from_blockid u) \<and> BlockRef_ok (ru_to_blockref u)"

definition RootUpdateResponse_ok :: "RootUpdateResponse \<Rightarrow> bool" where
  "RootUpdateResponse_ok r \<longleftrightarrow>
     BlockId_ok (rr_from_blockid r) \<and> BlockId_ok (rr_to_blockid r) \<and> Key_ok (rr_to_key r)"

definition BlockRequest_ok :: "BlockRequest \<Rightarrow> bool" where
  "BlockRequest_ok r \<longleftrightarrow> BlockId_ok (br_blockid r)"

definition BlockRequestResponse_ok :: "BlockRequestResponse \<Rightarrow> bool" where
  "BlockRequestResponse_ok r \<longleftrightarrow>
     BlockId_ok (bq_blockid r) \<and> bq_start_id r < 2 ^ 64 \<and> bq_end_id r < 2 ^ 64 \<and> bq_len r < 2 ^ 64"

text \<open>The four types that go through the serialiser.\<close>

record msg_serde =
  s_root_update :: "RootUpdate serde"
  s_root_update_response :: "RootUpdateResponse serde"
  s_block_request :: "BlockRequest serde"
  s_block_request_response :: "BlockRequestResponse serde"

section \<open>Decoding\<close>

definition VarintIter_next :: "varint_api \<Rightarrow> u8 list \<Rightarrow> ((nat \<times> u8 list) option) res" where
  "VarintIter_next V bs =
     (case dec_varint V bs of
        Inr (x, rest) \<Rightarrow> Inr (Some (x, rest))
      | Inl UnexpectedEof \<Rightarrow> Inr None
      | Inl _ \<Rightarrow> Inl (Panic ExplicitPanic))"

text \<open>The running sums over the iterator, drained; the fuel is one more than the bytes left.\<close>

fun VarintIter_sums :: "varint_api \<Rightarrow> nat \<Rightarrow> nat \<Rightarrow> u8 list \<Rightarrow> nat list res" where
  "VarintIter_sums V 0 a bs = Inl OutOfFuel"
| "VarintIter_sums V (Suc fuel) a bs =
     bindE (VarintIter_next V bs) (\<lambda>r.
     case r of
       None \<Rightarrow> Inr []
     | Some (x, rest) \<Rightarrow>
         bindE (add64 a x) (\<lambda>a'.
         bindE (VarintIter_sums V fuel a' rest) (\<lambda>l. Inr (a' # l))))"

definition from_reader_unwrap :: "'a serde \<Rightarrow> u8 list \<Rightarrow> 'a res" where
  "from_reader_unwrap S bs =
     (case from_reader S bs of None \<Rightarrow> Inl (Panic UnwrapErr) | Some x \<Rightarrow> Inr x)"

text \<open>The result and what is left of the source buffer, which \<^verbatim>\<open>take()\<close> empties.\<close>

definition MyCodec_decode ::
    "varint_api \<Rightarrow> msg_serde \<Rightarrow> u8 list \<Rightarrow> (Msg option \<times> u8 list) res" where
  "MyCodec_decode V S src =
     (case src of
        [] \<Rightarrow> Inr (None, src)
      | discriminator # bytes \<Rightarrow>
          bindE
            (if discriminator = 0 then
               bindE (cur_read_varint V (Cursor_new bytes)) (\<lambda>(chunkid, buf).
               bindE (slice_from bytes (cur_pos buf)) (\<lambda>payload.
               Inr (TransferPayload \<lparr>tp_chunkid = chunkid, tp_data = payload\<rparr>)))
             else if discriminator = 1 then
               bindE (VarintIter_sums V (Suc (length bytes)) 0 bytes) (\<lambda>sums.
               Inr (TransferStatus \<lparr>missing_ranges = tuples sums\<rparr>))
             else if discriminator = 2 then
               bindE (from_reader_unwrap (s_root_update S) bytes) (\<lambda>u. Inr (RootUpdate u))
             else if discriminator = 3 then
               bindE (from_reader_unwrap (s_root_update_response S) bytes)
                 (\<lambda>r. Inr (RootUpdateResponse r))
             else if discriminator = 4 then
               bindE (from_reader_unwrap (s_block_request S) bytes) (\<lambda>r. Inr (BlockRequest r))
             else if discriminator = 5 then
               bindE (from_reader_unwrap (s_block_request_response S) bytes)
                 (\<lambda>r. Inr (BlockRequestResponse r))
             else Inl (Panic UnreachableCode))
            (\<lambda>m. Inr (Some m, [])))"

section \<open>Encoding\<close>

text \<open>
  \<^verbatim>\<open>dst.writer()\<close> fills the buffer up to its capacity and then fails, while
  \<^verbatim>\<open>extend_from_slice\<close> grows it. The third-party buffer only promises that after
  \<^verbatim>\<open>reserve(MTU)\<close> at least \<open>MTU\<close> bytes are free: \<open>room\<close> is the number it has.
\<close>

definition put_u8 :: "Writer \<Rightarrow> u8 \<Rightarrow> Writer res" where
  "put_u8 w b = (if wr_fits w [b] then Inr (w\<lparr>wr_out := wr_out w @ [b]\<rparr>) else Inl (Panic AssertFailed))"

definition range_bounds :: "(nat \<times> nat) list \<Rightarrow> nat list" where
  "range_bounds rs = concat (map (\<lambda>(from, to). [from, to]) rs)"

fun encode_deltas :: "varint_api \<Rightarrow> nat \<Rightarrow> nat list \<Rightarrow> Writer \<Rightarrow> Writer res" where
  "encode_deltas V a [] w = Inr w"
| "encode_deltas V a (x # xs) w =
     bindE (sub64 x a) (\<lambda>d.
     bindE (add64 a d) (\<lambda>a'.
     bindE (write_seq w (enc_varint V d)) (\<lambda>w'.
     encode_deltas V a' xs w')))"

definition encode_cbor :: "'a serde \<Rightarrow> u8 \<Rightarrow> 'a \<Rightarrow> Writer \<Rightarrow> u8 list res" where
  "encode_cbor S d x w =
     bindE (put_u8 w d) (\<lambda>w1.
     bindE (unwrap_res (write_seq w1 (to_writer S x))) (\<lambda>w2.
     Inr (wr_out w2)))"

definition MyCodec_encode ::
    "varint_api \<Rightarrow> msg_serde \<Rightarrow> nat \<Rightarrow> Msg \<Rightarrow> u8 list \<Rightarrow> u8 list res" where
  "MyCodec_encode V S room item dst =
     (let w = \<lparr>wr_out = dst, wr_limit = Some (length dst + room)\<rparr> in
      case item of
        TransferPayload payload \<Rightarrow>
          if \<not> 1 + len_varint V (tp_chunkid payload) + length (tp_data payload) \<le> MTU2
          then Inl (Panic AssertFailed)
          else
            bindE (put_u8 w 0) (\<lambda>w1.
            bindE (unwrap_res (write_seq w1 (enc_varint V (tp_chunkid payload)))) (\<lambda>w2.
            Inr (wr_out w2 @ tp_data payload)))
      | TransferStatus status \<Rightarrow>
          bindE (put_u8 w 1) (\<lambda>w1.
          bindE (encode_deltas V 0 (range_bounds (missing_ranges status)) w1) (\<lambda>w2.
          Inr (vec_truncate MTU2 (wr_out w2))))
      | RootUpdate update \<Rightarrow> encode_cbor (s_root_update S) 2 update w
      | RootUpdateResponse res \<Rightarrow> encode_cbor (s_root_update_response S) 3 res w
      | BlockRequest req \<Rightarrow> encode_cbor (s_block_request S) 4 req w
      | BlockRequestResponse res \<Rightarrow> encode_cbor (s_block_request_response S) 5 res w)"

section \<open>The codec and its parameters\<close>

locale msg_codec = varint_codec V
  + ru: serde_codec "s_root_update S" RootUpdate_ok
  + rr: serde_codec "s_root_update_response S" RootUpdateResponse_ok
  + br: serde_codec "s_block_request S" BlockRequest_ok
  + bq: serde_codec "s_block_request_response S" BlockRequestResponse_ok
  for V :: varint_api and S :: msg_serde

definition RootUpdate_item :: "RootUpdate \<Rightarrow> item" where
  "RootUpdate_item u =
     Seq [bytes_item (ru_nonce u), bytes_item (ru_from_blockid u), BlockRef_item (ru_to_blockref u)]"

definition item_RootUpdate :: "item \<Rightarrow> RootUpdate option" where
  "item_RootUpdate t =
     (case t of
        Seq [n, f, r] \<Rightarrow>
          (case (bytes_of n, bytes_of f, item_BlockRef r) of
             (Some n', Some f', Some r') \<Rightarrow>
               Some \<lparr>ru_nonce = n', ru_from_blockid = f', ru_to_blockref = r'\<rparr>
           | _ \<Rightarrow> None)
      | _ \<Rightarrow> None)"

definition RootUpdateResponse_item :: "RootUpdateResponse \<Rightarrow> item" where
  "RootUpdateResponse_item r =
     Seq [bytes_item (rr_from_blockid r), bytes_item (rr_to_blockid r), bytes_item (rr_to_key r)]"

definition item_RootUpdateResponse :: "item \<Rightarrow> RootUpdateResponse option" where
  "item_RootUpdateResponse t =
     (case t of
        Seq [f, i, k] \<Rightarrow>
          (case (bytes_of f, bytes_of i, bytes_of k) of
             (Some f', Some i', Some k') \<Rightarrow>
               Some \<lparr>rr_from_blockid = f', rr_to_blockid = i', rr_to_key = k'\<rparr>
           | _ \<Rightarrow> None)
      | _ \<Rightarrow> None)"

definition BlockRequest_item :: "BlockRequest \<Rightarrow> item" where
  "BlockRequest_item r = bytes_item (br_blockid r)"

definition item_BlockRequest :: "item \<Rightarrow> BlockRequest option" where
  "item_BlockRequest t = map_option (\<lambda>i. \<lparr>br_blockid = i\<rparr>) (bytes_of t)"

definition BlockRequestResponse_item :: "BlockRequestResponse \<Rightarrow> item" where
  "BlockRequestResponse_item r =
     Seq [bytes_item (bq_blockid r), Num (bq_start_id r), Num (bq_end_id r), Num (bq_len r)]"

definition item_BlockRequestResponse :: "item \<Rightarrow> BlockRequestResponse option" where
  "item_BlockRequestResponse t =
     (case t of
        Seq [i, Num a, Num b, Num l] \<Rightarrow>
          map_option (\<lambda>i'. \<lparr>bq_blockid = i', bq_start_id = a, bq_end_id = b, bq_len = l\<rparr>) (bytes_of i)
      | _ \<Rightarrow> None)"

definition item_msgs :: msg_serde where
  "item_msgs =
     \<lparr>s_root_update = item_serde RootUpdate_item item_RootUpdate,
      s_root_update_response = item_serde RootUpdateResponse_item item_RootUpdateResponse,
      s_block_request = item_serde BlockRequest_item item_BlockRequest,
      s_block_request_response = item_serde BlockRequestResponse_item item_BlockRequestResponse\<rparr>"

lemma item_msgs_serde:
  "serde_codec (s_root_update item_msgs) RootUpdate_ok"
  "serde_codec (s_root_update_response item_msgs) RootUpdateResponse_ok"
  "serde_codec (s_block_request item_msgs) BlockRequest_ok"
  "serde_codec (s_block_request_response item_msgs) BlockRequestResponse_ok"
  unfolding item_msgs_def msg_serde.simps
  by (rule item_serde_codec;
      simp add: RootUpdate_item_def item_RootUpdate_def RootUpdateResponse_item_def
        item_RootUpdateResponse_def BlockRequest_item_def item_BlockRequest_def
        BlockRequestResponse_item_def item_BlockRequestResponse_def BlockRef_item_inverse
        BlockRef_item_ok RootUpdate_ok_def BlockRequestResponse_ok_def)+

interpretation items: msg_codec leb_api item_msgs
  using leb_varint_codec item_msgs_serde by (simp add: msg_codec_def)

lemma item_msg_codec: "msg_codec leb_api item_msgs"
  by (rule items.msg_codec_axioms)

section \<open>Round trips\<close>

lemma wr_fits_room [simp]:
  "wr_fits \<lparr>wr_out = out, wr_limit = Some n\<rparr> bs \<longleftrightarrow> length out + length bs \<le> n"
  by (simp add: wr_fits_def)

lemma write_seq_room:
  "length out + length bs \<le> n \<Longrightarrow>
   write_seq \<lparr>wr_out = out, wr_limit = Some n\<rparr> bs = Inr \<lparr>wr_out = out @ bs, wr_limit = Some n\<rparr>"
  by (simp add: write_seq_def write_all_def)

lemma put_u8_room:
  "length out < n \<Longrightarrow>
   put_u8 \<lparr>wr_out = out, wr_limit = Some n\<rparr> b = Inr \<lparr>wr_out = out @ [b], wr_limit = Some n\<rparr>"
  by (simp add: put_u8_def)

lemma unwrap_Inr [simp]: "unwrap_res (Inr x) = Inr x"
  by (simp add: unwrap_res_def)

lemmas room_simps = write_seq_room put_u8_room

lemma encode_cbor_room:
  assumes "1 + length (to_writer S x) \<le> room"
  shows "encode_cbor S d x \<lparr>wr_out = [], wr_limit = Some room\<rparr> = Inr (d # to_writer S x)"
  using assms by (simp add: encode_cbor_def room_simps)

text \<open>The iterator of both versions is the same.\<close>

lemma VarintIter_next_eq: "VarintIter_next V bs = RunlengthIter_next V bs"
  by (simp add: VarintIter_next_def RunlengthIter_next_def)

lemma VarintIter_sums_eq: "VarintIter_sums V fuel a bs = status_sums V fuel a bs"
proof (induction fuel arbitrary: a bs)
  case 0
  show ?case by simp
next
  case (Suc fuel)
  then show ?case by (simp add: VarintIter_next_eq)
qed

text \<open>Differences of a sorted list, and the list back from them.\<close>

fun deltas :: "nat \<Rightarrow> nat list \<Rightarrow> nat list" where
  "deltas a [] = []"
| "deltas a (x # xs) = (x - a) # deltas x xs"

lemma sums_deltas: "sorted (a # xs) \<Longrightarrow> sums a (deltas a xs) = xs"
  by (induction xs arbitrary: a) auto

lemma deltas_sum: "sorted (a # xs) \<Longrightarrow> a + sum_list (deltas a xs) = last (a # xs)"
proof (induction xs arbitrary: a)
  case Nil
  then show ?case by simp
next
  case (Cons x xs)
  from Cons.IH [of x] Cons.prems show ?case by simp
qed

lemma length_deltas [simp]: "length (deltas a xs) = length xs"
  by (induction xs arbitrary: a) auto

lemma deltas_bound: "\<forall>x \<in> set xs. x < n \<Longrightarrow> \<forall>d \<in> set (deltas a xs). d < (n::nat)"
  by (induction xs arbitrary: a) auto

lemma take_deltas: "deltas a (take k xs) = take k (deltas a xs)"
  by (induction xs arbitrary: a k) (simp_all add: take_Cons split: nat.split)

lemma range_bounds_simps [simp]:
  "range_bounds [] = []" "range_bounds ((f, t) # rs) = f # t # range_bounds rs"
  by (simp_all add: range_bounds_def)

lemma tuples_take_range_bounds: "tuples (take k (range_bounds rs)) = take (k div 2) rs"
proof (induction rs arbitrary: k)
  case Nil
  then show ?case by simp
next
  case (Cons r rs)
  obtain f t where r: "r = (f, t)" by (cases r)
  consider "k = 0" | "k = 1" | j where "k = Suc (Suc j)"
    by (metis One_nat_def not0_implies_Suc)
  then show ?case by cases (simp_all add: r Cons.IH)
qed

lemma range_bounds_take: "range_bounds (take k rs) = take (2 * k) (range_bounds rs)"
proof (induction rs arbitrary: k)
  case (Cons r rs)
  obtain f t where "r = (f, t)" by (cases r)
  then show ?case by (cases k) (simp_all add: Cons.IH)
qed simp

text \<open>The bytes a status message takes before it is cut: its discriminator and its differences.\<close>

definition status_size :: "varint_api \<Rightarrow> (nat \<times> nat) list \<Rightarrow> nat" where
  "status_size V rs = 1 + length (concat (map (enc_varint V) (deltas 0 (range_bounds rs))))"

lemma length_range_bounds [simp]: "length (range_bounds rs) = 2 * length rs"
  by (induction rs) (auto simp: range_bounds_def)

lemma cur_read_varint_enc:
  assumes "varint_codec V" and "n < 2 ^ 64"
  shows "cur_read_varint V (Cursor_new (enc_varint V n @ bs))
    = Inr (n, \<lparr>cur_data = enc_varint V n @ bs, cur_pos = length (enc_varint V n)\<rparr>)"
  using varint_codec.dec_enc [OF assms, of bs]
  by (simp add: cur_read_varint_def Cursor_new_def cur_rest_def)

context varint_codec
begin

lemma encode_deltas_room:
  assumes "sorted (a # xs)" and "\<forall>x \<in> set xs. x < 2 ^ 64" and "length out \<le> n"
  shows "encode_deltas V a xs \<lparr>wr_out = out, wr_limit = Some n\<rparr>
    = (if length out + length (enc_all (deltas a xs)) \<le> n
       then Inr \<lparr>wr_out = out @ enc_all (deltas a xs), wr_limit = Some n\<rparr> else Inl (IoErr WriteZero))"
  using assms
proof (induction xs arbitrary: a out)
  case Nil
  then show ?case by simp
next
  case (Cons x xs)
  then have x: "a + (x - a) = x" "x < 2 ^ 64" by simp_all
  let ?e = "enc_varint V (x - a)"
  show ?case
  proof (cases "length out + length ?e \<le> n")
    case True
    with Cons x show ?thesis by (simp add: write_seq_room)
  next
    case False
    with Cons.prems x show ?thesis by (simp add: write_seq_def write_all_def)
  qed
qed

text \<open>A cut anywhere in the bytes, also inside a number, leaves the sums of the whole numbers.\<close>

lemma status_sums_cut:
  assumes "a + sum_list ns < 2 ^ 64" and "length (take m (enc_all ns)) < fuel"
  shows "\<exists>j \<le> length ns. status_sums V fuel a (take m (enc_all ns)) = Inr (take j (sums a ns)) \<and>
    (length (enc_all ns) \<le> m \<longrightarrow> j = length ns) \<and> length (enc_all (take j ns)) \<le> m \<and>
    (m < length (enc_all (take (Suc j) ns)) \<or> j = length ns)"
  using assms
proof (induction ns arbitrary: a m fuel)
  case Nil
  then obtain f where "fuel = Suc f" by (cases fuel) auto
  then show ?case by (simp add: RunlengthIter_next_def dec_Nil)
next
  case (Cons n ns)
  then obtain f where fuel: "fuel = Suc f" by (cases fuel) auto
  have n: "n < 2 ^ 64" using Cons.prems(1) by simp
  let ?e = "enc_varint V n"
  show ?case
  proof (cases "m < length ?e")
    case True
    then have cut: "take m (enc_all (n # ns)) = take m ?e" by simp
    have "status_sums V fuel a (take m (enc_all (n # ns))) = Inr []"
      unfolding cut using dec_short [OF n True] fuel by (simp add: RunlengthIter_next_def)
    with True show ?thesis by (intro exI [of _ 0]) auto
  next
    case False
    then have tk: "take m (enc_all (n # ns)) = ?e @ take (m - length ?e) (enc_all ns)" by simp
    have "a + n + sum_list ns < 2 ^ 64" using Cons.prems(1) by (simp add: add.assoc)
    moreover have "length (take (m - length ?e) (enc_all ns)) < f"
      using Cons.prems(2) fuel tk enc_length [OF n] by auto
    ultimately obtain j where j: "j \<le> length ns"
      "status_sums V f (a + n) (take (m - length ?e) (enc_all ns)) = Inr (take j (sums (a + n) ns))"
      "length (enc_all ns) \<le> m - length ?e \<longrightarrow> j = length ns" "length (enc_all (take j ns)) \<le> m - length ?e"
      "m - length ?e < length (enc_all (take (Suc j) ns)) \<or> j = length ns"
      using Cons.IH by blast
    show ?thesis
    proof (intro exI [of _ "Suc j"] conjI impI)
      show "status_sums V fuel a (take m (enc_all (n # ns))) = Inr (take (Suc j) (sums a (n # ns)))"
        using j(2) tk fuel n Cons.prems(1) by (simp add: RunlengthIter_next_def dec_enc)
      show "m < length (enc_all (take (Suc (Suc j)) (n # ns))) \<or> Suc j = length (n # ns)"
        using j(5) False by auto
    qed (use j False in auto)
  qed
qed

lemma status_size_take: "status_size V (take k rs) = 1 + length (enc_all (take (2 * k) (deltas 0 (range_bounds rs))))"
  by (simp add: status_size_def range_bounds_take take_deltas)

lemma status_size_take_le: "status_size V (take k rs) \<le> status_size V rs"
  unfolding status_size_take by (simp add: status_size_def enc_all_take_le)

lemma status_size_upper:
  assumes "\<forall>x \<in> set (range_bounds rs). x < 2 ^ 64"
  shows "status_size V rs \<le> 1 + 20 * length rs"
proof -
  have "length (enc_all (deltas 0 (range_bounds rs))) \<le> 10 * length (deltas 0 (range_bounds rs))"
    using deltas_bound [OF assms, of 0] by (intro enc_all_upper) blast
  then show ?thesis by (simp add: status_size_def)
qed

lemma status_msg_cut:
  assumes srt: "sorted (range_bounds rs)" and bnd: "\<forall>x \<in> set (range_bounds rs). x < 2 ^ 64"
    and room: "status_size V rs \<le> room"
  shows "\<exists>bs k. MyCodec_encode V S room (TransferStatus \<lparr>missing_ranges = rs\<rparr>) [] = Inr bs \<and>
    length bs = min MTU2 (status_size V rs) \<and>
    MyCodec_decode V S bs = Inr (Some (TransferStatus \<lparr>missing_ranges = take k rs\<rparr>), []) \<and>
    k \<le> length rs \<and> status_size V (take k rs) \<le> MTU2 \<and>
    (k < length rs \<longrightarrow> MTU2 < status_size V (take (Suc k) rs))"
proof -
  let ?xs = "range_bounds rs"
  let ?ds = "deltas 0 ?xs"
  have srt0: "sorted (0 # ?xs)" using srt by simp
  have "last (0 # ?xs) < 2 ^ 64" using bnd by (cases "?xs = []") auto
  then have sum: "0 + sum_list ?ds < 2 ^ 64" using deltas_sum [OF srt0] by simp
  have enc: "MyCodec_encode V S room (TransferStatus \<lparr>missing_ranges = rs\<rparr>) []
      = Inr (1 # take (MTU2 - 1) (enc_all ?ds))"
    using encode_deltas_room [OF srt0 bnd, of "[1]" room] room
    by (simp add: MyCodec_encode_def put_u8_room vec_truncate_def MTU2_def status_size_def)
  obtain j where j: "j \<le> length ?ds"
    "status_sums V (Suc (length (take (MTU2 - 1) (enc_all ?ds)))) 0 (take (MTU2 - 1) (enc_all ?ds))
       = Inr (take j ?xs)"
    "length (enc_all (take j ?ds)) \<le> MTU2 - 1"
    "MTU2 - 1 < length (enc_all (take (Suc j) ?ds)) \<or> j = length ?ds"
    using status_sums_cut [OF sum lessI, of "MTU2 - 1"] by (auto simp: sums_deltas [OF srt0])
  have down: "length (enc_all (take i ?ds)) \<le> length (enc_all (take i' ?ds))" if "i \<le> i'" for i i'
    using enc_all_take_le [of i "take i' ?ds"] that by (simp add: min_def)
  show ?thesis
  proof (intro exI conjI impI)
    show "MyCodec_decode V S (1 # take (MTU2 - 1) (enc_all ?ds))
        = Inr (Some (TransferStatus \<lparr>missing_ranges = take (j div 2) rs\<rparr>), [])"
      using j(2) by (simp add: MyCodec_decode_def VarintIter_sums_eq tuples_take_range_bounds
          del: status_sums.simps VarintIter_sums.simps)
    show "status_size V (take (j div 2) rs) \<le> MTU2"
      using down [of "2 * (j div 2)" j] j(3) by (simp add: status_size_take MTU2_def)
    show "MTU2 < status_size V (take (Suc (j div 2)) rs)" if "j div 2 < length rs"
    proof -
      have "MTU2 - 1 < length (enc_all (take (Suc j) ?ds))" using j(4) that by auto
      also have "\<dots> \<le> length (enc_all (take (2 * Suc (j div 2)) ?ds))" by (intro down) presburger
      finally show ?thesis unfolding status_size_take by linarith
    qed
    show "length (1 # take (MTU2 - 1) (enc_all ?ds)) = min MTU2 (status_size V rs)"
      by (simp add: status_size_def MTU2_def min_def)
  qed (use enc j(1) in simp_all)
qed

lemma status_msg_full:
  assumes "sorted (range_bounds rs)" and "\<forall>x \<in> set (range_bounds rs). x < 2 ^ 64"
    and "room < status_size V rs" and "1 \<le> room"
  shows "MyCodec_encode V S room (TransferStatus \<lparr>missing_ranges = rs\<rparr>) [] = Inl (IoErr WriteZero)"
  using encode_deltas_room [of 0 "range_bounds rs" "[1]" room] assms
  by (simp add: MyCodec_encode_def put_u8_room status_size_def)

lemma payload_encode:
  assumes "tp_chunkid p < 2 ^ 64"
    and "1 + length (enc_varint V (tp_chunkid p)) + length (tp_data p) \<le> MTU2" and "MTU2 \<le> room"
  shows "MyCodec_encode V S room (TransferPayload p) []
    = Inr (0 # enc_varint V (tp_chunkid p) @ tp_data p)"
  using assms len_enc [OF assms(1)] by (simp add: MyCodec_encode_def room_simps)

lemma payload_decode:
  assumes "tp_chunkid p < 2 ^ 64"
  shows "MyCodec_decode V S (0 # enc_varint V (tp_chunkid p) @ tp_data p)
    = Inr (Some (TransferPayload p), [])"
  using cur_read_varint_enc [OF varint_codec_axioms assms]
  by (simp add: MyCodec_decode_def)

end

text \<open>What a message must satisfy to be sent: the types of its fields, and room in the buffer.\<close>

definition Msg_ok :: "varint_api \<Rightarrow> msg_serde \<Rightarrow> nat \<Rightarrow> Msg \<Rightarrow> bool" where
  "Msg_ok V S room m \<longleftrightarrow>
     (case m of
        TransferPayload p \<Rightarrow>
          tp_chunkid p < 2 ^ 64 \<and> 1 + length (enc_varint V (tp_chunkid p)) + length (tp_data p) \<le> MTU2
      | TransferStatus s \<Rightarrow>
          sorted (range_bounds (missing_ranges s)) \<and>
          (\<forall>x \<in> set (range_bounds (missing_ranges s)). x < 2 ^ 64) \<and>
          status_size V (missing_ranges s) \<le> MTU2
      | RootUpdate u \<Rightarrow> RootUpdate_ok u \<and> 1 + length (to_writer (s_root_update S) u) \<le> room
      | RootUpdateResponse r \<Rightarrow>
          RootUpdateResponse_ok r \<and> 1 + length (to_writer (s_root_update_response S) r) \<le> room
      | BlockRequest r \<Rightarrow> BlockRequest_ok r \<and> 1 + length (to_writer (s_block_request S) r) \<le> room
      | BlockRequestResponse r \<Rightarrow>
          BlockRequestResponse_ok r \<and>
          1 + length (to_writer (s_block_request_response S) r) \<le> room)"

lemma status_size_one: "varint_codec V \<Longrightarrow> a \<le> b \<Longrightarrow> b < 2 ^ 64 \<Longrightarrow> status_size V [(a, b)] \<le> MTU2"
  using varint_codec.status_size_upper [of V "[(a, b)]"] by (simp add: MTU2_def)

lemma msg_read_back:
  assumes "msg_codec V S" and "MTU2 \<le> room" and "Msg_ok V S room m"
  shows "\<exists>bs. MyCodec_encode V S room m [] = Inr bs \<and> MyCodec_decode V S bs = Inr (Some m, [])"
proof -
  have V: "varint_codec V"
    and serde: "serde_codec (s_root_update S) RootUpdate_ok"
      "serde_codec (s_root_update_response S) RootUpdateResponse_ok"
      "serde_codec (s_block_request S) BlockRequest_ok"
      "serde_codec (s_block_request_response S) BlockRequestResponse_ok"
    using assms(1) by (auto simp: msg_codec_def)
  note laws = serde [THEN serde_codec.read_written]
  show ?thesis
  proof (cases m)
    case (TransferPayload p)
    then have p: "tp_chunkid p < 2 ^ 64"
      "1 + length (enc_varint V (tp_chunkid p)) + length (tp_data p) \<le> MTU2"
      using assms(3) by (simp_all add: Msg_ok_def)
    show ?thesis
      unfolding TransferPayload
      using varint_codec.payload_encode [OF V p assms(2)] varint_codec.payload_decode [OF V p(1)]
      by blast
  next
    case (TransferStatus s)
    moreover obtain rs where "s = \<lparr>missing_ranges = rs\<rparr>" by (cases s)
    ultimately have m: "m = TransferStatus \<lparr>missing_ranges = rs\<rparr>" by simp
    then have rs: "sorted (range_bounds rs)" "\<forall>x \<in> set (range_bounds rs). x < 2 ^ 64"
      "status_size V rs \<le> MTU2"
      using assms(3) by (simp_all add: Msg_ok_def)
    with assms(2) have "status_size V rs \<le> room" by linarith
    from varint_codec.status_msg_cut [OF V rs(1,2) this, of S]
    obtain bs k where bs: "MyCodec_encode V S room (TransferStatus \<lparr>missing_ranges = rs\<rparr>) [] = Inr bs"
      "MyCodec_decode V S bs = Inr (Some (TransferStatus \<lparr>missing_ranges = take k rs\<rparr>), [])"
      "k < length rs \<longrightarrow> MTU2 < status_size V (take (Suc k) rs)"
      by blast
    have "\<not> k < length rs" using bs(3) rs(3) varint_codec.status_size_take_le [OF V, of "Suc k" rs] by linarith
    then show ?thesis unfolding m using bs(1,2) by auto
  qed (use assms(3) laws in \<open>auto simp: Msg_ok_def MyCodec_encode_def encode_cbor_room
      MyCodec_decode_def from_reader_unwrap_def\<close>)
qed

text \<open>
  C17: Every message with well-typed fields that fits its datagram is encoded without error and read
  back as it was: payloads and status updates whose bytes fit one segment, the ranges of a status in
  increasing order, and the four messages of the control protocol, which must fit the free room of the
  buffer. The buffer is empty before and after, as for every datagram.
\<close>

theorem msg_roundtrip:
  assumes "msg_codec V S" and "MTU2 \<le> room" and "Msg_ok V S room m"
  shows "\<exists>bs. MyCodec_encode V S room m [] = Inr bs \<and> MyCodec_decode V S bs = Inr (Some m, [])"
  using assms by (rule msg_read_back)

text \<open>
  C18: What becomes of a status update of any length, with ranges in increasing order. If all its bytes fit
  the free room of the buffer, it becomes one datagram, cut at one segment, and the receiver reads from
  it exactly the longest prefix of the ranges whose bytes fit one segment, even when the cut falls
  inside a number: never fewer than the first 72, unless there are fewer. If they do not fit the room,
  of which the code reserves only one segment, encoding fails with an error before the cut.
\<close>

theorem status_msg_truncated:
  assumes "msg_codec V S" and "sorted (range_bounds rs)"
    and "\<forall>x \<in> set (range_bounds rs). x < 2 ^ 64" and "MTU2 \<le> room"
  shows "if status_size V rs \<le> room then
      \<exists>bs k. MyCodec_encode V S room (TransferStatus \<lparr>missing_ranges = rs\<rparr>) [] = Inr bs \<and>
        length bs = min MTU2 (status_size V rs) \<and>
        MyCodec_decode V S bs = Inr (Some (TransferStatus \<lparr>missing_ranges = take k rs\<rparr>), []) \<and>
        k \<le> length rs \<and> status_size V (take k rs) \<le> MTU2 \<and>
        (k < length rs \<longrightarrow> MTU2 < status_size V (take (Suc k) rs) \<and> 72 \<le> k)
    else MyCodec_encode V S room (TransferStatus \<lparr>missing_ranges = rs\<rparr>) [] = Inl (IoErr WriteZero)"
proof (cases "status_size V rs \<le> room")
  case True
  have V: "varint_codec V" using assms(1) by (simp add: msg_codec_def)
  have "72 \<le> k" if "k < length rs" "MTU2 < status_size V (take (Suc k) rs)" for k
  proof -
    have "\<forall>x \<in> set (range_bounds (take (Suc k) rs)). x < 2 ^ 64"
      using assms(3) unfolding range_bounds_take by (blast dest: in_set_takeD)
    from varint_codec.status_size_upper [OF V this] that show ?thesis by (simp add: MTU2_def)
  qed
  with varint_codec.status_msg_cut [OF V assms(2,3) True, of S] show ?thesis
    unfolding if_P [OF True] by blast
next
  case False
  have "varint_codec V" using assms(1) by (simp add: msg_codec_def)
  from varint_codec.status_msg_full [OF this assms(2,3), of room S] False assms(4)
  show ?thesis by (simp add: MTU2_def)
qed

text \<open>The witnesses use the serialisation of \<open>Serde\<close>.\<close>

lemma item_bytes_length: "length (enc_item (bytes_item bs)) \<le> 2 + 3 * length bs"
proof -
  have one: "length (leb_enc (unat b)) \<le> 2" for b :: u8
  proof -
    have "unat b div 128 < 128" using unat_u8_lt [of b] by (intro less_mult_imp_div_less) simp
    then show ?thesis by (simp add: leb_enc.simps)
  qed
  have "length (concat (map (enc_item \<circ> (\<lambda>b. Num (unat b))) bs)) \<le> 3 * length bs"
    by (induction bs) (use one in \<open>auto intro: order_trans add_mono\<close>)
  then show ?thesis by (simp add: bytes_item_def)
qed

theorem msg_roundtrip_witness:
  "\<exists>bs. MyCodec_encode leb_api item_msgs 8192
      (BlockRequestResponse \<lparr>bq_blockid = replicate 32 7, bq_start_id = 5, bq_end_id = 9, bq_len = 4\<rparr>) []
      = Inr bs \<and>
    MyCodec_decode leb_api item_msgs bs
      = Inr (Some (BlockRequestResponse
          \<lparr>bq_blockid = replicate 32 7, bq_start_id = 5, bq_end_id = 9, bq_len = 4\<rparr>), [])"
proof (rule msg_roundtrip [OF item_msg_codec])
  show "MTU2 \<le> 8192" by (simp add: MTU2_def)
  show "Msg_ok leb_api item_msgs 8192 (BlockRequestResponse
      \<lparr>bq_blockid = replicate 32 7, bq_start_id = 5, bq_end_id = 9, bq_len = 4\<rparr>)"
    using item_bytes_length [of "replicate 32 7"]
    by (simp add: Msg_ok_def BlockRequestResponse_ok_def BlockId_ok_def item_msgs_def item_serde_def
        BlockRequestResponse_item_def leb_enc.simps)
qed

text \<open>800 ranges of one chunk each, with differences of one byte: 1601 bytes, of which 729 ranges arrive
  if the buffer has room for them all; with only the reserved segment the update is not sent.\<close>

definition demo_ranges :: "nat \<Rightarrow> (nat \<times> nat) list" where
  "demo_ranges n = map (\<lambda>i. (2 * i, 2 * i + 1)) [0..<n]"

lemma demo_ranges_bounds: "range_bounds (demo_ranges n) = [0..<2 * n]"
  by (induction n) (simp_all add: demo_ranges_def range_bounds_def)

lemma demo_deltas: "deltas a [Suc a..<Suc a + n] = replicate n 1"
proof (induction n arbitrary: a)
  case (Suc n)
  have "[Suc a..<Suc a + Suc n] = Suc a # [Suc (Suc a)..<Suc (Suc a) + n]" by (simp add: upt_conv_Cons)
  then show ?case using Suc [of "Suc a"] by simp
qed simp

lemma demo_status_size: "status_size leb_api (demo_ranges n) = 1 + 2 * n"
proof (cases n)
  case (Suc m)
  then have "[0..<2 * n] = 0 # [Suc 0..<Suc 0 + Suc (2 * m)]" by (simp add: upt_conv_Cons del: upt_Suc)
  then have "deltas 0 (range_bounds (demo_ranges n)) = 0 # replicate (Suc (2 * m)) 1"
    using demo_deltas [of 0 "Suc (2 * m)"] by (simp add: demo_ranges_bounds del: upt_Suc)
  moreover have "length (leb_enc 0) = 1" "length (leb_enc 1) = 1" by (simp_all add: leb_enc.simps)
  ultimately show ?thesis using Suc by (simp add: status_size_def leb_api_def length_concat sum_list_replicate)
qed (simp add: demo_ranges_def status_size_def)

lemma demo_ranges_take: "take k (demo_ranges n) = demo_ranges (min k n)"
  by (simp add: demo_ranges_def take_map min_def)

theorem status_msg_truncated_witness:
  "(\<exists>bs. MyCodec_encode leb_api item_msgs 8192 (TransferStatus \<lparr>missing_ranges = demo_ranges 800\<rparr>) [] = Inr bs \<and>
     length bs = 1460 \<and>
     MyCodec_decode leb_api item_msgs bs = Inr (Some (TransferStatus \<lparr>missing_ranges = demo_ranges 729\<rparr>), [])) \<and>
   MyCodec_encode leb_api item_msgs 1460 (TransferStatus \<lparr>missing_ranges = demo_ranges 800\<rparr>) [] = Inl (IoErr WriteZero)"
proof -
  let ?rs = "demo_ranges 800"
  have len: "length ?rs = 800" by (simp add: demo_ranges_def)
  have rs: "sorted (range_bounds ?rs)" "\<forall>x \<in> set (range_bounds ?rs). x < 2 ^ 64"
    by (simp_all add: demo_ranges_bounds)
  have room: "MTU2 \<le> 8192" "MTU2 \<le> 1460" by (simp_all add: MTU2_def)
  obtain bs k where bs: "MyCodec_encode leb_api item_msgs 8192 (TransferStatus \<lparr>missing_ranges = ?rs\<rparr>) [] = Inr bs"
    "length bs = min MTU2 (status_size leb_api ?rs)"
    "MyCodec_decode leb_api item_msgs bs = Inr (Some (TransferStatus \<lparr>missing_ranges = take k ?rs\<rparr>), [])"
    and k: "k \<le> length ?rs" "status_size leb_api (take k ?rs) \<le> MTU2"
    "k < length ?rs \<longrightarrow> MTU2 < status_size leb_api (take (Suc k) ?rs)"
    using status_msg_truncated [OF item_msg_codec rs room(1)] by (auto simp: demo_status_size)
  have "k = 729" using k unfolding len demo_ranges_take demo_status_size MTU2_def by auto
  with bs have "length bs = 1460"
    "MyCodec_decode leb_api item_msgs bs = Inr (Some (TransferStatus \<lparr>missing_ranges = demo_ranges 729\<rparr>), [])"
    by (simp_all add: demo_status_size demo_ranges_take MTU2_def)
  moreover have "MyCodec_encode leb_api item_msgs 1460 (TransferStatus \<lparr>missing_ranges = ?rs\<rparr>) [] = Inl (IoErr WriteZero)"
    using status_msg_truncated [OF item_msg_codec rs room(2)] by (simp add: demo_status_size)
  ultimately show ?thesis using bs(1) by blast
qed

text \<open>
  The numbers that can be read from the start of some bytes, and what is wrong with a status: bytes
  that are no number and not just cut off, or a bound that does not fit 64 bits.
\<close>

inductive varints_read :: "varint_api \<Rightarrow> u8 list \<Rightarrow> nat list \<Rightarrow> u8 list \<Rightarrow> bool" for V where
  stop: "varints_read V bs [] bs"
| more: "dec_varint V bs = Inr (n, bs') \<Longrightarrow> varints_read V bs' ns rest \<Longrightarrow> varints_read V bs (n # ns) rest"

inductive_cases varints_readE: "varints_read V bs ns rest"

definition no_varint :: "varint_api \<Rightarrow> nat \<Rightarrow> u8 list \<Rightarrow> bool" where
  "no_varint V a bs \<longleftrightarrow>
     (\<exists>ns rest k. varints_read V bs ns rest \<and> a + sum_list ns < 2 ^ 64 \<and> dec_varint V rest = Inl k \<and> k \<noteq> UnexpectedEof)"

definition bound_overflows :: "varint_api \<Rightarrow> nat \<Rightarrow> u8 list \<Rightarrow> bool" where
  "bound_overflows V a bs \<longleftrightarrow>
     (\<exists>ns n rest. varints_read V bs (ns @ [n]) rest \<and> a + sum_list ns < 2 ^ 64 \<and> 2 ^ 64 \<le> a + sum_list ns + n)"

lemma varints_read_Inl: "dec_varint V bs = Inl k \<Longrightarrow> varints_read V bs ns rest \<longleftrightarrow> ns = [] \<and> rest = bs"
  by (auto elim: varints_readE intro: stop)

lemma varints_read_Inr:
  "dec_varint V bs = Inr (n, bs') \<Longrightarrow>
   varints_read V bs ns rest \<longleftrightarrow> ns = [] \<and> rest = bs \<or> (\<exists>ms. ns = n # ms \<and> varints_read V bs' ms rest)"
  by (auto elim: varints_readE intro: stop more)

lemma no_varint_Inl: "dec_varint V bs = Inl k \<Longrightarrow> no_varint V a bs \<longleftrightarrow> a < 2 ^ 64 \<and> k \<noteq> UnexpectedEof"
  by (auto simp: no_varint_def varints_read_Inl)

lemma no_varint_Inr:
  assumes "dec_varint V bs = Inr (n, bs')"
  shows "no_varint V a bs \<longleftrightarrow> a + n < 2 ^ 64 \<and> no_varint V (a + n) bs'"
proof
  assume "no_varint V a bs"
  then obtain ns rest k where r: "varints_read V bs ns rest" "a + sum_list ns < 2 ^ 64"
    "dec_varint V rest = Inl k" "k \<noteq> UnexpectedEof"
    by (auto simp: no_varint_def)
  then obtain ms where "ns = n # ms" "varints_read V bs' ms rest"
    using assms by (auto simp: varints_read_Inr [OF assms])
  with r show "a + n < 2 ^ 64 \<and> no_varint V (a + n) bs'"
    unfolding no_varint_def by (auto simp: add.assoc)
next
  assume "a + n < 2 ^ 64 \<and> no_varint V (a + n) bs'"
  then show "no_varint V a bs"
    unfolding no_varint_def by (metis add.assoc assms more sum_list.Cons)
qed

lemma bound_overflows_Inl: "dec_varint V bs = Inl k \<Longrightarrow> \<not> bound_overflows V a bs"
  by (simp add: bound_overflows_def varints_read_Inl)

lemma bound_overflows_Inr:
  assumes "dec_varint V bs = Inr (n, bs')" and "a < 2 ^ 64"
  shows "bound_overflows V a bs \<longleftrightarrow> 2 ^ 64 \<le> a + n \<or> bound_overflows V (a + n) bs'"
proof
  assume "bound_overflows V a bs"
  then obtain ns m rest where r: "varints_read V bs (ns @ [m]) rest" "a + sum_list ns < 2 ^ 64"
    "2 ^ 64 \<le> a + sum_list ns + m"
    by (auto simp: bound_overflows_def)
  show "2 ^ 64 \<le> a + n \<or> bound_overflows V (a + n) bs'"
  proof (cases ns)
    case Nil
    then show ?thesis using r varints_read_Inr [OF assms(1)] by auto
  next
    case (Cons x ms)
    then have "varints_read V bs' (ms @ [m]) rest" "x = n" using r(1) varints_read_Inr [OF assms(1)] by auto
    then show ?thesis using r(2,3) Cons unfolding bound_overflows_def by (auto simp: add.assoc)
  qed
next
  assume "2 ^ 64 \<le> a + n \<or> bound_overflows V (a + n) bs'"
  then show "bound_overflows V a bs"
  proof
    assume "2 ^ 64 \<le> a + n"
    moreover have "varints_read V bs ([] @ [n]) bs'" using more [OF assms(1) stop] by simp
    ultimately show ?thesis using assms(2) unfolding bound_overflows_def by fastforce
  next
    assume "bound_overflows V (a + n) bs'"
    then obtain ns m rest where "varints_read V bs' (ns @ [m]) rest" "a + n + sum_list ns < 2 ^ 64"
      "2 ^ 64 \<le> a + n + sum_list ns + m"
      by (auto simp: bound_overflows_def)
    then have "varints_read V bs ((n # ns) @ [m]) rest" "a + sum_list (n # ns) < 2 ^ 64"
      "2 ^ 64 \<le> a + sum_list (n # ns) + m"
      using more [OF assms(1)] by (simp_all add: add.assoc)
    then show ?thesis unfolding bound_overflows_def by blast
  qed
qed

context varint_codec
begin

lemma status_sums_panics:
  assumes "length bs < fuel" and "a < 2 ^ 64"
  shows "status_sums V fuel a bs = Inl e \<longleftrightarrow>
    no_varint V a bs \<and> e = Panic ExplicitPanic \<or> bound_overflows V a bs \<and> e = Panic ArithOverflow"
  using assms
proof (induction fuel arbitrary: a bs)
  case (Suc f)
  show ?case
  proof (cases "dec_varint V bs")
    case (Inl k)
    then show ?thesis
      using Suc.prems by (cases k) (auto simp: RunlengthIter_next_def no_varint_Inl bound_overflows_Inl)
  next
    case (Inr xr)
    obtain n rest where xr: "dec_varint V bs = Inr (n, rest)" using Inr by (cases xr) simp
    have IH: "a + n < 2 ^ 64 \<Longrightarrow> status_sums V f (a + n) rest = Inl e \<longleftrightarrow>
        no_varint V (a + n) rest \<and> e = Panic ExplicitPanic \<or> bound_overflows V (a + n) rest \<and> e = Panic ArithOverflow"
      using dec_shorter [OF xr] Suc.prems by (intro Suc.IH) simp_all
    have over: "\<not> bound_overflows V (a + n) rest" if "2 ^ 64 \<le> a + n"
      using that by (auto simp: bound_overflows_def)
    show ?thesis
      using IH over Suc.prems(2)
      by (cases "a + n < 2 ^ 64")
        (auto simp: RunlengthIter_next_def xr add64_def no_varint_Inr [OF xr] bound_overflows_Inr [OF xr] bindE_def
          split: sum.splits)
  qed
qed simp

end

lemma small_discriminator:
  fixes d :: u8
  obtains "d = 0" | "d = 1" | "d = 2" | "d = 3" | "d = 4" | "d = 5" | "5 < unat d"
proof (cases "5 < unat d")
  case False
  have val: "unat d = 0 \<Longrightarrow> d = 0" "unat d = 1 \<Longrightarrow> d = 1" "unat d = 2 \<Longrightarrow> d = 2" "unat d = 3 \<Longrightarrow> d = 3"
    "unat d = 4 \<Longrightarrow> d = 4" "unat d = 5 \<Longrightarrow> d = 5"
    by (simp_all add: word_unat_eq_iff)
  from False consider "unat d = 0" | "unat d = 1" | "unat d = 2" | "unat d = 3" | "unat d = 4" | "unat d = 5"
    by linarith
  then show thesis
    by cases (blast dest: val intro: that)+
qed (rule that(7))

text \<open>
  C34: What the decoder makes of a malformed datagram. It has an error for one kind only, a payload whose
  chunk id cannot be read; all others end the process: a discriminator above 5, one of the four control
  messages when the deserialiser rejects it, and a status with bytes that are no number or with a bound
  of 64 bits or more. These are all the errors and panics; any other datagram is decoded.
\<close>

theorem decode_malformed_panics:
  assumes "msg_codec V S"
  shows "MyCodec_decode V S (d # bs) = Inl e \<longleftrightarrow>
    (d = 0 \<and> (\<exists>k. dec_varint V bs = Inl k \<and> e = IoErr k)) \<or>
    (d = 1 \<and> no_varint V 0 bs \<and> e = Panic ExplicitPanic) \<or>
    (d = 1 \<and> bound_overflows V 0 bs \<and> e = Panic ArithOverflow) \<or>
    (d = 2 \<and> from_reader (s_root_update S) bs = None \<and> e = Panic UnwrapErr) \<or>
    (d = 3 \<and> from_reader (s_root_update_response S) bs = None \<and> e = Panic UnwrapErr) \<or>
    (d = 4 \<and> from_reader (s_block_request S) bs = None \<and> e = Panic UnwrapErr) \<or>
    (d = 5 \<and> from_reader (s_block_request_response S) bs = None \<and> e = Panic UnwrapErr) \<or>
    (5 < unat d \<and> e = Panic UnreachableCode)"
proof -
  have V: "varint_codec V" using assms by (simp add: msg_codec_def)
  note sums = varint_codec.status_sums_panics [OF V, of bs "Suc (length bs)" 0 e]
  consider "d = 0" | "d = 1" | "d = 2" | "d = 3" | "d = 4" | "d = 5" | "5 < unat d"
    by (rule small_discriminator)
  then show ?thesis
  proof cases
    case 1
    then show ?thesis
      by (cases "dec_varint V bs")
        (auto simp: MyCodec_decode_def cur_read_varint_def Cursor_new_def cur_rest_def slice_from_def)
  next
    case 2
    then show ?thesis
      using sums by (auto simp: MyCodec_decode_def VarintIter_sums_eq bindE_def simp del: status_sums.simps
          VarintIter_sums.simps split: sum.splits)
  next
    case 7
    then have "d \<noteq> 0" "d \<noteq> 1" "d \<noteq> 2" "d \<noteq> 3" "d \<noteq> 4" "d \<noteq> 5" by auto
    with 7 show ?thesis by (auto simp: MyCodec_decode_def)
  qed (auto simp: MyCodec_decode_def from_reader_unwrap_def split: option.splits)
qed

theorem decode_malformed_panics_witness:
  "MyCodec_decode leb_api item_msgs [6] = Inl (Panic UnreachableCode) \<and>
   MyCodec_decode leb_api item_msgs [3] = Inl (Panic UnwrapErr) \<and>
   MyCodec_decode leb_api item_msgs [0] = Inl (IoErr UnexpectedEof) \<and>
   MyCodec_decode leb_api item_msgs (1 # leb_enc (2 ^ 64 - 1) @ leb_enc 1) = Inl (Panic ArithOverflow)"
proof -
  have rejected: "from_reader (s_root_update_response item_msgs) [] = None"
    by (simp add: item_msgs_def item_serde_def)
  have "dec_varint leb_api (leb_enc (2 ^ 64 - 1) @ leb_enc 1) = Inr (2 ^ 64 - 1, leb_enc 1)"
    "dec_varint leb_api (leb_enc 1 @ []) = Inr (1, [])"
    using varint_codec.dec_enc [OF leb_varint_codec, of "2 ^ 64 - 1" "leb_enc 1"]
      varint_codec.dec_enc [OF leb_varint_codec, of 1 "[]"] by (simp_all add: leb_api_def)
  then have "varints_read leb_api (leb_enc (2 ^ 64 - 1) @ leb_enc 1) ([2 ^ 64 - 1] @ [1]) []"
    by (auto intro: varints_read.intros)
  then have over: "bound_overflows leb_api 0 (leb_enc (2 ^ 64 - 1) @ leb_enc 1)"
    unfolding bound_overflows_def by (intro exI [of _ "[2 ^ 64 - 1]"] exI [of _ 1] exI [of _ "[]"]) simp
  have eof: "dec_varint leb_api [] = Inl UnexpectedEof" by (rule varint_codec.dec_Nil [OF leb_varint_codec])
  show ?thesis
    using decode_malformed_panics [OF item_msg_codec, of 6 "[]" "Panic UnreachableCode"]
      decode_malformed_panics [OF item_msg_codec, of 3 "[]" "Panic UnwrapErr"]
      decode_malformed_panics [OF item_msg_codec, of 0 "[]" "IoErr UnexpectedEof"]
      decode_malformed_panics [OF item_msg_codec, of 1 "leb_enc (2 ^ 64 - 1) @ leb_enc 1" "Panic ArithOverflow"]
      rejected over eof
    by simp
qed

end
