(* ===== verification/Handler.thy ===== *)
theory Handler
  imports Visitor Codec2 Chunking
begin

text \<open>
  The protocol handler of version 2 (\<^verbatim>\<open>v2/scsync/src/handler.rs\<close>): per peer the requests in
  flight, the blocks being sent and the blocks being received; one operation per message; and the
  three kinds of background task, the repeated block request, the sender of status updates and the
  sender of payloads. An operation gives the new state of the node and the tasks it starts; sending a
  message is such a task. What Tokio holds for the node (oneshot and unbounded channels) and the
  machine's files are part of the state.
\<close>

definition CHUNK_SIZE :: nat where
  "CHUNK_SIZE = 1450"

section \<open>State\<close>

type_synonym SocketAddr = "u8 list \<times> nat"

record TransferOut =
  to_todo :: "(nat \<times> nat) list"
  to_cursor :: "nat option"
  to_transfers :: "(nat \<times> nat \<times> BlockId) list"
  to_transfer_cursor :: nat

text \<open>The argument is the random 32-bit number the default draws.\<close>

definition TransferOut_default :: "nat \<Rightarrow> TransferOut" where
  "TransferOut_default r =
     \<lparr>to_todo = [], to_cursor = None, to_transfers = [], to_transfer_cursor = r mod 2 ^ 32\<rparr>"

record Transfer =
  tr_blockid :: BlockId
  tr_start :: nat
  tr_end :: nat

record TransferIn =
  ti_transfers :: "Transfer list"
  ti_status_tx :: "nat option"

definition TransferIn_default :: TransferIn where
  "TransferIn_default = \<lparr>ti_transfers = [], ti_status_tx = None\<rparr>"

definition TransferIn_transfer :: "TransferIn \<Rightarrow> nat \<Rightarrow> Transfer res" where
  "TransferIn_transfer tin chunkid =
     (case find (\<lambda>t. tr_start t \<le> chunkid \<and> chunkid < tr_end t) (ti_transfers tin) of
        None \<Rightarrow> Inl (Panic UnwrapNone)
      | Some t \<Rightarrow> Inr t)"

text \<open>A \<^verbatim>\<open>oneshot::Sender\<close> and an \<^verbatim>\<open>UnboundedSender\<close> are the numbers of their channels.\<close>

record Client2 =
  pending_block_requests :: "BlockId \<rightharpoonup> nat"
  transfer_out :: TransferOut
  transfer_in :: TransferIn

definition Client2_default :: "nat \<Rightarrow> Client2" where
  "Client2_default r =
     \<lparr>pending_block_requests = Map.empty, transfer_out = TransferOut_default r,
      transfer_in = TransferIn_default\<rparr>"

datatype ClientState = Known | New

text \<open>
  Channels: a oneshot waits, has its value, was cancelled by dropping the sender, or has lost its
  receiver; an unbounded channel of units is the number of values in it and which ends are alive.
\<close>

datatype oneshot = Waiting | Fired | Canceled | Closed

record mpsc =
  mp_queue :: nat
  mp_tx :: bool
  mp_rx :: bool

record Runtime =
  rt_next :: nat
  rt_oneshot :: "nat \<Rightarrow> oneshot"
  rt_mpsc :: "nat \<Rightarrow> mpsc"

text \<open>
  The flag of a repeated request says whether it was spawned as a task of its own or is part of the
  task that receives.
\<close>

datatype task =
    SendTask Msg SocketAddr
  | RetryTask bool nat Msg SocketAddr
  | RetryWait bool nat Msg SocketAddr
  | StatusTask nat SocketAddr
  | PayloadTask SocketAddr

record Handler =
  h_folder :: path
  h_blockdb :: BlockDb
  h_clients :: "SocketAddr \<rightharpoonup> Client2"
  h_packet_delay :: nat
  h_fs :: fs2
  h_rt :: Runtime

text \<open>
  What the handler runs on: ciphers and serialiser, the stack, the working directory, and the order
  in which the hash map of the peers yields its keys.
\<close>

record env2 =
  e_api :: frontend_api
  e_stack :: nat
  e_cwd :: "u8 list list"
  e_keys :: "(SocketAddr \<rightharpoonup> Client2) \<Rightarrow> SocketAddr list"

section \<open>Channels\<close>

definition oneshot_channel :: "Runtime \<Rightarrow> nat \<times> Runtime" where
  "oneshot_channel rt =
     (rt_next rt, rt\<lparr>rt_next := Suc (rt_next rt),
                     rt_oneshot := (rt_oneshot rt)(rt_next rt := Waiting)\<rparr>)"

definition mpsc_unbounded :: "Runtime \<Rightarrow> nat \<times> Runtime" where
  "mpsc_unbounded rt =
     (rt_next rt, rt\<lparr>rt_next := Suc (rt_next rt),
                     rt_mpsc := (rt_mpsc rt)(rt_next rt := \<lparr>mp_queue = 0, mp_tx = True, mp_rx = True\<rparr>)\<rparr>)"

definition oneshot_send :: "Runtime \<Rightarrow> nat \<Rightarrow> Runtime res" where
  "oneshot_send rt c =
     (if rt_oneshot rt c = Waiting then Inr (rt\<lparr>rt_oneshot := (rt_oneshot rt)(c := Fired)\<rparr>)
      else Inl (Panic UnwrapErr))"

definition oneshot_drop :: "Runtime \<Rightarrow> nat \<Rightarrow> Runtime" where
  "oneshot_drop rt c =
     (if rt_oneshot rt c = Waiting then rt\<lparr>rt_oneshot := (rt_oneshot rt)(c := Canceled)\<rparr> else rt)"

definition unbounded_send :: "Runtime \<Rightarrow> nat \<Rightarrow> Runtime res" where
  "unbounded_send rt c =
     (let m = rt_mpsc rt c in
      if mp_rx m then Inr (rt\<lparr>rt_mpsc := (rt_mpsc rt)(c := m\<lparr>mp_queue := Suc (mp_queue m)\<rparr>)\<rparr>)
      else Inl (Panic UnwrapErr))"

definition mpsc_drop_tx :: "Runtime \<Rightarrow> nat option \<Rightarrow> Runtime" where
  "mpsc_drop_tx rt tx =
     (case tx of
        None \<Rightarrow> rt
      | Some c \<Rightarrow> rt\<lparr>rt_mpsc := (rt_mpsc rt)(c := (rt_mpsc rt c)\<lparr>mp_tx := False\<rparr>)\<rparr>)"

definition mpsc_drop_rx :: "Runtime \<Rightarrow> nat \<Rightarrow> Runtime" where
  "mpsc_drop_rx rt c = rt\<lparr>rt_mpsc := (rt_mpsc rt)(c := (rt_mpsc rt c)\<lparr>mp_rx := False\<rparr>)\<rparr>"

text \<open>Dropping a peer drops the senders it owns.\<close>

definition drop_client :: "Runtime \<Rightarrow> Client2 option \<Rightarrow> Runtime" where
  "drop_client rt c =
     (case c of
        None \<Rightarrow> rt
      | Some cl \<Rightarrow>
          mpsc_drop_tx
            (rt\<lparr>rt_oneshot := (\<lambda>n. if n \<in> ran (pending_block_requests cl) \<and> rt_oneshot rt n = Waiting
                                   then Canceled else rt_oneshot rt n)\<rparr>)
            (ti_status_tx (transfer_in cl)))"

section \<open>Operations\<close>

definition Handler_new :: "path \<Rightarrow> nat \<Rightarrow> BlockDb \<Rightarrow> fs2 \<Rightarrow> Handler" where
  "Handler_new folder packet_delay blockdb fs =
     \<lparr>h_folder = folder, h_blockdb = blockdb, h_clients = Map.empty, h_packet_delay = packet_delay,
      h_fs = fs,
      h_rt = \<lparr>rt_next = 0, rt_oneshot = (\<lambda>_. Closed),
              rt_mpsc = (\<lambda>_. \<lparr>mp_queue = 0, mp_tx = False, mp_rx = False\<rparr>)\<rparr>\<rparr>"

definition client_state :: "Handler \<Rightarrow> SocketAddr \<Rightarrow> ClientState" where
  "client_state h addr = (if h_clients h addr \<noteq> None then Known else New)"

definition get_client :: "Handler \<Rightarrow> SocketAddr \<Rightarrow> Client2 res" where
  "get_client h addr =
     (case h_clients h addr of None \<Rightarrow> Inl (Panic UnwrapNone) | Some c \<Rightarrow> Inr c)"

definition put_client :: "Handler \<Rightarrow> SocketAddr \<Rightarrow> Client2 \<Rightarrow> Handler" where
  "put_client h addr c = h\<lparr>h_clients := (h_clients h)(addr \<mapsto> c)\<rparr>"

definition insert_client :: "Handler \<Rightarrow> SocketAddr \<Rightarrow> nat \<Rightarrow> Handler" where
  "insert_client h addr r =
     (put_client h addr (Client2_default r))\<lparr>h_rt := drop_client (h_rt h) (h_clients h addr)\<rparr>"

definition connect :: "Handler \<Rightarrow> SocketAddr \<Rightarrow> nat \<Rightarrow> u8 list \<Rightarrow> Handler \<times> task list" where
  "connect h srv r nonce =
     (insert_client h srv r,
      [SendTask (RootUpdate \<lparr>ru_nonce = nonce, ru_from_blockid = replicate 32 0,
         ru_to_blockref = BlockDb_root (h_blockdb h)\<rparr>) srv])"

definition send_block_request ::
    "Handler \<Rightarrow> SocketAddr \<Rightarrow> BlockRequest \<Rightarrow> (Handler \<times> task list) res" where
  "send_block_request h addr req =
     bindE (get_client h addr) (\<lambda>client.
     let (otx, rt) = oneshot_channel (h_rt h);
         rt' = (case pending_block_requests client (br_blockid req) of
                  None \<Rightarrow> rt | Some old \<Rightarrow> oneshot_drop rt old);
         client' = client\<lparr>pending_block_requests :=
                     (pending_block_requests client)(br_blockid req \<mapsto> otx)\<rparr>
     in Inr ((put_client h addr client')\<lparr>h_rt := rt'\<rparr>, [RetryTask True otx (BlockRequest req) addr]))"

definition unconnected_root_update ::
    "Handler \<Rightarrow> SocketAddr \<Rightarrow> RootUpdate \<Rightarrow> nat \<Rightarrow> (Handler \<times> task list) res" where
  "unconnected_root_update h addr update r =
     (let blockdb = h_blockdb h in
      if blockid (ru_to_blockref update) = blockid (BlockDb_root blockdb) then
        Inr (h, [SendTask (RootUpdateResponse
          \<lparr>rr_from_blockid = blockid (BlockDb_root blockdb),
           rr_to_blockid = blockid (BlockDb_root blockdb),
           rr_to_key = key (BlockDb_root blockdb)\<rparr>) addr])
      else if pending_root blockdb \<noteq> None then Inr (h, [])
      else
        let h1 = insert_client h addr r;
            h2 = h1\<lparr>h_blockdb := set_pending_root blockdb (ru_to_blockref update)\<rparr>
        in send_block_request h2 addr \<lparr>br_blockid = blockid (ru_to_blockref update)\<rparr>)"

definition needs_update :: "Handler \<Rightarrow> RootUpdateResponse \<Rightarrow> bool" where
  "needs_update h res \<longleftrightarrow> blockid (BlockDb_root (h_blockdb h)) \<noteq> rr_to_blockid res"

definition root_update_response ::
    "Handler \<Rightarrow> SocketAddr \<Rightarrow> RootUpdateResponse \<Rightarrow> (Handler \<times> task list) res" where
  "root_update_response h addr res =
     bindE (get_client h addr) (\<lambda>client.
     let (otx, rt) = oneshot_channel (h_rt h);
         rt' = (case pending_block_requests client (rr_to_blockid res) of
                  None \<Rightarrow> rt | Some old \<Rightarrow> oneshot_drop rt old);
         client' = client\<lparr>pending_block_requests :=
                     (pending_block_requests client)(rr_to_blockid res \<mapsto> otx)\<rparr>
     in Inr ((put_client h addr client')\<lparr>h_rt := rt'\<rparr>,
          [RetryTask False otx (BlockRequest \<lparr>br_blockid = rr_to_blockid res\<rparr>) addr]))"

text \<open>The transfer a block is allocated to, allocating one if there is none.\<close>

definition allocate_transfer ::
    "BlockDb \<Rightarrow> TransferOut \<Rightarrow> BlockId \<Rightarrow> ((nat \<times> nat \<times> BlockId) \<times> TransferOut) res" where
  "allocate_transfer bdb out i =
     (case find (\<lambda>(from, to, i'). i' = i) (to_transfers out) of
        Some transfer \<Rightarrow> Inr (transfer, out)
      | None \<Rightarrow>
          bindE (BlockDb_get bdb i) (\<lambda>b.
          bindE (add64 (to_transfer_cursor out) (Block_len b)) (\<lambda>end.
          let transfer = (to_transfer_cursor out, end, i) in
          Inr (transfer, out\<lparr>to_transfer_cursor := end, to_transfers := to_transfers out @ [transfer]\<rparr>))))"

definition block_request ::
    "Handler \<Rightarrow> SocketAddr \<Rightarrow> BlockRequest \<Rightarrow> (Handler \<times> task list) res" where
  "block_request h addr req =
     bindE (get_client h addr) (\<lambda>client.
     bindE (allocate_transfer (h_blockdb h) (transfer_out client) (br_blockid req)) (\<lambda>(transfer, out).
     bindE (BlockDb_get (h_blockdb h) (br_blockid req)) (\<lambda>b.
     Inr (put_client h addr (client\<lparr>transfer_out := out\<rparr>),
       [SendTask (BlockRequestResponse
          \<lparr>bq_blockid = br_blockid req, bq_start_id = fst transfer, bq_end_id = fst (snd transfer),
           bq_len = Block_len b\<rparr>) addr]))))"

definition Partial_new :: "BlockId \<Rightarrow> nat \<Rightarrow> Partial res" where
  "Partial_new i len =
     bindE (add64 len CHUNK_SIZE) (\<lambda>n.
     Inr \<lparr>partial_id = i, partial_data = replicate len 0,
          available = replicate ((n - 1) div CHUNK_SIZE) False\<rparr>)"

definition block_request_response ::
    "Handler \<Rightarrow> SocketAddr \<Rightarrow> BlockRequestResponse \<Rightarrow> (Handler \<times> task list) res" where
  "block_request_response h addr res =
     bindE (get_client h addr) (\<lambda>client.
     bindE (case pending_block_requests client (bq_blockid res) of
              None \<Rightarrow> Inr (h_rt h)
            | Some task \<Rightarrow> oneshot_send (h_rt h) task) (\<lambda>rt.
     let tin = transfer_in client;
         transfers = ti_transfers tin @
           [\<lparr>tr_blockid = bq_blockid res, tr_start = bq_start_id res, tr_end = bq_end_id res\<rparr>];
         pending = (pending_block_requests client)(bq_blockid res := None)
     in bindE (Partial_new (bq_blockid res) (bq_len res)) (\<lambda>p.
        let h1 = h\<lparr>h_blockdb := BlockDb_add (h_blockdb h) (Partial p)\<rparr> in
        if length transfers = 1 then
          let (tx, rt1) = mpsc_unbounded (mpsc_drop_tx rt (ti_status_tx tin));
              client' = client\<lparr>pending_block_requests := pending,
                          transfer_in := \<lparr>ti_transfers = transfers, ti_status_tx = Some tx\<rparr>\<rparr>
          in bindE (unbounded_send rt1 tx) (\<lambda>rt2.
             Inr ((put_client h1 addr client')\<lparr>h_rt := rt2\<rparr>, [StatusTask tx addr]))
        else
          Inr ((put_client h1 addr (client\<lparr>pending_block_requests := pending,
                  transfer_in := tin\<lparr>ti_transfers := transfers\<rparr>\<rparr>))\<lparr>h_rt := rt\<rparr>, []))))"

text \<open>\<^verbatim>\<open>partial.data[from..to].copy_from_slice(data); partial.available[id] = true\<close>.\<close>

definition store_chunk :: "Partial \<Rightarrow> nat \<Rightarrow> u8 list \<Rightarrow> Partial res" where
  "store_chunk p i ds =
     bindE (mul64 i CHUNK_SIZE) (\<lambda>from.
     bindE (add64 from (min CHUNK_SIZE (length ds))) (\<lambda>to.
     if length (partial_data p) < to \<or> to - from \<noteq> length ds then Inl (Panic OutOfBounds)
     else if length (available p) \<le> i then Inl (Panic OutOfBounds)
     else Inr (p\<lparr>partial_data := overwrite (partial_data p) from ds,
                 available := (available p)[i := True]\<rparr>)))"

definition receive_chunk :: "BlockDb \<Rightarrow> Transfer \<Rightarrow> TransferPayload \<Rightarrow> BlockDb res" where
  "receive_chunk blockdb transfer chunk =
     bindE (BlockDb_get_mut blockdb (tr_blockid transfer)) (\<lambda>(block, put_block).
     bindE (Block_partial_mut block) (\<lambda>(partial, put_partial).
     bindE (sub64 (tp_chunkid chunk) (tr_start transfer)) (\<lambda>i.
     bindE (store_chunk partial i (tp_data chunk)) (\<lambda>partial'.
     Inr (put_block (put_partial partial'))))))"

text \<open>Requests for the blocks a decoded block refers to and the store does not have.\<close>

definition child_ids :: "Decoded \<Rightarrow> BlockId list" where
  "child_ids dec =
     (case dec of
        Decoded.Dir dir \<Rightarrow> map (\<lambda>c. blockid (child_blockref c)) (dir_children dir)
      | Decoded.Meta meta \<Rightarrow> map blockid (meta_blocks meta)
      | Decoded.Leaf _ \<Rightarrow> [])"

fun request_missing :: "Handler \<Rightarrow> SocketAddr \<Rightarrow> BlockId list \<Rightarrow> (Handler \<times> task list) res" where
  "request_missing h addr [] = Inr (h, [])"
| "request_missing h addr (i # is) =
     (if contains (h_blockdb h) i then request_missing h addr is
      else
        bindE (send_block_request h addr \<lparr>br_blockid = i\<rparr>) (\<lambda>(h1, ts).
        bindE (request_missing h1 addr is) (\<lambda>(h2, ts').
        Inr (h2, ts @ ts'))))"

text \<open>The end of a synchronisation: the new root, the folder, the announcement to all peers.\<close>

definition finish_update :: "env2 \<Rightarrow> Handler \<Rightarrow> SocketAddr \<Rightarrow> (Handler \<times> task list) res" where
  "finish_update E h addr =
     bindE (apply_pending (h_blockdb h)) (\<lambda>(from, db).
     bindE (write_to_dir (e_api E) (e_stack E) db (e_cwd E) (h_folder h) (h_fs h)) (\<lambda>fs.
     let msg = RootUpdateResponse
           \<lparr>rr_from_blockid = blockid from, rr_to_blockid = blockid (BlockDb_root db),
            rr_to_key = key (BlockDb_root db)\<rparr>
     in Inr (h\<lparr>h_blockdb := db, h_fs := fs, h_clients := (h_clients h)(addr := None),
               h_rt := drop_client (h_rt h) (h_clients h addr)\<rparr>,
             map (SendTask msg) (e_keys E (h_clients h)))))"

definition transfer_payload ::
    "env2 \<Rightarrow> Handler \<Rightarrow> SocketAddr \<Rightarrow> TransferPayload \<Rightarrow> (Handler \<times> task list) res" where
  "transfer_payload E h addr chunk =
     bindE (get_client h addr) (\<lambda>client.
     let tin = transfer_in client in
     bindE (case ti_status_tx tin of None \<Rightarrow> Inl (Panic UnwrapNone) | Some tx \<Rightarrow> Inr tx) (\<lambda>tx.
     bindE (unbounded_send (h_rt h) tx) (\<lambda>rt.
     bindE (TransferIn_transfer tin (tp_chunkid chunk)) (\<lambda>transfer.
     bindE (receive_chunk (h_blockdb h) transfer chunk) (\<lambda>db1.
     bindE (try_promote db1 (tr_blockid transfer)) (\<lambda>(promoted, db2).
     let h1 = h\<lparr>h_blockdb := db2, h_rt := rt\<rparr> in
     if \<not> promoted then Inr (h1, [])
     else
       let h2 = put_client h1 addr
             (client\<lparr>transfer_in := tin\<lparr>ti_transfers := remove1 transfer (ti_transfers tin)\<rparr>\<rparr>)
       in bindE (resolve (e_api E) (e_stack E) db2 (tr_blockid transfer) True) (\<lambda>dec.
          bindE (request_missing h2 addr (child_ids dec)) (\<lambda>(h3, ts).
          bindE (verify (e_api E) (e_stack E) (h_blockdb h3) True) (\<lambda>complete.
          if \<not> complete then Inr (h3, ts)
          else
            bindE (finish_update E h3 addr) (\<lambda>(h4, ts').
            Inr (h4, ts @ ts')))))))))))"

definition transfer_status ::
    "Handler \<Rightarrow> SocketAddr \<Rightarrow> TransferStatus \<Rightarrow> (Handler \<times> task list) res" where
  "transfer_status h addr status =
     bindE (get_client h addr) (\<lambda>client.
     let out = transfer_out client;
         new_cursor = (case missing_ranges status of [] \<Rightarrow> None | (from, _) # _ \<Rightarrow> Some from);
         launch_transfer = (to_cursor out = None \<and> new_cursor \<noteq> None)
     in Inr (put_client h addr
               (client\<lparr>transfer_out := out\<lparr>to_cursor := new_cursor, to_todo := missing_ranges status\<rparr>\<rparr>),
             if launch_transfer then [PayloadTask addr] else []))"

section \<open>Background tasks\<close>

datatype 'a loop_step = NotReady | Continue 'a | Break

text \<open>The next chunk after the cursor that is still to do.\<close>

definition next_cursor :: "(nat \<times> nat) list \<Rightarrow> nat \<Rightarrow> nat option" where
  "next_cursor todo next =
     map_option (\<lambda>(f, t). max f next) (find (\<lambda>(f, t). next < t) todo)"

text \<open>One iteration of the payload loop: the message to send, or the end.\<close>

definition payload_step :: "Handler \<Rightarrow> SocketAddr \<Rightarrow> (Handler \<times> TransferPayload option) res" where
  "payload_step h addr =
     bindE (get_client h addr) (\<lambda>client.
     let out = transfer_out client in
     case to_cursor out of
       None \<Rightarrow> Inr (h, None)
     | Some cursor \<Rightarrow>
         (case find (\<lambda>(from, to, _). from \<le> cursor \<and> cursor < to) (to_transfers out) of
            None \<Rightarrow> Inl (Panic ExplicitPanic)
          | Some (from, _, bid) \<Rightarrow>
              bindE (sub64 cursor from) (\<lambda>cib.
              bindE (BlockDb_get (h_blockdb h) bid) (\<lambda>b.
              bindE (Block_full b) (\<lambda>full.
              bindE (mul64 cib CHUNK_SIZE) (\<lambda>skip.
              bindE (add64 cursor 1) (\<lambda>next.
              Inr (put_client h addr
                     (client\<lparr>transfer_out := out\<lparr>to_cursor := next_cursor (to_todo out) next\<rparr>\<rparr>),
                   Some \<lparr>tp_chunkid = cursor,
                         tp_data = take CHUNK_SIZE (drop skip (full_data full))\<rparr>))))))))"

text \<open>\<^verbatim>\<open>group_by\<close> on the availability of the chunks, and the ranges of the missing ones.\<close>

fun group_runs :: "bool list \<Rightarrow> (bool \<times> nat) list" where
  "group_runs [] = []"
| "group_runs (b # bs) =
     (case group_runs bs of
        (b', n) # gs \<Rightarrow> if b' = b then (b, Suc n) # gs else (b, 1) # (b', n) # gs
      | [] \<Rightarrow> [(b, 1)])"

fun missing_runs :: "nat \<Rightarrow> (bool \<times> nat) list \<Rightarrow> (nat \<times> nat) list res" where
  "missing_runs start [] = Inr []"
| "missing_runs start ((b, count) # gs) =
     bindE (add64 start count) (\<lambda>end.
     bindE (missing_runs end gs) (\<lambda>rest.
     Inr (if b then rest else (start, end) # rest)))"

fun status_ranges :: "BlockDb \<Rightarrow> Transfer list \<Rightarrow> (nat \<times> nat) list res" where
  "status_ranges db [] = Inr []"
| "status_ranges db (t # ts) =
     bindE (BlockDb_get db (tr_blockid t)) (\<lambda>b.
     bindE (Block_partial b) (\<lambda>p.
     bindE (missing_runs (tr_start t) (group_runs (available p))) (\<lambda>rle.
     bindE (status_ranges db ts) (\<lambda>rest.
     Inr (rle @ rest)))))"

text \<open>One iteration of the status loop on the receiving end of channel \<open>ch\<close>.\<close>

definition status_step :: "Handler \<Rightarrow> nat \<Rightarrow> SocketAddr \<Rightarrow> (Handler \<times> TransferStatus loop_step) res" where
  "status_step h ch addr =
     (let m = rt_mpsc (h_rt h) ch in
      if mp_queue m = 0 then
        (if mp_tx m then Inr (h, NotReady)
         else Inr (h\<lparr>h_rt := mpsc_drop_rx (h_rt h) ch\<rparr>, Break))
      else
        let h1 = h\<lparr>h_rt := (h_rt h)\<lparr>rt_mpsc := (rt_mpsc (h_rt h))
                    (ch := m\<lparr>mp_queue := mp_queue m - 1\<rparr>)\<rparr>\<rparr>
        in bindE (case h_clients h addr of
                    None \<Rightarrow> Inr []
                  | Some client \<Rightarrow> status_ranges (h_blockdb h) (ti_transfers (transfer_in client))) (\<lambda>rle.
           Inr (h1, Continue \<lparr>missing_ranges = rle\<rparr>)))"

text \<open>
  The wait of a repeated request: a response ends it, a fired delay repeats it, and a dropped sender
  reaches \<^verbatim>\<open>unreachable!\<close>. The response is polled before the delay.
\<close>

definition retry_wait :: "Handler \<Rightarrow> nat \<Rightarrow> bool \<Rightarrow> (Handler \<times> unit loop_step) res" where
  "retry_wait h ch delay_fired =
     (case rt_oneshot (h_rt h) ch of
        Fired \<Rightarrow> Inr (h\<lparr>h_rt := (h_rt h)\<lparr>rt_oneshot := (rt_oneshot (h_rt h))(ch := Closed)\<rparr>\<rparr>, Break)
      | Canceled \<Rightarrow> Inl (Panic UnreachableCode)
      | _ \<Rightarrow> Inr (h, if delay_fired then Continue () else NotReady))"

end
