(* ===== verification/Scsync.thy ===== *)
theory Scsync
  imports Handler
begin

text \<open>
  The program of version 2 (\<^verbatim>\<open>v2/scsync/src/main.rs\<close>): options, the start of a server or a
  client, the dispatch of received messages to the handler, and a node as a step relation that
  interleaves received messages with the tasks that are running.
\<close>

section \<open>Start\<close>

record Opt2 =
  opt2_server :: bool
  opt2_port :: nat
  opt2_host :: "u8 list"
  opt2_files :: path
  opt2_pps :: nat

text \<open>\<^verbatim>\<open>Duration::from_secs(1) / opt.pps\<close>, in nanoseconds.\<close>

definition packet_delay :: "nat \<Rightarrow> nat res" where
  "packet_delay pps = (if pps = 0 then Inl (Panic DivByZero) else Inr (10 ^ 9 div pps))"

record Node =
  nd_handler :: Handler
  nd_tasks :: "task list"

text \<open>
  The start of the program on what the folder walk yields: the address is parsed, the folder becomes
  the database, and a client announces its root. \<open>parse_ip\<close> is \<^verbatim>\<open>str::parse\<close> for addresses.
\<close>

definition scsync_main ::
    "env2 \<Rightarrow> (u8 list \<Rightarrow> u8 list option) \<Rightarrow> (nat \<Rightarrow> Key \<times> u8 list) \<Rightarrow> Opt2 \<Rightarrow> bool \<Rightarrow>
      DirEntry option list \<Rightarrow> fs2 \<Rightarrow> nat \<Rightarrow> u8 list \<Rightarrow> Node res" where
  "scsync_main E parse_ip rnd opt is_dir walkdir fs r nonce =
     (case parse_ip (opt2_host opt) of
        None \<Rightarrow> Inl (Panic UnwrapErr)
      | Some ip \<Rightarrow>
          let addr = (ip, opt2_port opt) in
          bindE (blockdb_from_folder (e_api E) rnd (opt2_files opt) is_dir walkdir) (\<lambda>blockdb.
          bindE (packet_delay (opt2_pps opt)) (\<lambda>delay.
          let handler = Handler_new (opt2_files opt) delay blockdb fs in
          if opt2_server opt then Inr \<lparr>nd_handler = handler, nd_tasks = []\<rparr>
          else
            let (handler', ts) = connect handler addr r nonce
            in Inr \<lparr>nd_handler = handler', nd_tasks = ts\<rparr>)))"

section \<open>Dispatch\<close>

definition dispatch ::
    "env2 \<Rightarrow> nat \<Rightarrow> Handler \<Rightarrow> SocketAddr \<Rightarrow> Msg \<Rightarrow> (Handler \<times> task list) res" where
  "dispatch E r h addr msg =
     (case client_state h addr of
        New \<Rightarrow>
          (case msg of
             RootUpdate update \<Rightarrow> unconnected_root_update h addr update r
           | _ \<Rightarrow> Inr (h, []))
      | Known \<Rightarrow>
          (case msg of
             RootUpdate _ \<Rightarrow> Inr (h, [])
           | RootUpdateResponse res \<Rightarrow>
               if \<not> needs_update h res then Inr (h, []) else root_update_response h addr res
           | BlockRequest req \<Rightarrow> block_request h addr req
           | BlockRequestResponse res \<Rightarrow> block_request_response h addr res
           | TransferPayload payload \<Rightarrow> transfer_payload E h addr payload
           | TransferStatus status \<Rightarrow> transfer_status h addr status))"

section \<open>A node\<close>

text \<open>
  One step of a running task: the new state, what is sent, and the task that goes on. A task that
  panics holds the locks of the handler or is part of the task that receives, so the node ends with it,
  except for a repeated request of its own task, whose panic ends only that task.
\<close>

definition task_step ::
    "Handler \<Rightarrow> bool \<Rightarrow> task \<Rightarrow> (Handler \<times> (Msg \<times> SocketAddr) option \<times> task option) res" where
  "task_step h delay_fired t =
     (case t of
        SendTask msg addr \<Rightarrow> Inr (h, Some (msg, addr), None)
      | RetryTask own ch msg addr \<Rightarrow> Inr (h, Some (msg, addr), Some (RetryWait own ch msg addr))
      | RetryWait own ch msg addr \<Rightarrow>
          (case retry_wait h ch delay_fired of
             Inl e \<Rightarrow>
               if own then
                 Inr (h\<lparr>h_rt := (h_rt h)\<lparr>rt_oneshot := (rt_oneshot (h_rt h))(ch := Closed)\<rparr>\<rparr>, None, None)
               else Inl e
           | Inr (h', NotReady) \<Rightarrow> Inr (h', None, Some t)
           | Inr (h', Continue _) \<Rightarrow> Inr (h', None, Some (RetryTask own ch msg addr))
           | Inr (h', Break) \<Rightarrow> Inr (h', None, None))
      | StatusTask ch addr \<Rightarrow>
          bindE (status_step h ch addr) (\<lambda>(h', r).
          case r of
            NotReady \<Rightarrow> Inr (h', None, Some t)
          | Continue status \<Rightarrow> Inr (h', Some (TransferStatus status, addr), Some t)
          | Break \<Rightarrow> Inr (h', None, None))
      | PayloadTask addr \<Rightarrow>
          bindE (payload_step h addr) (\<lambda>(h', r).
          case r of
            None \<Rightarrow> Inr (h', None, None)
          | Some payload \<Rightarrow> Inr (h', Some (TransferPayload payload, addr), Some t)))"

datatype node_event =
    Received SocketAddr Msg
  | Sent SocketAddr Msg
  | Silent

definition node_recv :: "env2 \<Rightarrow> nat \<Rightarrow> Node \<Rightarrow> SocketAddr \<Rightarrow> Msg \<Rightarrow> Node res" where
  "node_recv E r n addr msg =
     bindE (dispatch E r (nd_handler n) addr msg) (\<lambda>(h, ts).
     Inr \<lparr>nd_handler = h, nd_tasks = nd_tasks n @ ts\<rparr>)"

definition node_task :: "Node \<Rightarrow> nat \<Rightarrow> bool \<Rightarrow> (Node \<times> (Msg \<times> SocketAddr) option) res" where
  "node_task n i delay_fired =
     bindE (slice_get (nd_tasks n) i) (\<lambda>t.
     bindE (task_step (nd_handler n) delay_fired t) (\<lambda>(h, sent, t').
     Inr (\<lparr>nd_handler = h,
           nd_tasks = take i (nd_tasks n) @ (case t' of None \<Rightarrow> [] | Some x \<Rightarrow> [x]) @ drop (Suc i) (nd_tasks n)\<rparr>,
          sent)))"

inductive node_step :: "env2 \<Rightarrow> Node \<Rightarrow> node_event \<Rightarrow> Node \<Rightarrow> bool" for E where
  receive: "node_recv E r n addr msg = Inr n' \<Longrightarrow> node_step E n (Received addr msg) n'"
| send: "node_task n i d = Inr (n', Some (msg, addr)) \<Longrightarrow> node_step E n (Sent addr msg) n'"
| silent: "node_task n i d = Inr (n', None) \<Longrightarrow> node_step E n Silent n'"

inductive_cases node_step_Received: "node_step E n (Received addr msg) n'"
inductive_cases node_step_Sent: "node_step E n (Sent addr msg) n'"
inductive_cases node_step_Silent: "node_step E n Silent n'"

end
