(* ===== verification/Folder.thy ===== *)
theory Folder
  imports Visitor
begin

text \<open>
  What the block database of a folder means. A folder is a tree; \<open>walk_tree\<close> is the order in which
  a contents-first walk visits it, \<open>holds\<close> says that a store contains a tree below a reference, and
  \<open>tree_nodes\<close> lists the files and directories a tree consists of. The theorem composes both
  directions of the frontend: the database of a folder, written out again, is the folder.
\<close>

section \<open>Trees\<close>

datatype tree = TFile "u8 list" | TDir "(u8 list \<times> tree) list" | TLink | TOther

fun real_node :: "tree \<Rightarrow> bool" where
  "real_node (TFile _) = True"
| "real_node (TDir _) = True"
| "real_node _ = False"

definition path_snoc :: "path \<Rightarrow> u8 list \<Rightarrow> path" where
  "path_snoc p n = (fst p, snd p @ [n])"

text \<open>The order of \<^verbatim>\<open>WalkDir::contents_first(true)\<close>: a directory after its contents.\<close>

fun walk_tree :: "path \<Rightarrow> tree \<Rightarrow> DirEntry list"
  and walk_kids :: "path \<Rightarrow> (u8 list \<times> tree) list \<Rightarrow> DirEntry list" where
  "walk_tree p (TFile d) = [\<lparr>de_path = p, de_type = IsFile, de_content = Some d\<rparr>]"
| "walk_tree p (TDir kids) = walk_kids p kids @ [\<lparr>de_path = p, de_type = IsDir, de_content = None\<rparr>]"
| "walk_tree p TLink = [\<lparr>de_path = p, de_type = IsSymlink, de_content = None\<rparr>]"
| "walk_tree p TOther = [\<lparr>de_path = p, de_type = IsOther, de_content = None\<rparr>]"
| "walk_kids p [] = []"
| "walk_kids p ((n, t) # kids) = walk_tree (path_snoc p n) t @ walk_kids p kids"

text \<open>Names that can occur in a directory, and that the program can represent as strings.\<close>

fun tree_ok :: "tree \<Rightarrow> bool" and kids_ok :: "(u8 list \<times> tree) list \<Rightarrow> bool" where
  "tree_ok (TDir kids) \<longleftrightarrow> distinct (map fst kids) \<and> kids_ok kids"
| "tree_ok _ \<longleftrightarrow> True"
| "kids_ok [] \<longleftrightarrow> True"
| "kids_ok ((n, t) # kids) \<longleftrightarrow> plain_name n \<and> utf8_valid n \<and> tree_ok t \<and> kids_ok kids"

fun tree_depth :: "tree \<Rightarrow> nat" and kids_depth :: "(u8 list \<times> tree) list \<Rightarrow> nat" where
  "tree_depth (TDir kids) = Suc (kids_depth kids)"
| "tree_depth _ = 0"
| "kids_depth [] = 0"
| "kids_depth ((n, t) # kids) = max (tree_depth t) (kids_depth kids)"

text \<open>The number of files and directories.\<close>

fun tree_count :: "tree \<Rightarrow> nat" and kids_count :: "(u8 list \<times> tree) list \<Rightarrow> nat" where
  "tree_count (TFile d) = 1"
| "tree_count (TDir kids) = Suc (kids_count kids)"
| "tree_count TLink = 0"
| "tree_count TOther = 0"
| "kids_count [] = 0"
| "kids_count ((n, t) # kids) = tree_count t + kids_count kids"

text \<open>A store that holds a tree below a reference of a type.\<close>

fun holds :: "frontend_api \<Rightarrow> BlockDb \<Rightarrow> tree \<Rightarrow> BlockType \<Rightarrow> BlockRef \<Rightarrow> bool"
  and holds_kids :: "frontend_api \<Rightarrow> BlockDb \<Rightarrow> (u8 list \<times> tree) list \<Rightarrow> Child list \<Rightarrow> bool" where
  "holds A db (TFile d) ty r \<longleftrightarrow>
     ty = BlockType.Leaf \<and> get_decoded (Leaf_from_full A) db (blockid r) (key r) = Inr \<lparr>leaf_data = d\<rparr>"
| "holds A db (TDir kids) ty r \<longleftrightarrow>
     ty = Directory \<and>
     (\<exists>cs. get_decoded (Dir_from_full A) db (blockid r) (key r) = Inr \<lparr>dir_children = cs\<rparr> \<and>
       holds_kids A db kids cs)"
| "holds A db TLink ty r \<longleftrightarrow> False"
| "holds A db TOther ty r \<longleftrightarrow> False"
| "holds_kids A db [] cs \<longleftrightarrow> cs = []"
| "holds_kids A db ((n, t) # kids) cs \<longleftrightarrow>
     (if real_node t then
        (case cs of
           [] \<Rightarrow> False
         | c # cs' \<Rightarrow>
             child_name c = n \<and> holds A db t (child_type c) (child_blockref c) \<and>
             holds_kids A db kids cs')
      else holds_kids A db kids cs)"

text \<open>The files and directories of a tree at a place.\<close>

fun tree_nodes :: "u8 list list \<Rightarrow> tree \<Rightarrow> (u8 list list \<times> FsNode) list"
  and kids_nodes :: "u8 list list \<Rightarrow> (u8 list \<times> tree) list \<Rightarrow> (u8 list list \<times> FsNode) list" where
  "tree_nodes p (TFile d) = [(p, FsFile d)]"
| "tree_nodes p (TDir kids) = kids_nodes p kids @ [(p, FsDir)]"
| "tree_nodes p TLink = []"
| "tree_nodes p TOther = []"
| "kids_nodes p [] = []"
| "kids_nodes p ((n, t) # kids) = kids_nodes p kids @ tree_nodes (p @ [n]) t"

section \<open>Paths\<close>

lemma Path_new_plain: "plain_name n \<Longrightarrow> Path_new n = (False, [n])"
  by (cases n) (auto simp: plain_name_def Path_new_def split_slash_plain)

lemma path_join_plain: "plain_name n \<Longrightarrow> path_join p (Path_new n) = path_snoc p n"
  by (simp add: Path_new_plain path_join_def has_root_def path_snoc_def)

lemma resolve_from_dotdot: "resolve_from acc (xs @ [[dot, dot], n]) = resolve_from (butlast (resolve_from acc xs)) [n]"
  by (induction xs arbitrary: acc) auto

lemma butlast_neq: "P \<noteq> [] \<Longrightarrow> butlast P \<noteq> P"
  by (metis diff_less length_butlast length_greater_0_conv less_irrefl zero_less_one)

lemma resolve_path_snoc: "plain_name n \<Longrightarrow> resolve_path cwd (path_snoc p n) = resolve_path cwd p @ [n]"
  by (simp add: resolve_path_def path_snoc_def has_root_def resolve_from_snoc plain_name_def)

lemma path_snoc_parent [simp]: "path_parent (path_snoc p n) = Some p"
  by (simp add: path_parent_def path_snoc_def)

lemma entry_file_name_snoc: "plain_name n \<Longrightarrow> entry_file_name (path_snoc p n) = n"
  by (simp add: entry_file_name_def path_snoc_def plain_name_def)

lemma utf8_unit_valid:
  assumes "utf8_valid (b # bs)"
  shows "\<exists>n. utf8_unit (b # bs) = (n, True) \<and> n \<le> length (b # bs) \<and> utf8_valid (drop n (b # bs))"
  using assms
  by (auto simp: utf8_unit_def Let_def utf8_cont_def split: if_splits list.splits)

lemma lossy_valid: "utf8_valid s \<Longrightarrow> to_string_lossy s = s"
proof (induction s rule: to_string_lossy.induct)
  case 1
  then show ?case by (simp add: to_string_lossy.simps)
next
  case (2 b bs)
  from utf8_unit_valid [OF "2.prems"] obtain n where n: "utf8_unit (b # bs) = (n, True)"
    and v: "utf8_valid (drop n (b # bs))" by blast
  from "2.IH" [OF n [symmetric] v] n show ?case
    by (simp add: to_string_lossy.simps del: take_Suc_Cons drop_Suc_Cons)
qed

section \<open>Writing a tree out\<close>

lemma take_Suc_prefix: "take (Suc (length p)) q = p @ [n] \<Longrightarrow> take (length p) q = p"
proof -
  assume "take (Suc (length p)) q = p @ [n]"
  then have "take (length p) (take (Suc (length p)) q) = take (length p) (p @ [n])" by simp
  then show ?thesis by simp
qed

lemma tree_nodes_prefix:
  shows "q \<in> fst ` set (tree_nodes p t) \<Longrightarrow> take (length p) q = p"
    and "q \<in> fst ` set (kids_nodes p kids) \<Longrightarrow> \<exists>n \<in> fst ` set kids. take (Suc (length p)) q = p @ [n]"
proof (induction p t and p kids rule: tree_nodes_kids_nodes.induct)
  case (2 p kids)
  then consider "q = p" | "q \<in> fst ` set (kids_nodes p kids)" by auto
  then show ?case using 2 take_Suc_prefix by cases auto
next
  case (6 p n t kids)
  then consider "q \<in> fst ` set (kids_nodes p kids)" | "q \<in> fst ` set (tree_nodes (p @ [n]) t)" by auto
  then show ?case using 6 by cases auto
qed auto

lemma kids_nodes_miss:
  assumes "\<And>n. n \<in> fst ` set kids \<Longrightarrow> take (Suc (length p)) q \<noteq> p @ [n]"
  shows "map_of (kids_nodes p kids) q = None"
proof -
  have "q \<notin> fst ` set (kids_nodes p kids)" using tree_nodes_prefix(2) [of q p kids] assms by blast
  then show ?thesis by (simp add: map_of_eq_None_iff)
qed

text \<open>The place a directory is written to: it exists and holds none of the names to come.\<close>

definition clear_for :: "fs2 \<Rightarrow> u8 list list \<Rightarrow> (u8 list \<times> tree) list \<Rightarrow> bool" where
  "clear_for fs p kids \<longleftrightarrow> fs p = Some FsDir \<and>
     (\<forall>n \<in> fst ` set kids. \<forall>q. take (Suc (length p)) q = p @ [n] \<longrightarrow> fs q = None)"

lemma clear_for_here: "clear_for fs p ((n, t) # kids) \<Longrightarrow> fs p = Some FsDir \<and> fs (p @ [n]) = None"
  by (auto simp: clear_for_def)

lemma clear_for_rest:
  assumes "clear_for fs p ((n, t) # kids)" and "n \<notin> fst ` set kids"
  shows "clear_for (fs ++ map_of (tree_nodes (p @ [n]) t)) p kids"
proof -
  have miss: "map_of (tree_nodes (p @ [n]) t) q = None" if "take (Suc (length p)) q \<noteq> p @ [n]" for q
    using tree_nodes_prefix(1) [of q "p @ [n]" t] that by (auto simp: map_of_eq_None_iff)
  have "(fs ++ map_of (tree_nodes (p @ [n]) t)) p = fs p"
    using miss [of p] by (simp add: map_add_def)
  moreover have "(fs ++ map_of (tree_nodes (p @ [n]) t)) q = fs q"
    if "n' \<in> fst ` set kids" "take (Suc (length p)) q = p @ [n']" for n' q
  proof -
    have "n' \<noteq> n" using that(1) assms(2) by blast
    then show ?thesis using miss [of q] that(2) by (simp add: map_add_def)
  qed
  ultimately show ?thesis using assms(1) by (auto simp: clear_for_def)
qed

lemma clear_for_new:
  assumes "clear_for fs p ((n, t) # kids)"
  shows "clear_for (fs(p @ [n] \<mapsto> FsDir)) (p @ [n]) ks"
proof -
  have "fs q = None" if "take (Suc (Suc (length p))) q = p @ [n, n']" for q n'
  proof -
    have "take (Suc (length p)) q = p @ [n]"
      using take_Suc_prefix [of "p @ [n]" q n'] that by simp
    then show ?thesis using assms by (auto simp: clear_for_def)
  qed
  then show ?thesis by (auto simp: clear_for_def)
qed

lemma write_to_dir_rec_holds:
  shows "\<And>kids fuel folder cs fs. t = TDir kids \<Longrightarrow> tree_ok t \<Longrightarrow> holds_kids A db kids cs \<Longrightarrow>
      kids_depth kids \<le> fuel \<Longrightarrow> resolve_path cwd folder = p \<Longrightarrow> clear_for fs p kids \<Longrightarrow>
      write_to_dir_rec A fuel db cwd folder cs fs = Inr (fs ++ map_of (kids_nodes p kids))"
    and "\<And>fuel folder cs fs. distinct (map fst kids) \<Longrightarrow> kids_ok kids \<Longrightarrow> holds_kids A db kids cs \<Longrightarrow>
      kids_depth kids \<le> fuel \<Longrightarrow> resolve_path cwd folder = p \<Longrightarrow> clear_for fs p kids \<Longrightarrow>
      write_to_dir_rec A fuel db cwd folder cs fs = Inr (fs ++ map_of (kids_nodes p kids))"
proof (induction p t and p kids rule: tree_nodes_kids_nodes.induct)
  case (5 p)
  then show ?case by (simp add: write_to_dir_rec.simps)
next
  case (6 p n t kids)
  have n: "plain_name n" and t: "tree_ok t" and kids: "distinct (map fst kids)" "kids_ok kids"
    and new: "n \<notin> fst ` set kids"
    using "6.prems"(1,2) by auto
  note here = clear_for_here [OF "6.prems"(6)]
  have rest: "write_to_dir_rec A fuel db cwd folder cs' (fs ++ map_of (tree_nodes (p @ [n]) t))
      = Inr (fs ++ map_of (tree_nodes (p @ [n]) t) ++ map_of (kids_nodes p kids))"
    if "holds_kids A db kids cs'" for cs'
    using "6.IH"(1) [OF kids that] "6.prems"(4,5) clear_for_rest [OF "6.prems"(6) new] by simp
  show ?case
  proof (cases "real_node t")
    case False
    with "6.prems"(3) have "holds_kids A db kids cs" by simp
    moreover have "tree_nodes (p @ [n]) t = []" using False by (cases t) auto
    ultimately show ?thesis using rest by simp
  next
    case True
    then obtain c cs' where cs: "cs = c # cs'" and c: "child_name c = n"
      and h: "holds A db t (child_type c) (child_blockref c)" and hk: "holds_kids A db kids cs'"
      using "6.prems"(3) by (auto split: list.splits)
    note path = c path_join_plain [OF n, of folder] resolve_path_snoc [OF n, of cwd folder] "6.prems"(5)
    show ?thesis
    proof (cases t)
      case (TFile d)
      then have eq: "fs ++ map_of (tree_nodes (p @ [n]) t) = fs(p @ [n] \<mapsto> FsFile d)" by simp
      show ?thesis
        using rest [OF hk] TFile h here path
        by (simp add: cs write_to_dir_rec.simps(2) Let_def File_create_def file_write_all_def eq)
    next
      case (TDir ks)
      then obtain ds where d: "child_type c = Directory"
        "get_decoded (Dir_from_full A) db (blockid (child_blockref c)) (key (child_blockref c))
           = Inr \<lparr>dir_children = ds\<rparr>" "holds_kids A db ks ds" using h by auto
      obtain f where f: "fuel = Suc f" "kids_depth ks \<le> f"
        using "6.prems"(4) TDir by (cases fuel) auto
      have rp: "resolve_path cwd (path_snoc folder n) = p @ [n]" using path by simp
      have "write_to_dir_rec A f db cwd (path_snoc folder n) ds (fs(p @ [n] \<mapsto> FsDir))
          = Inr (fs(p @ [n] \<mapsto> FsDir) ++ map_of (kids_nodes (p @ [n]) ks))"
        by (rule "6.IH"(2) [OF TDir t d(3) f(2) rp clear_for_new [OF "6.prems"(6)]])
      then show ?thesis
        using rest [OF hk] TDir d here path f
        by (simp add: cs write_to_dir_rec.simps(2) Let_def create_dir_def)
    qed (use True in auto)
  qed
qed auto

section \<open>Building the database of a tree\<close>

definition children_at :: "(path \<rightharpoonup> Child list) \<Rightarrow> path \<Rightarrow> Child list" where
  "children_at m p = (case m p of None \<Rightarrow> [] | Some cs \<Rightarrow> cs)"

lemma children_at_push:
  "children_at (push_child m p c) q = (if q = p then children_at m p @ [c] else children_at m q)"
  by (simp add: children_at_def push_child_def)

lemma push_child_other: "q \<noteq> p \<Longrightarrow> push_child m p c q = m q"
  by (simp add: push_child_def)

text \<open>
  The blocks made so far: their number is the number of draws as long as no two of them got the same
  id, and then none has been replaced.
\<close>

definition fresh_walk :: "FolderWalk \<Rightarrow> bool" where
  "fresh_walk fw \<longleftrightarrow> card (dom (fw_blocks fw)) = fw_draws fw"

definition bounded_walk :: "FolderWalk \<Rightarrow> bool" where
  "bounded_walk fw \<longleftrightarrow> finite (dom (fw_blocks fw)) \<and> card (dom (fw_blocks fw)) \<le> fw_draws fw"

lemma insert_block_mono:
  assumes "finite (dom bs)" and "card (dom bs) \<le> n"
  shows "card (dom (bs(i \<mapsto> b))) \<le> Suc n"
    and "card (dom (bs(i \<mapsto> b))) = Suc n \<Longrightarrow> card (dom bs) = n \<and> bs \<subseteq>\<^sub>m bs(i \<mapsto> b)"
  using assms by (auto simp: card_insert_if map_le_def split: if_splits)

lemma folder_step_mono:
  assumes "folder_step A rnd folder fw e = Inr fw'" and "bounded_walk fw"
  shows "bounded_walk fw' \<and> (fresh_walk fw' \<longrightarrow> fresh_walk fw \<and> fw_blocks fw \<subseteq>\<^sub>m fw_blocks fw')"
  using assms insert_block_mono [of "fw_blocks fw" "fw_draws fw"]
  by (auto simp: folder_step_def folder_file_def folder_dir_def bounded_walk_def fresh_walk_def Let_def
      split: if_splits option.splits FileType.splits prod.splits)

lemma folder_loop_mono:
  assumes "folder_loop A rnd folder es fw = Inr fw'" and "bounded_walk fw"
  shows "bounded_walk fw' \<and> (fresh_walk fw' \<longrightarrow> fresh_walk fw \<and> fw_blocks fw \<subseteq>\<^sub>m fw_blocks fw')"
  using assms
proof (induction es arbitrary: fw)
  case Nil
  then show ?case by simp
next
  case (Cons e es)
  then obtain fw1 where fw1: "folder_step A rnd folder fw e = Inr fw1"
    "folder_loop A rnd folder es fw1 = Inr fw'"
    by (auto simp: outcome_simps)
  with Cons.IH [OF fw1(2)] folder_step_mono [OF fw1(1) Cons.prems(2)] show ?case
    using map_le_trans by blast
qed

lemma folder_loop_append:
  "folder_loop A rnd folder (es @ es') fw
     = bindE (folder_loop A rnd folder es fw) (folder_loop A rnd folder es')"
proof (induction es arbitrary: fw)
  case Nil
  show ?case by simp
next
  case (Cons e es)
  show ?case by (cases "folder_step A rnd folder fw e") (simp_all add: Cons.IH)
qed

lemma full_at_mono:
  "get_decoded dec db i k = Inr x \<Longrightarrow> db_blocks db \<subseteq>\<^sub>m db_blocks db' \<Longrightarrow> get_decoded dec db' i k = Inr x"
  by (auto simp: get_decoded_def outcome_simps map_le_def dom_def)

lemma holds_mono:
  shows "holds A db t ty r \<Longrightarrow> db_blocks db \<subseteq>\<^sub>m db_blocks db' \<Longrightarrow> holds A db' t ty r"
    and "holds_kids A db kids cs \<Longrightarrow> db_blocks db \<subseteq>\<^sub>m db_blocks db' \<Longrightarrow> holds_kids A db' kids cs"
  by (induction A db t ty r and A db kids cs rule: holds_holds_kids.induct)
    (auto intro: full_at_mono split: if_splits list.splits)

definition store :: "(BlockId \<rightharpoonup> Block) \<Rightarrow> BlockDb" where
  "store bs = BlockDb_new (BlockRef [] [] []) bs"

lemma store_blocks [simp]: "db_blocks (store bs) = bs"
  by (simp add: store_def BlockDb_new_def)

definition rnd_ok :: "(nat \<Rightarrow> Key \<times> u8 list) \<Rightarrow> bool" where
  "rnd_ok rnd \<longleftrightarrow> (\<forall>i. Key_ok (fst (rnd i)) \<and> length (snd (rnd i)) = 16)"

definition below :: "path \<Rightarrow> path \<Rightarrow> bool" where
  "below p q \<longleftrightarrow> fst q = fst p \<and> (\<exists>ns. ns \<noteq> [] \<and> snd q = snd p @ ns)"

lemma below_snoc: "below p (path_snoc p n)" "below (path_snoc p n) q \<Longrightarrow> below p q"
  by (auto simp: below_def path_snoc_def)

lemma below_neq: "below p q \<Longrightarrow> q \<noteq> p"
  by (auto simp: below_def)

lemma to_block_full: "\<exists>k f. to_block A S rnd x = (k, Full f)"
  by (cases rnd) (simp add: to_block_def Let_def)

text \<open>
  Encryption undone: what \<open>to_block\<close> made is read back from any store that has the block, also on
  a machine that uses the other implementation of the cipher.
\<close>

context frontend_codec
begin

lemma from_full_to_block:
  assumes "serde_codec S ok" and "ok x" and "Key_ok (fst rnd)" and "length (snd rnd) = 16"
    and "to_block A S rnd x = (k, Full f)"
  shows "from_full (A\<lparr>supports_aesni := ni\<rparr>) S f k = Inr (Some x)" and "k = fst rnd" and "length (full_id f) = 32"
  using assms aes_read_write [of "fst rnd" "snd rnd"] keccak_length serde_codec.read_written [OF assms(1,2)]
  by (auto simp: from_full_def to_block_def Let_def split: prod.splits if_splits)

lemma folder_file_step:
  assumes "rnd_ok rnd" and "plain_name n" and "utf8_valid n" and "fw_root fw = None"
  shows "\<exists>fw' c. folder_step A rnd folder fw
        (Some \<lparr>de_path = path_snoc p n, de_type = IsFile, de_content = Some d\<rparr>) = Inr fw' \<and>
      fw_root fw' = None \<and> fw_draws fw' = Suc (fw_draws fw) \<and> fw_map fw' = push_child (fw_map fw) p c \<and>
      child_name c = n \<and> Child_ok c \<and>
      holds (A\<lparr>supports_aesni := ni\<rparr>) (store (fw_blocks fw')) (TFile d) (child_type c) (child_blockref c)"
proof -
  obtain k f where b: "to_block A (s_leaf A) (rnd (fw_draws fw)) d = (k, Full f)"
    using to_block_full [of A "s_leaf A"] by blast
  have r: "Key_ok (fst (rnd (fw_draws fw)))" "length (snd (rnd (fw_draws fw))) = 16"
    using assms(1) by (simp_all add: rnd_ok_def)
  note made = from_full_to_block [OF leaf.serde_codec_axioms TrueI r b]
  let ?c = "\<lparr>child_name = n, child_metadata = (), child_type = BlockType.Leaf,
    child_blockref = BlockRef (full_id f) k []\<rparr>"
  show ?thesis
    apply (intro exI [of _ "fw\<lparr>fw_map := push_child (fw_map fw) p ?c,
        fw_blocks := (fw_blocks fw)(full_id f \<mapsto> Full f), fw_draws := Suc (fw_draws fw)\<rparr>"]
        exI [of _ ?c])
    using assms made r b entry_file_name_snoc [OF assms(2), of p] lossy_valid [OF assms(3)]
    by (simp add: folder_step_def folder_file_def Leaf_to_block_def Let_def Child_ok_def BlockId_ok_def
        get_decoded_def BlockDb_get_def Leaf_from_full_def unwrap_opt_def)
qed

lemma folder_dir_step:
  assumes "rnd_ok rnd" and "path_parent p = Some p0" and "fw_root fw = None"
    and "list_all Child_ok (children_at (fw_map fw) p)"
  shows "\<exists>fw' c. folder_step A rnd folder fw
        (Some \<lparr>de_path = p, de_type = IsDir, de_content = None\<rparr>) = Inr fw' \<and>
      fw_root fw' = (if p = folder then Some (child_blockref c) else None) \<and>
      fw_draws fw' = Suc (fw_draws fw) \<and> fw_map fw' = push_child ((fw_map fw)(p := None)) p0 c \<and>
      child_name c = to_string_lossy (entry_file_name p) \<and> BlockRef_ok (child_blockref c) \<and>
      child_type c = Directory \<and>
      get_decoded (Dir_from_full (A\<lparr>supports_aesni := ni\<rparr>)) (store (fw_blocks fw')) (blockid (child_blockref c))
        (key (child_blockref c)) = Inr \<lparr>dir_children = children_at (fw_map fw) p\<rparr>"
proof -
  let ?d = "\<lparr>dir_children = children_at (fw_map fw) p\<rparr>"
  obtain k f where b: "to_block A (s_dir A) (rnd (fw_draws fw)) ?d = (k, Full f)"
    using to_block_full [of A "s_dir A"] by blast
  have r: "Key_ok (fst (rnd (fw_draws fw)))" "length (snd (rnd (fw_draws fw))) = 16"
    using assms(1) by (simp_all add: rnd_ok_def)
  have "Dir_ok ?d" using assms(4) by (simp add: Dir_ok_def)
  note made = from_full_to_block [OF dir.serde_codec_axioms this r b]
  let ?c = "\<lparr>child_name = to_string_lossy (entry_file_name p), child_metadata = (),
    child_type = Directory, child_blockref = BlockRef (full_id f) k []\<rparr>"
  show ?thesis
    apply (intro exI [of _ "fw\<lparr>fw_map := push_child ((fw_map fw)(p := None)) p0 ?c,
        fw_blocks := (fw_blocks fw)(full_id f \<mapsto> Full f),
        fw_root := (if p = folder then Some (BlockRef (full_id f) k []) else fw_root fw),
        fw_draws := Suc (fw_draws fw)\<rparr>"] exI [of _ ?c])
    using assms made r b
    by (simp add: folder_step_def folder_dir_def Dir_to_block_def Let_def BlockId_ok_def BlockRef_new_def
        get_decoded_def BlockDb_get_def Dir_from_full_def unwrap_opt_def children_at_def)
qed

lemma walk_tree_builds:
  assumes rnd: "rnd_ok rnd"
  shows "\<And>p0 n fw. p = path_snoc p0 n \<Longrightarrow> plain_name n \<Longrightarrow> utf8_valid n \<Longrightarrow> tree_ok t \<Longrightarrow>
      length (snd folder) \<le> length (snd p0) \<Longrightarrow> fw_root fw = None \<Longrightarrow> bounded_walk fw \<Longrightarrow>
      (\<And>q. q = p \<or> below p q \<Longrightarrow> fw_map fw q = None) \<Longrightarrow>
      \<exists>fw' cs. folder_loop A rnd folder (map Some (walk_tree p t)) fw = Inr fw' \<and>
        fw_root fw' = None \<and> fw_draws fw' = fw_draws fw + tree_count t \<and>
        (\<forall>q. q \<noteq> p0 \<longrightarrow> fw_map fw' q = fw_map fw q) \<and>
        children_at (fw_map fw') p0 = children_at (fw_map fw) p0 @ cs \<and> list_all Child_ok cs \<and>
        (fresh_walk fw' \<longrightarrow> holds_kids (A\<lparr>supports_aesni := ni\<rparr>) (store (fw_blocks fw')) [(n, t)] cs)"
    and "\<And>fw. kids_ok kids \<Longrightarrow> distinct (map fst kids) \<Longrightarrow> length (snd folder) \<le> length (snd p) \<Longrightarrow>
      fw_root fw = None \<Longrightarrow> bounded_walk fw \<Longrightarrow> (\<And>q. below p q \<Longrightarrow> fw_map fw q = None) \<Longrightarrow>
      \<exists>fw' cs. folder_loop A rnd folder (map Some (walk_kids p kids)) fw = Inr fw' \<and>
        fw_root fw' = None \<and> fw_draws fw' = fw_draws fw + kids_count kids \<and>
        (\<forall>q. q \<noteq> p \<longrightarrow> fw_map fw' q = fw_map fw q) \<and>
        children_at (fw_map fw') p = children_at (fw_map fw) p @ cs \<and> list_all Child_ok cs \<and>
        (fresh_walk fw' \<longrightarrow> holds_kids (A\<lparr>supports_aesni := ni\<rparr>) (store (fw_blocks fw')) kids cs)"
proof (induction p t and p kids rule: walk_tree_walk_kids.induct)
  case (1 p d)
  from folder_file_step [OF rnd 1(2,3,6), of folder p0 d ni] 1(1)
  obtain fw' c where fw': "folder_loop A rnd folder (map Some (walk_tree p (TFile d))) fw = Inr fw'"
    "fw_root fw' = None" "fw_draws fw' = Suc (fw_draws fw)" "fw_map fw' = push_child (fw_map fw) p0 c"
    "child_name c = n" "Child_ok c"
    "holds (A\<lparr>supports_aesni := ni\<rparr>) (store (fw_blocks fw')) (TFile d) (child_type c) (child_blockref c)"
    by auto
  then show ?case
    by (intro exI [of _ fw'] exI [of _ "[c]"]) (auto simp: children_at_push push_child_other)
next
  case (2 p kids)
  have kids: "kids_ok kids" "distinct (map fst kids)" using "2.prems"(4) by auto
  have len: "length (snd folder) \<le> length (snd p)" and nf: "p \<noteq> folder"
    using "2.prems"(1,5) by (auto simp: path_snoc_def)
  obtain fw1 cs where fw1: "folder_loop A rnd folder (map Some (walk_kids p kids)) fw = Inr fw1"
    "fw_root fw1 = None" "fw_draws fw1 = fw_draws fw + kids_count kids"
    "\<forall>q. q \<noteq> p \<longrightarrow> fw_map fw1 q = fw_map fw q"
    "children_at (fw_map fw1) p = children_at (fw_map fw) p @ cs" "list_all Child_ok cs"
    "fresh_walk fw1 \<longrightarrow> holds_kids (A\<lparr>supports_aesni := ni\<rparr>) (store (fw_blocks fw1)) kids cs"
    using "2.IH" [OF kids len "2.prems"(6,7,8)] by blast
  have cs: "children_at (fw_map fw1) p = cs" using fw1(5) "2.prems"(8) [of p] by (simp add: children_at_def)
  have "list_all Child_ok (children_at (fw_map fw1) p)" using fw1(6) cs by simp
  from folder_dir_step [OF rnd _ fw1(2) this, of p0 folder ni] "2.prems"(1) nf
  obtain fw2 c where fw2:
    "folder_step A rnd folder fw1 (Some \<lparr>de_path = p, de_type = IsDir, de_content = None\<rparr>) = Inr fw2"
    "fw_root fw2 = None" "fw_draws fw2 = Suc (fw_draws fw1)"
    "fw_map fw2 = push_child ((fw_map fw1)(p := None)) p0 c"
    "child_name c = to_string_lossy (entry_file_name p)" "BlockRef_ok (child_blockref c)"
    "child_type c = Directory"
    "get_decoded (Dir_from_full (A\<lparr>supports_aesni := ni\<rparr>)) (store (fw_blocks fw2)) (blockid (child_blockref c))
      (key (child_blockref c)) = Inr \<lparr>dir_children = children_at (fw_map fw1) p\<rparr>"
    by auto
  have name: "child_name c = n" using fw2(5) "2.prems"(1-3) by (simp add: entry_file_name_snoc lossy_valid)
  have p0: "p0 \<noteq> p" using below_neq [OF below_snoc(1) [of p0 n]] "2.prems"(1) by simp
  have b1: "bounded_walk fw1" using folder_loop_mono [OF fw1(1) "2.prems"(7)] by blast
  have h: "holds (A\<lparr>supports_aesni := ni\<rparr>) (store (fw_blocks fw2)) (TDir kids) (child_type c) (child_blockref c)"
    if "fresh_walk fw2"
  proof -
    have "fresh_walk fw1" and le: "fw_blocks fw1 \<subseteq>\<^sub>m fw_blocks fw2"
      using folder_step_mono [OF fw2(1) b1] that by blast+
    then have "holds_kids (A\<lparr>supports_aesni := ni\<rparr>) (store (fw_blocks fw2)) kids cs"
      using fw1(7) holds_mono(2) [of "A\<lparr>supports_aesni := ni\<rparr>" "store (fw_blocks fw1)"] by simp
    then show ?thesis using fw2(7,8) cs by auto
  qed
  have map2: "fw_map fw2 q = fw_map fw q" if "q \<noteq> p0" for q
    using that fw1(4) [rule_format, of q] fw2(4) "2.prems"(8) [of p]
    by (cases "q = p") (simp_all add: push_child_other)
  show ?case
  proof (intro exI [of _ fw2] exI [of _ "[c]"] conjI)
    show "folder_loop A rnd folder (map Some (walk_tree p (TDir kids))) fw = Inr fw2"
      using fw1(1) fw2(1) by (simp add: folder_loop_append)
    show "children_at (fw_map fw2) p0 = children_at (fw_map fw) p0 @ [c]"
      using fw1(4) [rule_format, OF p0] fw2(4) p0
      by (simp add: children_at_push) (simp add: children_at_def)
    show "list_all Child_ok [c]" using name fw2(6) "2.prems"(3) by (simp add: Child_ok_def)
  qed (use fw1(3) fw2(2,3) map2 name h in auto)
next
  case (3 p)
  then show ?case by (intro exI [of _ fw] exI [of _ "[]"]) (simp add: folder_step_def)
next
  case (4 p)
  then show ?case by (intro exI [of _ fw] exI [of _ "[]"]) (simp add: folder_step_def)
next
  case (5 p)
  then show ?case by (intro exI [of _ fw] exI [of _ "[]"]) simp
next
  case (6 p n t kids)
  have n: "plain_name n" "utf8_valid n" "tree_ok t" and kids: "kids_ok kids" "distinct (map fst kids)"
    using "6.prems"(1,2) by auto
  obtain fw1 cs1 where fw1: "folder_loop A rnd folder (map Some (walk_tree (path_snoc p n) t)) fw = Inr fw1"
    "fw_root fw1 = None" "fw_draws fw1 = fw_draws fw + tree_count t"
    "\<forall>q. q \<noteq> p \<longrightarrow> fw_map fw1 q = fw_map fw q"
    "children_at (fw_map fw1) p = children_at (fw_map fw) p @ cs1" "list_all Child_ok cs1"
    "fresh_walk fw1 \<longrightarrow> holds_kids (A\<lparr>supports_aesni := ni\<rparr>) (store (fw_blocks fw1)) [(n, t)] cs1"
    using "6.IH"(1) [OF refl n "6.prems"(3-5)] "6.prems"(6) below_snoc by metis
  have b1: "bounded_walk fw1" using folder_loop_mono [OF fw1(1) "6.prems"(5)] by blast
  have clear: "\<And>q. below p q \<Longrightarrow> fw_map fw1 q = None"
    using fw1(4) "6.prems"(6) below_neq by metis
  obtain fw2 cs2 where fw2: "folder_loop A rnd folder (map Some (walk_kids p kids)) fw1 = Inr fw2"
    "fw_root fw2 = None" "fw_draws fw2 = fw_draws fw1 + kids_count kids"
    "\<forall>q. q \<noteq> p \<longrightarrow> fw_map fw2 q = fw_map fw1 q"
    "children_at (fw_map fw2) p = children_at (fw_map fw1) p @ cs2" "list_all Child_ok cs2"
    "fresh_walk fw2 \<longrightarrow> holds_kids (A\<lparr>supports_aesni := ni\<rparr>) (store (fw_blocks fw2)) kids cs2"
    using "6.IH"(2) [OF kids "6.prems"(3) fw1(2) b1 clear] by blast
  have h: "holds_kids (A\<lparr>supports_aesni := ni\<rparr>) (store (fw_blocks fw2)) ((n, t) # kids) (cs1 @ cs2)" if "fresh_walk fw2"
  proof -
    have "fresh_walk fw1" and le: "fw_blocks fw1 \<subseteq>\<^sub>m fw_blocks fw2"
      using folder_loop_mono [OF fw2(1) b1] that by blast+
    then have "holds_kids (A\<lparr>supports_aesni := ni\<rparr>) (store (fw_blocks fw1)) [(n, t)] cs1" using fw1(7) by blast
    then have "holds_kids (A\<lparr>supports_aesni := ni\<rparr>) (store (fw_blocks fw2)) [(n, t)] cs1"
      by (rule holds_mono(2)) (simp add: le)
    with that fw2(7) show ?thesis by (auto split: if_splits list.splits)
  qed
  show ?case
    using fw1 fw2 h
    by (intro exI [of _ fw2] exI [of _ "cs1 @ cs2"]) (simp add: folder_loop_append)
qed

lemma folder_db_holds:
  assumes rnd: "rnd_ok rnd" and ok: "tree_ok (TDir kids)" and parent: "path_parent folder = Some p0"
  shows "\<exists>db. blockdb_from_folder A rnd folder True (map Some (walk_tree folder (TDir kids))) = Inr db \<and>
    db_pending_root db = None \<and> BlockRef_ok (db_root db) \<and>
    (card (dom (db_blocks db)) = tree_count (TDir kids) \<longrightarrow>
       holds (A\<lparr>supports_aesni := ni\<rparr>) db (TDir kids) Directory (db_root db))"
proof -
  let ?fw = "FolderWalk_new 0"
  have kids: "kids_ok kids" "distinct (map fst kids)" using ok by auto
  have new: "fw_root ?fw = None" "bounded_walk ?fw" "\<And>q. fw_map ?fw q = None" "fw_draws ?fw = 0"
    "children_at (fw_map ?fw) folder = []"
    by (simp_all add: FolderWalk_new_def bounded_walk_def children_at_def)
  obtain fw1 cs where fw1: "folder_loop A rnd folder (map Some (walk_kids folder kids)) ?fw = Inr fw1"
    "fw_root fw1 = None" "fw_draws fw1 = kids_count kids"
    "children_at (fw_map fw1) folder = cs" "list_all Child_ok cs"
    "fresh_walk fw1 \<longrightarrow> holds_kids (A\<lparr>supports_aesni := ni\<rparr>) (store (fw_blocks fw1)) kids cs"
    using walk_tree_builds(2) [OF rnd kids order_refl new(1,2), of folder] new(3)
    unfolding new(4,5) append_Nil add_0 by metis
  from folder_dir_step [OF rnd parent fw1(2), of folder ni] fw1(4,5)
  obtain fw2 :: FolderWalk and c :: Child where fw2:
    "folder_step A rnd folder fw1 (Some \<lparr>de_path = folder, de_type = IsDir, de_content = None\<rparr>) = Inr fw2"
    "fw_root fw2 = Some (child_blockref c)" "fw_draws fw2 = Suc (fw_draws fw1)"
    "BlockRef_ok (child_blockref c)"
    "get_decoded (Dir_from_full (A\<lparr>supports_aesni := ni\<rparr>)) (store (fw_blocks fw2)) (blockid (child_blockref c))
      (key (child_blockref c)) = Inr \<lparr>dir_children = cs\<rparr>"
    by (simp split: if_splits) metis
  let ?db = "BlockDb_new (child_blockref c) (fw_blocks fw2)"
  have "holds (A\<lparr>supports_aesni := ni\<rparr>) ?db (TDir kids) Directory (db_root ?db)"
    if "card (dom (db_blocks ?db)) = tree_count (TDir kids)"
  proof -
    have "fresh_walk fw2" using that fw1(3) fw2(3) by (simp add: fresh_walk_def BlockDb_new_def)
    moreover have "bounded_walk fw1" using folder_loop_mono [OF fw1(1) new(2)] by blast
    ultimately have "fresh_walk fw1" and "fw_blocks fw1 \<subseteq>\<^sub>m fw_blocks fw2"
      using folder_step_mono [OF fw2(1)] by blast+
    then have "holds_kids (A\<lparr>supports_aesni := ni\<rparr>) (store (fw_blocks fw2)) kids cs"
      using fw1(6) holds_mono(2) [of "A\<lparr>supports_aesni := ni\<rparr>" "store (fw_blocks fw1)"] by simp
    with fw2(5) have "holds (A\<lparr>supports_aesni := ni\<rparr>) (store (fw_blocks fw2)) (TDir kids) Directory (child_blockref c)" by auto
    then have "holds (A\<lparr>supports_aesni := ni\<rparr>) ?db (TDir kids) Directory (child_blockref c)"
      by (rule holds_mono(1)) (simp add: BlockDb_new_def)
    then show ?thesis by (simp add: BlockDb_new_def)
  qed
  then show ?thesis
    using fw1(1) fw2(1,2,4) by (intro exI [of _ ?db])
      (simp add: blockdb_from_folder_def folder_loop_append BlockDb_new_def)
qed

text \<open>All blocks of a new database are complete and stored under their 32-byte digests.\<close>

lemma folder_step_blocks:
  assumes "folder_step A rnd folder fw e = Inr fw'"
    and "\<forall>i b. fw_blocks fw i = Some b \<longrightarrow> (\<exists>f. b = Full f \<and> full_id f = i \<and> length i = 32)"
  shows "\<forall>i b. fw_blocks fw' i = Some b \<longrightarrow> (\<exists>f. b = Full f \<and> full_id f = i \<and> length i = 32)"
  using assms keccak_length
  by (auto simp: folder_step_def folder_file_def folder_dir_def Let_def Leaf_to_block_def Dir_to_block_def
      to_block_def split: if_splits option.splits FileType.splits prod.splits)

lemma folder_loop_blocks:
  assumes "folder_loop A rnd folder es fw = Inr fw'"
    and "\<forall>i b. fw_blocks fw i = Some b \<longrightarrow> (\<exists>f. b = Full f \<and> full_id f = i \<and> length i = 32)"
  shows "\<forall>i b. fw_blocks fw' i = Some b \<longrightarrow> (\<exists>f. b = Full f \<and> full_id f = i \<and> length i = 32)"
  using assms
proof (induction es arbitrary: fw)
  case Nil
  then show ?case by simp
next
  case (Cons e es)
  then obtain fw1 where fw1: "folder_step A rnd folder fw e = Inr fw1"
    "folder_loop A rnd folder es fw1 = Inr fw'" by (auto simp: outcome_simps)
  show ?case by (rule Cons.IH [OF fw1(2) folder_step_blocks [OF fw1(1) Cons.prems(2)]])
qed

lemma folder_db_blocks:
  assumes "blockdb_from_folder A rnd folder is_dir walk = Inr db" and "db_blocks db i = Some b"
  shows "\<exists>f. b = Full f \<and> full_id f = i \<and> length i = 32"
proof -
  obtain fw where fw: "folder_loop A rnd folder walk (FolderWalk_new 0) = Inr fw"
    and "db_blocks db = fw_blocks fw"
    using assms(1)
    by (auto simp: blockdb_from_folder_def outcome_simps BlockDb_new_def split: if_splits option.splits)
  then show ?thesis using folder_loop_blocks [OF fw] assms(2) by (simp add: FolderWalk_new_def)
qed

end

lemma write_to_dir_holds:
  assumes h: "holds A db (TDir kids) Directory (db_root db)" and ok: "tree_ok (TDir kids)"
    and fuel: "kids_depth kids \<le> fuel" and P: "resolve_path cwd folder = P" "P \<noteq> []"
    and fs: "fs P = Some FsDir" "fs (butlast P) = Some FsDir"
  shows "write_to_dir A fuel db cwd folder fs =
    Inr (\<lambda>q. if take (length P) q = P then map_of (tree_nodes P (TDir kids)) q else fs q)"
proof -
  let ?fs1 = "\<lambda>q. if take (length P) q = P then None else fs q"
  let ?fs2 = "?fs1(P \<mapsto> FsDir)"
  obtain cs where cs: "get_decoded (Dir_from_full A) db (blockid (db_root db)) (key (db_root db))
      = Inr \<lparr>dir_children = cs\<rparr>" "holds_kids A db kids cs" using h by auto
  have cd: "create_dir ?fs1 P = Inr ?fs2" using fs(2) P(2) by (simp add: create_dir_def butlast_neq)
  have "clear_for ?fs2 P kids"
    by (auto simp: clear_for_def dest: take_Suc_prefix)
  then have "write_to_dir_rec A fuel db cwd folder cs ?fs2 = Inr (?fs2 ++ map_of (kids_nodes P kids))"
    by (rule write_to_dir_rec_holds(1) [OF refl ok cs(2) fuel P(1)])
  moreover have "?fs2 ++ map_of (kids_nodes P kids)
      = (\<lambda>q. if take (length P) q = P then map_of (tree_nodes P (TDir kids)) q else fs q)"
  proof
    fix q
    have "map_of (kids_nodes P kids) q = None" if "take (length P) q \<noteq> P"
      by (rule kids_nodes_miss) (metis take_Suc_prefix that)
    then show "(?fs2 ++ map_of (kids_nodes P kids)) q
        = (if take (length P) q = P then map_of (tree_nodes P (TDir kids)) q else fs q)"
      by (auto simp: map_add_def split: option.splits)
  qed
  ultimately show ?thesis
    using fs(1) P(1) cd cs(1)
    by (simp add: write_to_dir_def remove_dir_all_def BlockDb_root_def)
qed

end
