(* ===== verification/Verify.thy ===== *)
theory Verify
  imports Folder
begin

text \<open>
  What \<open>verify\<close> decides: a traversal with the verifying visitor ends without a result exactly when
  every block that can be reached through directories is complete. Leaves behind meta blocks are not
  looked at. For a store that agrees with the store of a tree, a positive answer means that the whole
  tree has arrived.
\<close>

section \<open>Reachable blocks\<close>

inductive reaches :: "frontend_api \<Rightarrow> BlockDb \<Rightarrow> BlockType \<times> BlockRef \<Rightarrow> BlockType \<times> BlockRef \<Rightarrow> bool"
  for A db where
  here: "reaches A db x x"
| child: "get_decoded (Dir_from_full A) db (blockid r) (key r) = Inr d \<Longrightarrow> c \<in> set (dir_children d) \<Longrightarrow>
    reaches A db (child_type c, child_blockref c) y \<Longrightarrow> reaches A db (Directory, r) y"

definition is_full :: "BlockDb \<Rightarrow> BlockId \<Rightarrow> bool" where
  "is_full db i \<longleftrightarrow> (\<exists>f. db_blocks db i = Some (Full f))"

definition all_full :: "frontend_api \<Rightarrow> BlockDb \<Rightarrow> BlockType \<Rightarrow> BlockRef \<Rightarrow> bool" where
  "all_full A db ty r \<longleftrightarrow> (\<forall>ty' r'. reaches A db (ty, r) (ty', r') \<longrightarrow> is_full db (blockid r'))"

inductive_cases reachesE: "reaches A db (ty, r) y"

lemma all_full_here: "all_full A db ty r \<Longrightarrow> is_full db (blockid r)"
  unfolding all_full_def by (blast intro: reaches.here)

lemma all_full_Directory:
  assumes "get_decoded (Dir_from_full A) db (blockid r) (key r) = Inr d"
  shows "all_full A db Directory r \<longleftrightarrow> is_full db (blockid r) \<and>
    (\<forall>c \<in> set (dir_children d). all_full A db (child_type c) (child_blockref c))"
proof
  assume all: "all_full A db Directory r"
  then have "is_full db (blockid r)" by (rule all_full_here)
  moreover have "all_full A db (child_type c) (child_blockref c)" if "c \<in> set (dir_children d)" for c
    using all reaches.child [OF assms that] unfolding all_full_def by blast
  ultimately show "is_full db (blockid r) \<and>
    (\<forall>c \<in> set (dir_children d). all_full A db (child_type c) (child_blockref c))" by blast
next
  assume kids: "is_full db (blockid r) \<and>
    (\<forall>c \<in> set (dir_children d). all_full A db (child_type c) (child_blockref c))"
  show "all_full A db Directory r"
    unfolding all_full_def
  proof (intro allI impI)
    fix ty' r'
    assume "reaches A db (Directory, r) (ty', r')"
    then show "is_full db (blockid r')"
    proof cases
      case here
      then show ?thesis using kids by simp
    next
      case (child d' c)
      then have "c \<in> set (dir_children d)" using assms by simp
      then show ?thesis using kids child unfolding all_full_def by blast
    qed
  qed
qed

lemma all_full_other: "ty \<noteq> Directory \<Longrightarrow> all_full A db ty r \<longleftrightarrow> is_full db (blockid r)"
  by (auto simp: all_full_def elim!: reachesE intro: reaches.here)

section \<open>The traversal with the verifying visitor\<close>

lemma is_full_iff:
  "\<not> contains db i \<Longrightarrow> \<not> is_full db i"
  "db_blocks db i = Some (Partial p) \<Longrightarrow> \<not> is_full db i"
  "db_blocks db i = Some (Full f) \<Longrightarrow> is_full db i"
  by (auto simp: is_full_def contains_def)

lemma decode_as_dir:
  "decode_as A Directory f k = Inr dec \<Longrightarrow> db_blocks db i = Some (Full f) \<Longrightarrow>
   \<exists>d. dec = Decoded.Dir d \<and> get_decoded (Dir_from_full A) db i k = Inr d"
  by (auto simp: decode_as_def get_decoded_def outcome_simps BlockDb_get_def)

lemma decode_as_other:
  "decode_as A ty f k = Inr dec \<Longrightarrow> ty \<noteq> Directory \<Longrightarrow> \<forall>d. dec \<noteq> Decoded.Dir d"
  by (cases ty) (auto simp: decode_as_def outcome_simps)

lemma VerifyVisitor_simps [simp]:
  "visit_dir VerifyVisitor p f d = None" "visit_meta VerifyVisitor db p f m = None"
  "visit_leaf VerifyVisitor p f l = None" "visit_partial VerifyVisitor p q = Some ()"
  "visit_missing VerifyVisitor p i = Some ()"
  by (simp_all add: VerifyVisitor_def)

lemma traverse_verify:
  shows "traverse_rec A fuel db path bref dec v = Inr x \<Longrightarrow> v = VerifyVisitor \<Longrightarrow>
      db_blocks db (blockid bref) = Some (Full f) \<Longrightarrow> decode_as A ty f (key bref) = Inr dec \<Longrightarrow>
      x = None \<longleftrightarrow> all_full A db ty bref"
    and "traverse_children A fuel db path bref cs v = Inr x \<Longrightarrow> v = VerifyVisitor \<Longrightarrow>
      x = None \<longleftrightarrow> (\<forall>c \<in> set cs. all_full A db (child_type c) (child_blockref c))"
proof (induction A fuel db path bref dec v and A fuel db path bref cs v arbitrary: f ty x and x
    rule: traverse_rec_traverse_children.induct)
  case (1 A fuel db path bref dec v)
  note full = is_full_iff(3) [OF "1.prems"(3)]
  show ?case
  proof (cases dec)
    case (Dir dir)
    then have ty: "ty = Directory" using decode_as_other [OF "1.prems"(4)] by blast
    then have dir: "get_decoded (Dir_from_full A) db (blockid bref) (key bref) = Inr dir"
      using decode_as_dir [of A f "key bref" dec db "blockid bref"] "1.prems"(3,4) Dir by simp
    have "traverse_children A fuel db path bref (dir_children dir) v = Inr x"
      using "1.prems" Dir by (simp add: traverse_rec.simps contains_def BlockDb_get_def)
    then show ?thesis
      using "1.IH" [OF _ _ _ Dir] "1.prems"(2,3) full all_full_Directory [OF dir] ty
      by (simp add: contains_def BlockDb_get_def)
  next
    case (Meta m)
    moreover from this have "ty \<noteq> Directory"
      using "1.prems"(4) by (auto simp: decode_as_def outcome_simps)
    ultimately show ?thesis
      using "1.prems" full by (simp add: traverse_rec.simps contains_def BlockDb_get_def all_full_other)
  next
    case (Leaf l)
    moreover from this have "ty \<noteq> Directory"
      using "1.prems"(4) by (auto simp: decode_as_def outcome_simps)
    ultimately show ?thesis
      using "1.prems" full by (simp add: traverse_rec.simps contains_def BlockDb_get_def all_full_other)
  qed
next
  case (2 A fuel db path bref v)
  then show ?case by (simp add: traverse_children.simps)
next
  case (3 A fuel db path bref c cs v)
  let ?r = "child_blockref c"
  show ?case
  proof (cases "is_full db (blockid ?r)")
    case False
    then have "x = Some ()"
      using "3.prems"
      by (auto simp: traverse_children.simps(2) Let_def contains_def BlockDb_get_def is_full_def
          split: if_splits option.splits Block.splits)
    then show ?thesis using False all_full_here by (auto simp: all_full_here)
  next
    case True
    then obtain f where f: "db_blocks db (blockid ?r) = Some (Full f)" by (auto simp: is_full_def)
    have has: "contains db (blockid ?r)" "BlockDb_get db (blockid ?r) = Inr (Full f)"
      using f by (simp_all add: contains_def BlockDb_get_def)
    obtain g where g: "fuel = Suc g"
      using "3.prems"(1) has by (cases fuel) (auto simp: traverse_children.simps(2) Let_def outcome_simps)
    obtain dec found where dec: "decode_as A (child_type c) f (key ?r) = Inr dec"
      "traverse_rec A g db (path_join path (Path_new (child_name c))) ?r dec v = Inr found"
      "found = None \<Longrightarrow> traverse_children A fuel db path bref cs v = Inr x"
      "found \<noteq> None \<Longrightarrow> x \<noteq> None"
      using "3.prems"(1) has g
      by (auto simp: traverse_children.simps(2) Let_def outcome_simps split: option.splits)
    have found: "found = None \<longleftrightarrow> all_full A db (child_type c) ?r"
      using "3.IH"(3) [OF refl _ has(2) refl dec(1) g dec(2) "3.prems"(2) f dec(1)] has(1) by simp
    show ?thesis
    proof (cases found)
      case None
      then have "x = None \<longleftrightarrow> (\<forall>c \<in> set cs. all_full A db (child_type c) (child_blockref c))"
        using "3.IH"(4) [OF refl _ has(2) refl dec(1)] has(1) dec(2,3) g "3.prems"(2) by simp
      then show ?thesis using found None by simp
    next
      case (Some t)
      then show ?thesis using found dec(4) by auto
    qed
  qed
qed

lemma verify_all_full:
  assumes "verify A fuel db pending = Inr b" and "traverse_root db pending = Inr root"
  shows "b \<longleftrightarrow> all_full A db Directory root"
proof -
  from assms obtain x where x: "traverse A fuel db root VerifyVisitor = Inr x" and b: "b \<longleftrightarrow> x = None"
    by (auto simp: verify_def outcome_simps)
  from x obtain f dir where f: "db_blocks db (blockid root) = Some (Full f)"
    and dir: "unwrap_opt UnwrapErr (Dir_from_full A f (key root)) = Inr dir"
    and t: "traverse_rec A fuel db (False, []) root (Decoded.Dir dir) VerifyVisitor = Inr x"
    by (auto simp: traverse_def outcome_simps Let_def)
  have "decode_as A Directory f (key root) = Inr (Decoded.Dir dir)"
    using dir by (simp add: decode_as_def)
  from traverse_verify(1) [OF t refl f this] b show ?thesis by simp
qed

section \<open>Stores that agree\<close>

text \<open>A store whose complete blocks, where both have them, are those of another store.\<close>

definition agrees :: "BlockDb \<Rightarrow> BlockDb \<Rightarrow> bool" where
  "agrees db db' \<longleftrightarrow> (\<forall>i d d'. full_at db i = Some d \<longrightarrow> full_at db' i = Some d' \<longrightarrow> d = d')"

lemma get_decoded_agrees:
  assumes "agrees db db'" and "is_full db i" and "get_decoded dec db' i k = Inr x"
    and "\<And>f g. full_data f = full_data g \<Longrightarrow> dec f k = dec g k"
  shows "get_decoded dec db i k = Inr x"
proof -
  obtain f where f: "db_blocks db i = Some (Full f)" using assms(2) by (auto simp: is_full_def)
  obtain g where g: "db_blocks db' i = Some (Full g)" and x: "unwrap_opt UnwrapErr (dec g k) = Inr x"
    using assms(3) by (auto simp: get_decoded_def outcome_simps)
  have "full_data f = full_data g" using assms(1) f g unfolding agrees_def full_at_eq_Some by blast
  then show ?thesis using f x assms(4) [of f g] by (simp add: get_decoded_def BlockDb_get_def)
qed

lemma holds_agrees:
  shows "holds A db' t ty r \<Longrightarrow> agrees db db' \<Longrightarrow> all_full A db ty r \<Longrightarrow> holds A db t ty r"
    and "holds_kids A db' kids cs \<Longrightarrow> agrees db db' \<Longrightarrow>
      \<forall>c \<in> set cs. all_full A db (child_type c) (child_blockref c) \<Longrightarrow> holds_kids A db kids cs"
proof (induction A db' t ty r and A db' kids cs rule: holds_holds_kids.induct)
  case (1 A db' d ty r)
  have "get_decoded (Leaf_from_full A) db' (blockid r) (key r) = Inr \<lparr>leaf_data = d\<rparr>"
    using 1 by simp
  then have "get_decoded (Leaf_from_full A) db (blockid r) (key r) = Inr \<lparr>leaf_data = d\<rparr>"
    by (rule get_decoded_agrees [OF 1(2) all_full_here [OF 1(3)]])
      (simp add: Leaf_from_full_def from_full_def)
  then show ?case using 1 by simp
next
  case (2 A db' kids ty r)
  then obtain cs where ty: "ty = Directory"
    and cs: "get_decoded (Dir_from_full A) db' (blockid r) (key r) = Inr \<lparr>dir_children = cs\<rparr>"
      "holds_kids A db' kids cs" by auto
  have dir: "get_decoded (Dir_from_full A) db (blockid r) (key r) = Inr \<lparr>dir_children = cs\<rparr>"
    by (rule get_decoded_agrees [OF "2.prems"(2) all_full_here [OF "2.prems"(3)] cs(1)])
      (simp add: Dir_from_full_def from_full_def)
  have "\<forall>c \<in> set cs. all_full A db (child_type c) (child_blockref c)"
    using "2.prems"(3) all_full_Directory [OF dir] ty by simp
  then have "holds_kids A db kids cs" using "2.IH" [OF cs(2) "2.prems"(2)] by blast
  then show ?case using ty dir by auto
next
  case (6 A db' n t kids cs)
  show ?case
  proof (cases "real_node t")
    case True
    then obtain c cs' where "cs = c # cs'" using "6.prems"(1) by (cases cs) auto
    then show ?thesis using True 6 by simp
  next
    case False
    then show ?thesis using 6 by simp
  qed
qed auto

end
