(* ===== verification/Blocks_In_Transit.thy ===== *)
theory Blocks_In_Transit
  imports Scsync Verify
begin

text \<open>
  The receiving side of a block transfer. A sender's store is the reference: \<open>db_inv\<close> says that a
  receiver's store holds, chunk by chunk, nothing but the bytes of the reference, and every operation
  keeps it as long as the messages are the sender's. A promoted block is then the sender's block.
\<close>

section \<open>Partial blocks\<close>

definition partial_ok :: "u8 list \<Rightarrow> Partial \<Rightarrow> bool" where
  "partial_ok d p \<longleftrightarrow>
     length (partial_data p) = length d \<and>
     length (available p) = (length d + CHUNK_SIZE - 1) div CHUNK_SIZE \<and>
     (\<forall>i < length (available p). available p ! i \<longrightarrow>
        chunk_of CHUNK_SIZE (partial_data p) i = chunk_of CHUNK_SIZE d i)"

definition db_inv :: "BlockDb \<Rightarrow> BlockDb \<Rightarrow> bool" where
  "db_inv ref db \<longleftrightarrow>
     (\<forall>i b. db_blocks db i = Some b \<longrightarrow> Block_id b = i \<and>
       (case b of
          Full f \<Rightarrow> (\<forall>d. full_at ref i = Some d \<longrightarrow> full_data f = d)
        | Partial p \<Rightarrow> (\<exists>d. full_at ref i = Some d \<and> partial_ok d p)))"

lemma CHUNK_SIZE_pos [simp]: "0 < CHUNK_SIZE"
  by (simp add: CHUNK_SIZE_def)

lemma chunk_index_bound:
  assumes "i * CHUNK_SIZE < n"
  shows "i < (n + CHUNK_SIZE - 1) div CHUNK_SIZE"
proof -
  have "(i + 1) * CHUNK_SIZE \<le> n + CHUNK_SIZE - 1" using assms by (simp add: CHUNK_SIZE_def)
  then have "i + 1 \<le> (n + CHUNK_SIZE - 1) div CHUNK_SIZE"
    by (metis CHUNK_SIZE_pos less_eq_div_iff_mult_less_eq)
  then show ?thesis by simp
qed

lemma Partial_new_ok:
  assumes "Partial_new i (length d) = Inr p"
  shows "partial_ok d p" and "partial_id p = i"
  using assms by (auto simp: Partial_new_def outcome_simps partial_ok_def)

lemma store_chunk_ok:
  assumes ok: "partial_ok d p" and st: "store_chunk p i (chunk_of CHUNK_SIZE d i) = Inr p'"
  shows "partial_ok d p'" and "partial_id p' = partial_id p"
proof -
  let ?ds = "chunk_of CHUNK_SIZE d i"
  have i: "i < length (available p)"
    and p': "p' = p\<lparr>partial_data := overwrite (partial_data p) (i * CHUNK_SIZE) ?ds,
                   available := (available p)[i := True]\<rparr>"
    using st by (auto simp: store_chunk_def outcome_simps split: if_splits)
  show "partial_id p' = partial_id p" using p' by simp
  have len: "length (partial_data p) = length d" using ok by (simp add: partial_ok_def)
  then have fit: "0 + length ?ds \<le> length (chunk_of CHUNK_SIZE (partial_data p) i)"
    by (simp add: length_chunk_of)
  have same: "length (chunk_of CHUNK_SIZE (partial_data p) i) = length ?ds"
    using len by (simp add: length_chunk_of)
  have len': "length (overwrite (partial_data p) (i * CHUNK_SIZE) ?ds) = length d"
  proof (cases "?ds = []")
    case True
    then show ?thesis using len by (simp add: overwrite_def)
  next
    case False
    then have "i * CHUNK_SIZE + 0 + length ?ds \<le> length (partial_data p)"
      using fit by (intro write_inside_chunk_of) simp_all
    then show ?thesis using len by simp
  qed
  have own: "chunk_of CHUNK_SIZE (overwrite (partial_data p) (i * CHUNK_SIZE) ?ds) i = ?ds"
  proof -
    have "length (chunk_of CHUNK_SIZE (overwrite (partial_data p) (i * CHUNK_SIZE) ?ds) i) = length ?ds"
      using len' by (simp add: length_chunk_of)
    with chunk_of_overwrite_prefix [OF fit] show ?thesis by simp
  qed
  have "chunk_of CHUNK_SIZE (partial_data p') j = chunk_of CHUNK_SIZE d j"
    if "j < length (available p')" "available p' ! j" for j
  proof (cases "j = i")
    case True
    then show ?thesis using own p' by simp
  next
    case False
    then have "chunk_of CHUNK_SIZE (partial_data p') j = chunk_of CHUNK_SIZE (partial_data p) j"
      using chunk_of_overwrite_other [OF fit, of j] p' by simp
    then show ?thesis using that False ok p' by (simp add: partial_ok_def)
  qed
  then show "partial_ok d p'" using ok p' len' by (simp add: partial_ok_def)
qed

lemma partial_complete:
  assumes "partial_ok d p" and "list_all id (available p)"
  shows "partial_data p = d"
proof (rule chunk_of_all [of CHUNK_SIZE])
  fix i
  assume "i * CHUNK_SIZE < length d"
  then have "i < length (available p)" using assms(1) chunk_index_bound by (simp add: partial_ok_def)
  moreover from this have "available p ! i" using assms(2) by (simp add: list_all_length)
  ultimately show "chunk_of CHUNK_SIZE (partial_data p) i = chunk_of CHUNK_SIZE d i"
    using assms(1) by (simp add: partial_ok_def)
qed (use assms(1) in \<open>simp_all add: partial_ok_def\<close>)

section \<open>The store of a receiver\<close>

lemma db_inv_Partial:
  "db_inv ref db \<Longrightarrow> db_blocks db i = Some (Partial p) \<Longrightarrow>
   partial_id p = i \<and> (\<exists>d. full_at ref i = Some d \<and> partial_ok d p)"
  by (fastforce simp: db_inv_def)

lemma db_inv_agrees: "db_inv ref db \<Longrightarrow> agrees db ref"
  unfolding agrees_def full_at_eq_Some [of db]
  by (fastforce simp: db_inv_def)

lemma db_inv_update:
  assumes "db_inv ref db" and "Block_id b = i"
    and "case b of Full f \<Rightarrow> (\<forall>d. full_at ref i = Some d \<longrightarrow> full_data f = d)
      | Partial p \<Rightarrow> (\<exists>d. full_at ref i = Some d \<and> partial_ok d p)"
  shows "db_inv ref (db\<lparr>db_blocks := (db_blocks db)(i \<mapsto> b)\<rparr>)"
  using assms by (auto simp: db_inv_def)

lemma db_inv_roots [simp]:
  "db_inv ref (set_pending_root db r) = db_inv ref db"
  "apply_pending db = Inr (old, db') \<Longrightarrow> db_inv ref db' = db_inv ref db"
  by (auto simp: db_inv_def set_pending_root_def apply_pending_def split: option.splits)

lemma db_inv_add:
  assumes "db_inv ref db" and "full_at ref (partial_id p) = Some d" and "partial_ok d p"
  shows "db_inv ref (BlockDb_add db (Partial p))"
  using assms db_inv_update [OF assms(1), of "Partial p" "partial_id p"]
  by (auto simp: BlockDb_add_def split: option.splits)

lemma receive_chunk_inv:
  assumes inv: "db_inv ref db" and d: "full_at ref (tr_blockid t) = Some d"
    and data: "tp_data c = chunk_of CHUNK_SIZE d (tp_chunkid c - tr_start t)"
    and rc: "receive_chunk db t c = Inr db'"
  shows "db_inv ref db'"
    and "db_root db' = db_root db" and "db_pending_root db' = db_pending_root db"
proof -
  obtain p p' where p: "db_blocks db (tr_blockid t) = Some (Partial p)"
    and st: "store_chunk p (tp_chunkid c - tr_start t) (tp_data c) = Inr p'"
    and db': "db' = db\<lparr>db_blocks := (db_blocks db)(tr_blockid t \<mapsto> Partial p')\<rparr>"
    using rc by (auto simp: receive_chunk_def outcome_simps BlockDb_get_mut_def Block_partial_mut_def
        split: option.splits Block.splits)
  from db_inv_Partial [OF inv p] d have "partial_id p = tr_blockid t" and "partial_ok d p" by auto
  then show "db_inv ref db'"
    unfolding db' using store_chunk_ok [of d p] st data d by (intro db_inv_update [OF inv]) auto
  show "db_root db' = db_root db" "db_pending_root db' = db_pending_root db" using db' by simp_all
qed

lemma try_promote_inv:
  assumes inv: "db_inv ref db" and tp: "try_promote db i = Inr (b, db')"
  shows "db_inv ref db'" and "db_root db' = db_root db" and "db_pending_root db' = db_pending_root db"
    and "b \<Longrightarrow> full_at db' i = full_at ref i"
proof -
  have "db_inv ref db' \<and> db_root db' = db_root db \<and> db_pending_root db' = db_pending_root db \<and>
    (b \<longrightarrow> full_at db' i = full_at ref i)"
  proof (cases b)
    case True
    then obtain p where p: "db_blocks db i = Some (Partial p)" "list_all id (available p)"
      and db': "db' = db\<lparr>db_blocks := (db_blocks db)
        (i \<mapsto> Full \<lparr>full_id = partial_id p, full_data = partial_data p\<rparr>)\<rparr>"
      using tp by (auto simp: try_promote_True)
    from db_inv_Partial [OF inv p(1)] obtain d where d: "partial_id p = i" "full_at ref i = Some d"
      "partial_data p = d" using partial_complete p(2) by blast
    then have "db_inv ref db'" unfolding db' by (intro db_inv_update [OF inv]) auto
    then show ?thesis using d db' by (simp add: full_at_def)
  next
    case False
    then show ?thesis using tp inv by (auto simp: try_promote_False)
  qed
  then show "db_inv ref db'" and "db_root db' = db_root db" and "db_pending_root db' = db_pending_root db"
    and "b \<Longrightarrow> full_at db' i = full_at ref i" by auto
qed

end
