(* ===== verification/Sync_Client.thy ===== *)
theory Sync_Client
  imports Blocks_In_Transit
begin

text \<open>
  The sending side of a synchronisation: a client node connected to one server. \<open>alloc_ok\<close> is the
  invariant of the chunk ids it has given to blocks; \<open>client_msg\<close> says what its messages tell the
  truth about. Every step of the client keeps its invariant and sends only such messages, whatever
  status updates and block requests it receives.
\<close>

section \<open>Chunk ids given to blocks\<close>

definition alloc_ok :: "BlockDb \<Rightarrow> (nat \<times> nat \<times> BlockId) list \<Rightarrow> nat \<Rightarrow> bool" where
  "alloc_ok ref ts cur \<longleftrightarrow>
     sorted_wrt (\<lambda>a b. fst (snd a) \<le> fst b) ts \<and> cur < 2 ^ 64 \<and>
     (\<forall>a \<in> set ts. \<exists>d. full_at ref (snd (snd a)) = Some d \<and> fst (snd a) = fst a + length d \<and>
        fst (snd a) \<le> cur)"

lemma alloc_unique:
  assumes "alloc_ok ref ts cur" and "(f, t, i) \<in> set ts" and "(f', t', i') \<in> set ts"
    and "f \<le> x" and "x < t" and "f' \<le> x" and "x < t'"
  shows "(f, t, i) = (f', t', i')"
proof -
  obtain j k where j: "j < length ts" "ts ! j = (f, t, i)" and k: "k < length ts" "ts ! k = (f', t', i')"
    using assms(2,3) by (metis in_set_conv_nth)
  have srt: "sorted_wrt (\<lambda>a b. fst (snd a) \<le> fst b) ts" using assms(1) by (simp add: alloc_ok_def)
  consider "j = k" | "j < k" | "k < j" by linarith
  then show ?thesis
  proof cases
    case 1
    then show ?thesis using j k by simp
  next
    case 2
    then have "t \<le> f'" using sorted_wrt_nth_less [OF srt 2 k(1)] j k by simp
    then show ?thesis using assms(4-7) by simp
  next
    case 3
    then have "t' \<le> f" using sorted_wrt_nth_less [OF srt 3 j(1)] j k by simp
    then show ?thesis using assms(4-7) by simp
  qed
qed

text \<open>A reference store: complete blocks under 32-byte ids, below a well-typed root.\<close>

definition ref_ok :: "BlockDb \<Rightarrow> bool" where
  "ref_ok ref \<longleftrightarrow> BlockRef_ok (db_root ref) \<and> db_pending_root ref = None \<and>
     (\<forall>i b. db_blocks ref i = Some b \<longrightarrow> (\<exists>f. b = Full f \<and> full_id f = i \<and> length i = 32))"

lemma ref_ok_get:
  assumes "ref_ok ref" and "BlockDb_get ref i = Inr b"
  shows "\<exists>f. b = Full f \<and> full_at ref i = Some (full_data f) \<and> Block_len b = length (full_data f) \<and>
    length i = 32"
proof -
  have "db_blocks ref i = Some b" using assms(2) by (simp add: outcome_simps)
  moreover from this obtain f where "b = Full f" "length i = 32"
    using assms(1) unfolding ref_ok_def by blast
  ultimately show ?thesis by (simp add: full_at_def Block_len_def)
qed

lemma allocate_transfer_ok:
  assumes ref: "ref_ok ref" and ok: "alloc_ok ref (to_transfers out) (to_transfer_cursor out)"
    and al: "allocate_transfer ref out i = Inr (tr, out')"
  shows "alloc_ok ref (to_transfers out') (to_transfer_cursor out')"
    and "set (to_transfers out) \<subseteq> set (to_transfers out')"
    and "tr \<in> set (to_transfers out')" and "snd (snd tr) = i"
proof -
  have "alloc_ok ref (to_transfers out') (to_transfer_cursor out') \<and>
    set (to_transfers out) \<subseteq> set (to_transfers out') \<and> tr \<in> set (to_transfers out') \<and> snd (snd tr) = i"
  proof (cases "find (\<lambda>(from, to, i'). i' = i) (to_transfers out)")
    case (Some a)
    then have "a \<in> set (to_transfers out)" "snd (snd a) = i" by (auto dest: find_SomeD)
    then show ?thesis using al Some ok by (auto simp: allocate_transfer_def)
  next
    case None
    then obtain b where b: "BlockDb_get ref i = Inr b"
      and lt: "to_transfer_cursor out + Block_len b < 2 ^ 64"
      and tr: "tr = (to_transfer_cursor out, to_transfer_cursor out + Block_len b, i)"
      and out': "out' = out\<lparr>to_transfer_cursor := to_transfer_cursor out + Block_len b,
        to_transfers := to_transfers out @ [tr]\<rparr>"
      using al by (auto simp: allocate_transfer_def outcome_simps Let_def)
    obtain d where get: "full_at ref i = Some d" "Block_len b = length d"
      using ref_ok_get [OF ref b] by blast
    have "alloc_ok ref (to_transfers out') (to_transfer_cursor out')"
      using ok lt get unfolding alloc_ok_def out' tr
      by (auto simp: sorted_wrt_append intro: trans_le_add1)
    then show ?thesis using tr out' by auto
  qed
  then show "alloc_ok ref (to_transfers out') (to_transfer_cursor out')"
    and "set (to_transfers out) \<subseteq> set (to_transfers out')"
    and "tr \<in> set (to_transfers out')" and "snd (snd tr) = i" by blast+
qed

section \<open>What the client says\<close>

definition client_msg :: "BlockDb \<Rightarrow> (nat \<times> nat \<times> BlockId) list \<Rightarrow> Msg \<Rightarrow> bool" where
  "client_msg ref ts m \<longleftrightarrow>
     (case m of
        RootUpdate u \<Rightarrow> ru_to_blockref u = db_root ref \<and> RootUpdate_ok u
      | BlockRequestResponse r \<Rightarrow>
          (bq_start_id r, bq_end_id r, bq_blockid r) \<in> set ts \<and> BlockRequestResponse_ok r \<and>
          (\<exists>d. full_at ref (bq_blockid r) = Some d \<and> bq_len r = length d)
      | TransferPayload p \<Rightarrow>
          tp_chunkid p < 2 ^ 64 \<and>
          (\<exists>f t i d. (f, t, i) \<in> set ts \<and> f \<le> tp_chunkid p \<and> tp_chunkid p < t \<and>
             full_at ref i = Some d \<and> tp_data p = chunk_of CHUNK_SIZE d (tp_chunkid p - f))
      | _ \<Rightarrow> False)"

lemma client_msg_mono: "client_msg ref ts m \<Longrightarrow> set ts \<subseteq> set ts' \<Longrightarrow> client_msg ref ts' m"
  by (cases m) (fastforce simp: client_msg_def)+

text \<open>What the server says to it.\<close>

definition server_msg :: "BlockDb \<Rightarrow> Msg \<Rightarrow> bool" where
  "server_msg ref m \<longleftrightarrow>
     (case m of
        RootUpdateResponse r \<Rightarrow> rr_to_blockid r = blockid (db_root ref) \<and> RootUpdateResponse_ok r
      | BlockRequest _ \<Rightarrow> True
      | TransferStatus _ \<Rightarrow> True
      | _ \<Rightarrow> False)"

definition client_task :: "BlockDb \<Rightarrow> SocketAddr \<Rightarrow> (nat \<times> nat \<times> BlockId) list \<Rightarrow> task \<Rightarrow> bool" where
  "client_task ref sa ts t \<longleftrightarrow>
     (case t of
        SendTask m a \<Rightarrow> a = sa \<and> client_msg ref ts m
      | PayloadTask a \<Rightarrow> a = sa
      | _ \<Rightarrow> False)"

definition client_out :: "SocketAddr \<Rightarrow> Node \<Rightarrow> TransferOut" where
  "client_out sa n = transfer_out (the (h_clients (nd_handler n) sa))"

definition client_node_inv :: "BlockDb \<Rightarrow> SocketAddr \<Rightarrow> Node \<Rightarrow> bool" where
  "client_node_inv ref sa n \<longleftrightarrow>
     h_blockdb (nd_handler n) = ref \<and> dom (h_clients (nd_handler n)) = {sa} \<and>
     alloc_ok ref (to_transfers (client_out sa n)) (to_transfer_cursor (client_out sa n)) \<and>
     (\<forall>t \<in> set (nd_tasks n). client_task ref sa (to_transfers (client_out sa n)) t)"

lemma client_task_mono: "client_task ref sa ts t \<Longrightarrow> set ts \<subseteq> set ts' \<Longrightarrow> client_task ref sa ts' t"
  by (cases t) (auto simp: client_task_def intro: client_msg_mono)

section \<open>Its steps\<close>

text \<open>The payload loop reads the chunk of the block that owns the id the cursor is at.\<close>

lemma payload_step_cases:
  assumes "payload_step h sa = Inr (h', r)" and "h_clients h sa = Some client"
  obtains (idle) "h' = h" and "r = None"
  | (chunk) cursor f t i full where
      "find (\<lambda>(from, to, _). from \<le> cursor \<and> cursor < to) (to_transfers (transfer_out client))
         = Some (f, t, i)"
      "to_cursor (transfer_out client) = Some cursor" "cursor + 1 < 2 ^ 64"
      "db_blocks (h_blockdb h) i = Some (Full full)"
      "h' = put_client h sa (client\<lparr>transfer_out := (transfer_out client)
         \<lparr>to_cursor := next_cursor (to_todo (transfer_out client)) (cursor + 1)\<rparr>\<rparr>)"
      "r = Some \<lparr>tp_chunkid = cursor, tp_data = chunk_of CHUNK_SIZE (full_data full) (cursor - f)\<rparr>"
proof (cases "to_cursor (transfer_out client)")
  case None
  then show ?thesis using assms idle by (simp add: payload_step_def get_client_def Let_def)
next
  case (Some cursor)
  show ?thesis
  proof (cases "find (\<lambda>(from, to, _). from \<le> cursor \<and> cursor < to) (to_transfers (transfer_out client))")
    case None
    then show ?thesis using assms Some by (simp add: payload_step_def get_client_def Let_def)
  next
    case found: (Some a)
    obtain f t i where a: "a = (f, t, i)" by (cases a)
    show ?thesis
      using assms Some found a chunk [of cursor f t i]
      by (auto simp: payload_step_def get_client_def Let_def outcome_simps chunk_of_def)
  qed
qed

lemma payload_step_msg:
  assumes ref: "ref_ok (h_blockdb h)" and cl: "h_clients h sa = Some client"
    and st: "payload_step h sa = Inr (h', r)"
  shows "h_blockdb h' = h_blockdb h"
    and "\<exists>c. h_clients h' = (h_clients h)(sa \<mapsto>
      client\<lparr>transfer_out := (transfer_out client)\<lparr>to_cursor := c\<rparr>\<rparr>)"
    and "r = Some p \<Longrightarrow> client_msg (h_blockdb h) (to_transfers (transfer_out client)) (TransferPayload p)"
proof -
  let ?out = "transfer_out client"
  have "h_blockdb h' = h_blockdb h \<and> (\<exists>c. h_clients h' = (h_clients h)(sa \<mapsto>
      client\<lparr>transfer_out := ?out\<lparr>to_cursor := c\<rparr>\<rparr>)) \<and>
    (\<forall>p. r = Some p \<longrightarrow> client_msg (h_blockdb h) (to_transfers ?out) (TransferPayload p))"
    using st cl
  proof (cases rule: payload_step_cases)
    case idle
    then show ?thesis using cl by (auto simp: fun_upd_idem intro: exI [of _ "to_cursor ?out"])
  next
    case (chunk cursor f t i full)
    then have "(f, t, i) \<in> set (to_transfers ?out)" "f \<le> cursor" "cursor < t"
      by (auto dest: find_SomeD)
    moreover have "full_at (h_blockdb h) i = Some (full_data full)" using chunk(4) by (simp add: full_at_def)
    ultimately show ?thesis
      using chunk by (auto simp: client_msg_def put_client_def)
  qed
  then show "h_blockdb h' = h_blockdb h"
    and "\<exists>c. h_clients h' = (h_clients h)(sa \<mapsto>
      client\<lparr>transfer_out := (transfer_out client)\<lparr>to_cursor := c\<rparr>\<rparr>)"
    and "r = Some p \<Longrightarrow> client_msg (h_blockdb h) (to_transfers (transfer_out client)) (TransferPayload p)"
    by blast+
qed

text \<open>The invariant on the parts of the client.\<close>

lemma client_node_invI:
  assumes "h_blockdb h = ref" and "h_clients h = [sa \<mapsto> client]"
    and "alloc_ok ref (to_transfers (transfer_out client)) (to_transfer_cursor (transfer_out client))"
    and "\<forall>t \<in> set ts. client_task ref sa (to_transfers (transfer_out client)) t"
  shows "client_node_inv ref sa \<lparr>nd_handler = h, nd_tasks = ts\<rparr>"
  using assms by (simp add: client_node_inv_def client_out_def)

lemma client_node_invE:
  assumes "client_node_inv ref sa n"
  obtains client where "h_blockdb (nd_handler n) = ref" and "h_clients (nd_handler n) = [sa \<mapsto> client]"
    and "alloc_ok ref (to_transfers (transfer_out client)) (to_transfer_cursor (transfer_out client))"
    and "\<forall>t \<in> set (nd_tasks n). client_task ref sa (to_transfers (transfer_out client)) t"
    and "client_out sa n = transfer_out client"
proof -
  have dom: "dom (h_clients (nd_handler n)) = {sa}" using assms by (simp add: client_node_inv_def)
  then obtain client where "h_clients (nd_handler n) = [sa \<mapsto> client]"
    by (auto simp: dom_eq_singleton_conv)
  then show ?thesis using assms that [of client] by (simp add: client_node_inv_def client_out_def)
qed

lemma client_block_request:
  assumes ref: "ref_ok ref" and h: "h_blockdb h = ref" "h_clients h = [sa \<mapsto> client]"
    and ok: "alloc_ok ref (to_transfers (transfer_out client)) (to_transfer_cursor (transfer_out client))"
    and br: "block_request h sa req = Inr (h', ts)"
  obtains client' where "h_blockdb h' = ref" and "h_clients h' = [sa \<mapsto> client']"
    and "alloc_ok ref (to_transfers (transfer_out client')) (to_transfer_cursor (transfer_out client'))"
    and "set (to_transfers (transfer_out client)) \<subseteq> set (to_transfers (transfer_out client'))"
    and "\<forall>t \<in> set ts. client_task ref sa (to_transfers (transfer_out client')) t"
proof -
  obtain tr out b where al: "allocate_transfer ref (transfer_out client) (br_blockid req) = Inr (tr, out)"
    and b: "BlockDb_get ref (br_blockid req) = Inr b"
    and h': "h' = put_client h sa (client\<lparr>transfer_out := out\<rparr>)"
    and ts: "ts = [SendTask (BlockRequestResponse \<lparr>bq_blockid = br_blockid req, bq_start_id = fst tr,
      bq_end_id = fst (snd tr), bq_len = Block_len b\<rparr>) sa]"
    using br h by (auto simp: block_request_def get_client_def outcome_simps)
  note new = allocate_transfer_ok [OF ref ok al]
  obtain d where d: "full_at ref (br_blockid req) = Some d" "Block_len b = length d"
    "length (br_blockid req) = 32" using ref_ok_get [OF ref b] by blast
  have "fst (snd tr) = fst tr + length d" and "fst (snd tr) < 2 ^ 64"
    using new(1,3,4) d(1) by (auto simp: alloc_ok_def)
  moreover have "(fst tr, fst (snd tr), br_blockid req) \<in> set (to_transfers out)"
    using new(3,4) by (metis prod.collapse)
  ultimately have "client_task ref sa (to_transfers out) t" if "t \<in> set ts" for t
    using that d by (auto simp: ts client_task_def client_msg_def BlockRequestResponse_ok_def BlockId_ok_def)
  then show ?thesis
    using that [of "client\<lparr>transfer_out := out\<rparr>"] new(1,2) h h' by (simp add: put_client_def)
qed

lemma client_recv:
  assumes ref: "ref_ok ref" and inv: "client_node_inv ref sa n" and m: "server_msg ref m"
    and st: "node_recv E r n sa m = Inr n'"
  shows "client_node_inv ref sa n'"
    and "set (to_transfers (client_out sa n)) \<subseteq> set (to_transfers (client_out sa n'))"
proof -
  obtain h ts where dp: "dispatch E r (nd_handler n) sa m = Inr (h, ts)"
    and n': "n' = \<lparr>nd_handler = h, nd_tasks = nd_tasks n @ ts\<rparr>"
    using st by (auto simp: node_recv_def outcome_simps)
  obtain client where c: "h_blockdb (nd_handler n) = ref" "h_clients (nd_handler n) = [sa \<mapsto> client]"
    "alloc_ok ref (to_transfers (transfer_out client)) (to_transfer_cursor (transfer_out client))"
    "\<forall>t \<in> set (nd_tasks n). client_task ref sa (to_transfers (transfer_out client)) t"
    "client_out sa n = transfer_out client"
    using inv by (rule client_node_invE)
  have known: "client_state (nd_handler n) sa = Known" using c(2) by (simp add: client_state_def)
  have "\<exists>client'. h_blockdb h = ref \<and> h_clients h = [sa \<mapsto> client'] \<and>
    alloc_ok ref (to_transfers (transfer_out client')) (to_transfer_cursor (transfer_out client')) \<and>
    set (to_transfers (transfer_out client)) \<subseteq> set (to_transfers (transfer_out client')) \<and>
    (\<forall>t \<in> set ts. client_task ref sa (to_transfers (transfer_out client')) t)"
  proof (cases m)
    case (RootUpdateResponse res)
    then have "h = nd_handler n" "ts = []"
      using dp known m c(1) by (auto simp: dispatch_def needs_update_def server_msg_def BlockDb_root_def)
    then show ?thesis using c by auto
  next
    case (BlockRequest req)
    then have "block_request (nd_handler n) sa req = Inr (h, ts)" using dp known by (simp add: dispatch_def)
    then show ?thesis by (rule client_block_request [OF ref c(1,2,3)]) blast
  next
    case (TransferStatus s)
    then show ?thesis
      using dp known c
      by (auto simp: dispatch_def transfer_status_def get_client_def put_client_def Let_def client_task_def
          split: if_splits)
  qed (use m in \<open>simp_all add: server_msg_def\<close>)
  then obtain client' where c': "h_blockdb h = ref" "h_clients h = [sa \<mapsto> client']"
    "alloc_ok ref (to_transfers (transfer_out client')) (to_transfer_cursor (transfer_out client'))"
    "set (to_transfers (transfer_out client)) \<subseteq> set (to_transfers (transfer_out client'))"
    "\<forall>t \<in> set ts. client_task ref sa (to_transfers (transfer_out client')) t" by blast
  have "\<forall>t \<in> set (nd_tasks n @ ts). client_task ref sa (to_transfers (transfer_out client')) t"
    using c(4) c'(4,5) client_task_mono [of ref sa "to_transfers (transfer_out client)"]
    unfolding set_append by blast
  then show "client_node_inv ref sa n'" unfolding n' by (rule client_node_invI [OF c'(1,2,3)])
  show "set (to_transfers (client_out sa n)) \<subseteq> set (to_transfers (client_out sa n'))"
    using c(5) c'(2,4) n' by (simp add: client_out_def)
qed

lemma client_task_step:
  assumes ref: "ref_ok ref" and inv: "client_node_inv ref sa n" and st: "node_task n i dl = Inr (n', sent)"
  shows "client_node_inv ref sa n'" and "to_transfers (client_out sa n') = to_transfers (client_out sa n)"
    and "sent = Some (m, a) \<Longrightarrow> a = sa \<and> client_msg ref (to_transfers (client_out sa n)) m"
proof -
  obtain t h t' where t: "i < length (nd_tasks n)" "t = nd_tasks n ! i"
    and ts: "task_step (nd_handler n) dl t = Inr (h, sent, t')"
    and n': "n' = \<lparr>nd_handler = h, nd_tasks = take i (nd_tasks n) @
      (case t' of None \<Rightarrow> [] | Some x \<Rightarrow> [x]) @ drop (Suc i) (nd_tasks n)\<rparr>"
    using st by (auto simp: node_task_def outcome_simps)
  obtain client where c: "h_blockdb (nd_handler n) = ref" "h_clients (nd_handler n) = [sa \<mapsto> client]"
    "alloc_ok ref (to_transfers (transfer_out client)) (to_transfer_cursor (transfer_out client))"
    "\<forall>t \<in> set (nd_tasks n). client_task ref sa (to_transfers (transfer_out client)) t"
    "client_out sa n = transfer_out client"
    using inv by (rule client_node_invE)
  let ?al = "to_transfers (transfer_out client)"
  have ct: "client_task ref sa ?al t" using t c(4) by simp
  have "h_blockdb h = ref \<and> (\<exists>cur. h_clients h = [sa \<mapsto>
      client\<lparr>transfer_out := (transfer_out client)\<lparr>to_cursor := cur\<rparr>\<rparr>]) \<and>
    (t' = None \<or> t' = Some t) \<and> (\<forall>m a. sent = Some (m, a) \<longrightarrow> a = sa \<and> client_msg ref ?al m)"
  proof (cases t)
    case (SendTask m a)
    then show ?thesis
      using ts ct c(1,2) by (auto simp: task_step_def client_task_def intro: exI [of _ "to_cursor (transfer_out client)"])
  next
    case (PayloadTask a)
    then have a: "a = sa" using ct by (simp add: client_task_def)
    obtain r where ps: "payload_step (nd_handler n) sa = Inr (h, r)"
      and r: "case r of None \<Rightarrow> sent = None \<and> t' = None
        | Some p \<Rightarrow> sent = Some (TransferPayload p, sa) \<and> t' = Some t"
      using ts PayloadTask a by (auto simp: task_step_def outcome_simps split: option.splits)
    note pm = payload_step_msg [OF _ _ ps, of client]
    have "\<exists>cur. h_clients h = [sa \<mapsto> client\<lparr>transfer_out := (transfer_out client)\<lparr>to_cursor := cur\<rparr>\<rparr>]"
      using pm(2) ref c(1,2) by auto
    then show ?thesis using pm(1,3) ref c(1,2) r by (auto split: option.splits)
  qed (use ct in \<open>simp_all add: client_task_def\<close>)
  then obtain cur where c': "h_blockdb h = ref"
    "h_clients h = [sa \<mapsto> client\<lparr>transfer_out := (transfer_out client)\<lparr>to_cursor := cur\<rparr>\<rparr>]"
    "t' = None \<or> t' = Some t" "\<forall>m a. sent = Some (m, a) \<longrightarrow> a = sa \<and> client_msg ref ?al m" by blast
  have "set (nd_tasks n') \<subseteq> set (nd_tasks n)"
    using c'(3) t n' by (auto dest: in_set_takeD in_set_dropD)
  then show "client_node_inv ref sa n'"
    unfolding n' using c(3,4) by (intro client_node_invI [OF c'(1,2)]) auto
  show "to_transfers (client_out sa n') = to_transfers (client_out sa n)"
    using c(5) c'(2) n' by (simp add: client_out_def)
  show "a = sa \<and> client_msg ref (to_transfers (client_out sa n)) m" if "sent = Some (m, a)"
    using that c'(4) unfolding c(5) by blast
qed

end
