(* ===== verification/Handler_Properties.thy ===== *)
theory Handler_Properties
  imports Sync_Client
begin

text \<open>
  The theorems about single operations and tasks of the handler of version 2: the payload loop sends
  what a status update asked for, a status update reports what is missing, block requests are
  idempotent, chunks of the sender's blocks keep the receiver's store true, and the panics a peer can
  cause.
\<close>

section \<open>The payload loop\<close>

text \<open>The loop of \<open>transfer_status\<close> run until it breaks.\<close>

fun payload_loop :: "nat \<Rightarrow> Handler \<Rightarrow> SocketAddr \<Rightarrow> (Handler \<times> TransferPayload list) res" where
  "payload_loop 0 h addr = Inl OutOfFuel"
| "payload_loop (Suc n) h addr =
     bindE (payload_step h addr) (\<lambda>(h1, r).
     case r of
       None \<Rightarrow> Inr (h1, [])
     | Some p \<Rightarrow> bindE (payload_loop n h1 addr) (\<lambda>(h2, ps). Inr (h2, p # ps)))"

definition todo_from :: "(nat \<times> nat) list \<Rightarrow> nat \<Rightarrow> nat set" where
  "todo_from todo m = {x \<in> covered todo. m \<le> x}"

lemma finite_todo_from [simp]: "finite (todo_from todo m)"
  by (simp add: todo_from_def)

lemma todo_from_Suc_Min:
  assumes "todo_from todo m \<noteq> {}"
  shows "todo_from todo (Min (todo_from todo m) + 1) = todo_from todo m - {Min (todo_from todo m)}"
proof -
  define c where "c = Min (todo_from todo m)"
  have "c \<in> todo_from todo m" and "x \<in> todo_from todo m \<Longrightarrow> c \<le> x" for x
    using assms by (auto simp: c_def)
  then show ?thesis unfolding c_def [symmetric] by (force simp: todo_from_def)
qed

lemma next_cursor_Min:
  assumes "ranges_ok todo"
  shows "next_cursor todo m = (if todo_from todo m = {} then None else Some (Min (todo_from todo m)))"
proof (cases "find (\<lambda>(f, t). m < t) todo")
  case None
  then have "todo_from todo m = {}" using find_range_None [OF None] by (fastforce simp: todo_from_def)
  then show ?thesis using None by (simp add: next_cursor_def)
next
  case (Some ft)
  obtain f t where ft: "ft = (f, t)" by (cases ft)
  then have mx: "max m f \<in> covered todo" "\<forall>i \<in> covered todo. m \<le> i \<longrightarrow> max m f \<le> i"
    using find_range_Some [OF assms, of m f t] Some by auto
  then have "max m f \<in> todo_from todo m" by (simp add: todo_from_def)
  moreover from this mx(2) have "Min (todo_from todo m) = max m f"
    by (intro Min_eqI) (auto simp: todo_from_def)
  ultimately show ?thesis using Some ft by (auto simp: next_cursor_def max.commute)
qed

text \<open>An id whose chunk can be sent: allocated to a complete block, without overflow.\<close>

definition chunk_at :: "Handler \<Rightarrow> TransferOut \<Rightarrow> nat \<Rightarrow> u8 list option" where
  "chunk_at h out c =
     (case find (\<lambda>(from, to, _). from \<le> c \<and> c < to) (to_transfers out) of
        None \<Rightarrow> None
      | Some (f, t, i) \<Rightarrow>
          if (c - f) * CHUNK_SIZE < 2 ^ 64
          then map_option (\<lambda>d. chunk_of CHUNK_SIZE d (c - f)) (full_at (h_blockdb h) i) else None)"

lemma chunk_at_cong:
  "to_transfers out = to_transfers out' \<Longrightarrow> h_blockdb h = h_blockdb h' \<Longrightarrow>
   chunk_at h out c = chunk_at h' out' c"
  by (simp only: chunk_at_def)

lemma payload_step_sends:
  assumes "h_clients h a = Some client" and "to_cursor (transfer_out client) = Some c"
    and "chunk_at h (transfer_out client) c = Some ds" and "c + 1 < 2 ^ 64"
  shows "payload_step h a = Inr (put_client h a (client\<lparr>transfer_out := (transfer_out client)
      \<lparr>to_cursor := next_cursor (to_todo (transfer_out client)) (c + 1)\<rparr>\<rparr>),
    Some \<lparr>tp_chunkid = c, tp_data = ds\<rparr>)"
proof -
  obtain f t i d where "find (\<lambda>(from, to, _). from \<le> c \<and> c < to) (to_transfers (transfer_out client)) = Some (f, t, i)"
    and "(c - f) * CHUNK_SIZE < 2 ^ 64" and "full_at (h_blockdb h) i = Some d"
    and "ds = chunk_of CHUNK_SIZE d (c - f)"
    using assms(3) by (auto simp: chunk_at_def split: option.splits if_splits)
  moreover from this have "f \<le> c" by (auto dest: find_SomeD)
  ultimately show ?thesis
    using assms(1,2,4)
    by (auto simp: payload_step_def get_client_def Let_def full_at_eq_Some BlockDb_get_def chunk_of_def)
qed

lemma payload_loop_from:
  assumes "h_clients h a = Some client" and "to_todo (transfer_out client) = todo" and "ranges_ok todo"
    and "to_cursor (transfer_out client) = next_cursor todo m"
    and "\<forall>c \<in> todo_from todo m. \<exists>ds. chunk_at h (transfer_out client) c = Some ds"
    and "card (todo_from todo m) < n"
  shows "\<exists>h' ps. payload_loop n h a = Inr (h', ps) \<and>
    map tp_chunkid ps = sorted_list_of_set (todo_from todo m) \<and>
    (\<forall>p \<in> set ps. chunk_at h (transfer_out client) (tp_chunkid p) = Some (tp_data p))"
  using assms
proof (induction n arbitrary: h client m)
  case 0
  then show ?case by simp
next
  case (Suc n)
  let ?S = "todo_from todo m"
  show ?case
  proof (cases "?S = {}")
    case True
    then have "payload_step h a = Inr (h, None)"
      using Suc.prems(1,4) next_cursor_Min [OF Suc.prems(3), of m]
      by (simp add: payload_step_def get_client_def Let_def)
    then show ?thesis using True by simp
  next
    case False
    let ?c = "Min ?S"
    have c: "?c \<in> ?S" using False by (intro Min_in) simp_all
    then obtain ds where ds: "chunk_at h (transfer_out client) ?c = Some ds" using Suc.prems(5) by blast
    have "?c + 1 < 2 ^ 64"
      using c Suc.prems(3) by (force simp: todo_from_def covered_def ranges_ok_def)
    note step = payload_step_sends [OF Suc.prems(1) _ ds this]
    let ?client = "client\<lparr>transfer_out := (transfer_out client)\<lparr>to_cursor := next_cursor todo (?c + 1)\<rparr>\<rparr>"
    let ?h = "put_client h a ?client"
    have S': "todo_from todo (?c + 1) = ?S - {?c}"
      by (rule todo_from_Suc_Min [OF False])
    have same: "chunk_at ?h (transfer_out ?client) x = chunk_at h (transfer_out client) x" for x
      by (intro chunk_at_cong) (simp_all add: put_client_def)
    have "card (todo_from todo (?c + 1)) < n"
      unfolding S' using Suc.prems(6) c False by (simp add: card_Diff_singleton card_gt_0_iff less_diff_conv2 Suc_le_eq)
    moreover have "\<forall>x \<in> todo_from todo (?c + 1). \<exists>ds. chunk_at ?h (transfer_out ?client) x = Some ds"
      using Suc.prems(5) S' same by auto
    ultimately obtain h' ps where rest: "payload_loop n ?h a = Inr (h', ps)"
      "map tp_chunkid ps = sorted_list_of_set (?S - {?c})"
      "\<forall>p \<in> set ps. chunk_at h (transfer_out client) (tp_chunkid p) = Some (tp_data p)"
      using Suc.IH [of ?h ?client "?c + 1"] Suc.prems(2,3) S' same by (auto simp: put_client_def)
    have "payload_step h a = Inr (?h, Some \<lparr>tp_chunkid = ?c, tp_data = ds\<rparr>)"
      using step Suc.prems(2,4) next_cursor_Min [OF Suc.prems(3), of m] False by simp
    then show ?thesis
      using rest ds sorted_list_of_set_nonempty [OF _ False]
      by (intro exI [of _ h'] exI [of _ "\<lparr>tp_chunkid = ?c, tp_data = ds\<rparr> # ps"]) simp
  qed
qed

text \<open>
  C15: After a status update on an idle transfer the payload loop sends exactly the chunks the update
  reports missing, each once and in increasing order, with the bytes of the block that owns the id,
  and then ends: with as many iterations as there are missing chunks, and one more.
\<close>

theorem payload_loop_sends_missing:
  assumes "h_clients h a = Some client" and "to_cursor (transfer_out client) = None"
    and "ranges_ok rs" and "rs \<noteq> []"
    and "\<forall>c \<in> covered rs. \<exists>ds. chunk_at h (transfer_out client) c = Some ds"
  shows "\<exists>h1 h2 ps. transfer_status h a \<lparr>missing_ranges = rs\<rparr> = Inr (h1, [PayloadTask a]) \<and>
    payload_loop (Suc (card (covered rs))) h1 a = Inr (h2, ps) \<and>
    map tp_chunkid ps = sorted_list_of_set (covered rs) \<and>
    (\<forall>p \<in> set ps. chunk_at h (transfer_out client) (tp_chunkid p) = Some (tp_data p))"
proof -
  obtain f t rs' where rs: "rs = (f, t) # rs'" using assms(4) by (cases rs) auto
  let ?client = "client\<lparr>transfer_out := (transfer_out client)\<lparr>to_cursor := Some f, to_todo := rs\<rparr>\<rparr>"
  let ?h = "put_client h a ?client"
  have ts: "transfer_status h a \<lparr>missing_ranges = rs\<rparr> = Inr (?h, [PayloadTask a])"
    using assms(1,2) rs by (simp add: transfer_status_def get_client_def Let_def)
  have "f < t" and "\<forall>x \<in> covered rs'. t \<le> x"
    using assms(3) rs by (auto simp: ranges_ok_Cons)
  then have low: "\<forall>x \<in> covered rs. f \<le> x"
    by (fastforce simp: rs mem_covered_Cons)
  then have all: "todo_from rs f = covered rs" by (auto simp: todo_from_def)
  have "Min (covered rs) = f" "covered rs \<noteq> {}"
    using low \<open>f < t\<close> rs by (auto intro!: Min_eqI simp: mem_covered_Cons)
  then have cur: "next_cursor rs f = Some f" using next_cursor_Min [OF assms(3), of f] all by simp
  have same: "chunk_at ?h (transfer_out ?client) x = chunk_at h (transfer_out client) x" for x
    by (intro chunk_at_cong) (simp_all add: put_client_def)
  have "\<exists>h' ps. payload_loop (Suc (card (covered rs))) ?h a = Inr (h', ps) \<and>
      map tp_chunkid ps = sorted_list_of_set (todo_from rs f) \<and>
      (\<forall>p \<in> set ps. chunk_at ?h (transfer_out ?client) (tp_chunkid p) = Some (tp_data p))"
    using assms(3,5) cur all same
    by (intro payload_loop_from) (auto simp: put_client_def)
  then show ?thesis using ts all same by auto
qed

section \<open>Status updates\<close>

text \<open>The flags a list of runs stands for, and the ids of the flags that are not set.\<close>

fun unroll :: "(bool \<times> nat) list \<Rightarrow> bool list" where
  "unroll [] = []"
| "unroll ((b, n) # gs) = replicate n b @ unroll gs"

definition missing_ids :: "nat \<Rightarrow> bool list \<Rightarrow> nat set" where
  "missing_ids start av = {x. start \<le> x \<and> x < start + length av \<and> \<not> av ! (x - start)}"

lemma missing_ids_append:
  "missing_ids start (replicate n b @ av) =
     (if b then {} else {start ..< start + n}) \<union> missing_ids (start + n) av"
  by (auto simp: missing_ids_def nth_append)

lemma unroll_group_runs [simp]: "unroll (group_runs bs) = bs"
  by (induction bs rule: group_runs.induct) (auto split: list.splits prod.splits)

lemma group_runs_pos: "\<forall>g \<in> set (group_runs bs). 0 < snd g"
  by (induction bs) (auto split: list.splits, fastforce+)

lemma missing_runs_ok:
  assumes "start + length (unroll gs) < 2 ^ 64" and "\<forall>g \<in> set gs. 0 < snd g"
  shows "\<exists>rs. missing_runs start gs = Inr rs \<and> covered rs = missing_ids start (unroll gs) \<and>
    (\<forall>(f, t) \<in> set rs. f < t)"
  using assms
proof (induction start gs rule: missing_runs.induct)
  case (1 start)
  then show ?case by (simp add: missing_ids_def)
next
  case (2 start b n gs)
  have add: "add64 start n = Inr (start + n)" using "2.prems"(1) by simp
  obtain rs where rs: "missing_runs (start + n) gs = Inr rs"
    "covered rs = missing_ids (start + n) (unroll gs)" "\<forall>(f, t) \<in> set rs. f < t"
    using "2.IH" [OF add] "2.prems" by (auto simp: add.assoc)
  then show ?case using add "2.prems"(2) by (auto simp: covered_Cons missing_ids_append)
qed

lemma covered_append [simp]: "covered (rs @ rs') = covered rs \<union> covered rs'"
  by (auto simp: covered_def)

lemma status_ranges_ok:
  assumes "\<forall>t \<in> set ts. \<exists>p. db_blocks db (tr_blockid t) = Some (Partial p) \<and>
    tr_start t + length (available p) < 2 ^ 64"
  shows "\<exists>rs. status_ranges db ts = Inr rs \<and>
    covered rs = (\<Union>t \<in> set ts. \<Union>p \<in> {p. db_blocks db (tr_blockid t) = Some (Partial p)}.
      missing_ids (tr_start t) (available p)) \<and>
    (\<forall>(f, t) \<in> set rs. f < t)"
  using assms
proof (induction ts)
  case Nil
  then show ?case by simp
next
  case (Cons t ts)
  then obtain p rs where p: "db_blocks db (tr_blockid t) = Some (Partial p)"
    "tr_start t + length (available p) < 2 ^ 64"
    and rest: "status_ranges db ts = Inr rs"
    "covered rs = (\<Union>t \<in> set ts. \<Union>p \<in> {p. db_blocks db (tr_blockid t) = Some (Partial p)}.
      missing_ids (tr_start t) (available p))" "\<forall>(f, t) \<in> set rs. f < t"
    by auto
  obtain rs1 where "missing_runs (tr_start t) (group_runs (available p)) = Inr rs1"
    "covered rs1 = missing_ids (tr_start t) (available p)" "\<forall>(f, t) \<in> set rs1. f < t"
    using missing_runs_ok [OF _ group_runs_pos, of "tr_start t" "available p"] p(2) by auto
  then show ?case
    using p(1) rest by (auto simp: BlockDb_get_def)
qed

text \<open>
  C16: When a signal is waiting in its channel, an iteration of the status loop takes it and sends one
  status update. Its ranges are not empty and cover exactly the chunk ids of the transfers in
  progress whose chunks have not been received.
\<close>

theorem status_reports_missing:
  assumes "0 < mp_queue (rt_mpsc (h_rt h) ch)" and "h_clients h a = Some client"
    and "\<forall>t \<in> set (ti_transfers (transfer_in client)).
      \<exists>p. db_blocks (h_blockdb h) (tr_blockid t) = Some (Partial p) \<and>
        tr_start t + length (available p) < 2 ^ 64"
  shows "\<exists>h' msg. status_step h ch a = Inr (h', Continue msg) \<and>
    mp_queue (rt_mpsc (h_rt h') ch) = mp_queue (rt_mpsc (h_rt h) ch) - 1 \<and>
    (\<forall>(f, t) \<in> set (missing_ranges msg). f < t) \<and>
    covered (missing_ranges msg) =
      {x. \<exists>t p. t \<in> set (ti_transfers (transfer_in client)) \<and>
        db_blocks (h_blockdb h) (tr_blockid t) = Some (Partial p) \<and>
        tr_start t \<le> x \<and> x < tr_start t + length (available p) \<and> \<not> available p ! (x - tr_start t)}"
proof -
  obtain rs where rs: "status_ranges (h_blockdb h) (ti_transfers (transfer_in client)) = Inr rs"
    "\<forall>(f, t) \<in> set rs. f < t"
    "covered rs = (\<Union>t \<in> set (ti_transfers (transfer_in client)).
      \<Union>p \<in> {p. db_blocks (h_blockdb h) (tr_blockid t) = Some (Partial p)}.
      missing_ids (tr_start t) (available p))"
    using status_ranges_ok [OF assms(3)] by blast
  have "status_step h ch a = Inr (h\<lparr>h_rt := (h_rt h)\<lparr>rt_mpsc := (rt_mpsc (h_rt h))
      (ch := (rt_mpsc (h_rt h) ch)\<lparr>mp_queue := mp_queue (rt_mpsc (h_rt h) ch) - 1\<rparr>)\<rparr>\<rparr>,
    Continue \<lparr>missing_ranges = rs\<rparr>)"
    using assms(1,2) rs(1) by (simp add: status_step_def Let_def)
  then show ?thesis
    using rs(2,3) by (auto simp: missing_ids_def)
qed

section \<open>Block requests\<close>

lemma find_append: "find P (xs @ ys) = (case find P xs of None \<Rightarrow> find P ys | Some x \<Rightarrow> Some x)"
  by (induction xs) auto

lemma allocate_transfer_again:
  "allocate_transfer bdb out i = Inr (t, out') \<Longrightarrow> allocate_transfer bdb out' i = Inr (t, out')"
  by (auto simp: allocate_transfer_def outcome_simps find_append Let_def split: option.splits)

text \<open>
  C19: A block request that is answered is answered again in the same way: a repeated request, as the
  retry task sends them, gets the same range of chunk ids and leaves the state as it is.
\<close>

theorem block_request_idempotent:
  assumes "block_request h a req = Inr (h1, ts)"
  shows "block_request h1 a req = Inr (h1, ts)"
proof -
  obtain client t out b where "h_clients h a = Some client"
    and al: "allocate_transfer (h_blockdb h) (transfer_out client) (br_blockid req) = Inr (t, out)"
    and "BlockDb_get (h_blockdb h) (br_blockid req) = Inr b"
    and h1: "h1 = put_client h a (client\<lparr>transfer_out := out\<rparr>)"
    and "ts = [SendTask (BlockRequestResponse \<lparr>bq_blockid = br_blockid req, bq_start_id = fst t,
      bq_end_id = fst (snd t), bq_len = Block_len b\<rparr>) a]"
    using assms by (auto simp: block_request_def get_client_def outcome_simps split: option.splits)
  then show ?thesis
    using allocate_transfer_again [OF al] by (simp add: block_request_def get_client_def put_client_def)
qed

section \<open>Payloads\<close>

lemma store_chunk_fits:
  assumes ok: "partial_ok d p" and i: "i * CHUNK_SIZE < length d" and "length d < 2 ^ 64"
  shows "\<exists>p'. store_chunk p i (chunk_of CHUNK_SIZE d i) = Inr p' \<and> available p' = (available p)[i := True]"
proof -
  have len: "length (chunk_of CHUNK_SIZE d i) = min CHUNK_SIZE (length d - i * CHUNK_SIZE)"
    by (simp add: length_chunk_of)
  have "i < length (available p)" and "length (partial_data p) = length d"
    using ok chunk_index_bound [OF i] by (simp_all add: partial_ok_def)
  then show ?thesis
    using i assms(3) len by (auto simp: store_chunk_def min_def)
qed

text \<open>
  C13: A chunk of the sender's block that arrives for a block in progress is stored and never lost:
  the operation does not panic, the receiver's store stays true to the sender's, the block is promoted
  exactly when this was the last chunk missing, and then it is the sender's block byte for byte.
\<close>

theorem chunk_transfer:
  assumes "db_inv ref db" and "full_at ref (tr_blockid t) = Some d"
    and "db_blocks db (tr_blockid t) = Some (Partial p)"
    and "tr_start t \<le> tp_chunkid c" and "(tp_chunkid c - tr_start t) * CHUNK_SIZE < length d"
    and "length d < 2 ^ 64"
    and "tp_data c = chunk_of CHUNK_SIZE d (tp_chunkid c - tr_start t)"
  shows "\<exists>db1 promoted db2. receive_chunk db t c = Inr db1 \<and>
    try_promote db1 (tr_blockid t) = Inr (promoted, db2) \<and> db_inv ref db2 \<and>
    (promoted \<longleftrightarrow>
      (\<forall>j < length (available p). j = tp_chunkid c - tr_start t \<or> available p ! j)) \<and>
    (promoted \<longrightarrow> full_at db2 (tr_blockid t) = Some d)"
proof -
  let ?i = "tp_chunkid c - tr_start t"
  have "partial_ok d p" using db_inv_Partial [OF assms(1,3)] assms(2) by auto
  then obtain p' where p': "store_chunk p ?i (tp_data c) = Inr p'" "available p' = (available p)[?i := True]"
    using store_chunk_fits [of d p ?i] assms(5-7) by auto
  let ?db = "db\<lparr>db_blocks := (db_blocks db)(tr_blockid t \<mapsto> Partial p')\<rparr>"
  have rc: "receive_chunk db t c = Inr ?db"
    using p' assms(3,4) by (simp add: receive_chunk_def BlockDb_get_mut_def Block_partial_mut_def)
  let ?all = "list_all id (available p')"
  obtain db2 where tp: "try_promote ?db (tr_blockid t) = Inr (?all, db2)"
    by (cases ?all) (auto simp: try_promote_def BlockDb_get_def)
  moreover have "?all \<longleftrightarrow> (\<forall>j < length (available p). j = ?i \<or> available p ! j)"
    unfolding p'(2) list_all_length by (simp, metis nth_list_update_eq nth_list_update_neq)
  moreover note try_promote_inv [OF receive_chunk_inv(1) [OF assms(1,2,7) rc] tp]
  ultimately show ?thesis using rc assms(2) by (intro exI conjI) auto
qed

text \<open>
  C33: A payload whose chunk id belongs to no transfer in progress ends the node: the promotion of a
  block removes its transfer, and a duplicate or late chunk of it then unwraps nothing.
\<close>

theorem late_payload_panics:
  assumes "h_clients h a = Some client" and "ti_status_tx (transfer_in client) = Some tx"
    and "mp_rx (rt_mpsc (h_rt h) tx)"
    and "\<forall>t \<in> set (ti_transfers (transfer_in client)).
      tp_chunkid chunk < tr_start t \<or> tr_end t \<le> tp_chunkid chunk"
  shows "transfer_payload E h a chunk = Inl (Panic UnwrapNone)"
proof -
  have "find (\<lambda>t. tr_start t \<le> tp_chunkid chunk \<and> tp_chunkid chunk < tr_end t)
      (ti_transfers (transfer_in client)) = None"
    using assms(4) by (force simp: find_None_iff)
  then show ?thesis
    using assms(1-3)
    by (simp add: transfer_payload_def get_client_def unbounded_send_def TransferIn_transfer_def Let_def)
qed

section \<open>One block of three bytes\<close>

text \<open>
  A sender with one complete block for a peer whose ids start at 5, and a receiver that was told of
  the block and has none of it.
\<close>

definition three_id :: BlockId where
  "three_id = replicate 32 7"

definition three_db :: "Block \<Rightarrow> BlockDb" where
  "three_db b = BlockDb_new (BlockRef_new three_id (replicate 16 1) []) [three_id \<mapsto> b]"

definition three_peer :: SocketAddr where
  "three_peer = ([127, 0, 0, 1], 21088)"

definition three_sender :: Handler where
  "three_sender =
     insert_client (Handler_new (False, []) 0 (three_db (Full \<lparr>full_id = three_id, full_data = [10, 20, 30]\<rparr>))
       Map.empty) three_peer 5"

definition three_out :: Client2 where
  "three_out = (Client2_default 5)\<lparr>transfer_out :=
     \<lparr>to_todo = [], to_cursor = None, to_transfers = [(5, 8, three_id)], to_transfer_cursor = 8\<rparr>\<rparr>"

definition three_partial :: Partial where
  "three_partial = \<lparr>partial_id = three_id, partial_data = [0, 0, 0], available = [False]\<rparr>"

definition three_transfer :: Transfer where
  "three_transfer = \<lparr>tr_blockid = three_id, tr_start = 5, tr_end = 8\<rparr>"

definition three_in :: Client2 where
  "three_in = (Client2_default 0)\<lparr>transfer_in := \<lparr>ti_transfers = [three_transfer], ti_status_tx = Some 0\<rparr>\<rparr>"

definition three_receiver :: Handler where
  "three_receiver =
     (put_client (Handler_new (False, []) 0 (three_db (Partial three_partial)) Map.empty) three_peer three_in)
       \<lparr>h_rt := \<lparr>rt_next = 1, rt_oneshot = (\<lambda>_. Closed),
                 rt_mpsc = (\<lambda>_. \<lparr>mp_queue = 1, mp_tx = True, mp_rx = True\<rparr>)\<rparr>\<rparr>"

lemmas three_defs = three_db_def three_sender_def three_out_def three_partial_def three_transfer_def
  three_in_def three_receiver_def insert_client_def put_client_def get_client_def drop_client_def
  Handler_new_def Client2_default_def TransferOut_default_def TransferIn_default_def BlockDb_new_def
  mpsc_drop_tx_def

lemma three_request:
  "block_request three_sender three_peer \<lparr>br_blockid = three_id\<rparr> =
   Inr (put_client three_sender three_peer three_out,
     [SendTask (BlockRequestResponse \<lparr>bq_blockid = three_id, bq_start_id = 5, bq_end_id = 8, bq_len = 3\<rparr>)
        three_peer])"
  by (simp add: three_defs block_request_def allocate_transfer_def BlockDb_get_def Block_len_def Let_def)

theorem block_request_idempotent_witness:
  "block_request (put_client three_sender three_peer three_out) three_peer \<lparr>br_blockid = three_id\<rparr> =
   Inr (put_client three_sender three_peer three_out,
     [SendTask (BlockRequestResponse \<lparr>bq_blockid = three_id, bq_start_id = 5, bq_end_id = 8, bq_len = 3\<rparr>)
        three_peer])"
  by (rule block_request_idempotent [OF three_request])

lemma three_chunk: "chunk_at (put_client three_sender three_peer three_out) (transfer_out three_out) 5 = Some [10, 20, 30]"
  by (simp add: chunk_at_def three_defs full_at_def chunk_of_def CHUNK_SIZE_def)

theorem payload_loop_sends_missing_witness:
  "\<exists>h1 h2 ps. transfer_status (put_client three_sender three_peer three_out) three_peer
      \<lparr>missing_ranges = [(5, 6)]\<rparr> = Inr (h1, [PayloadTask three_peer]) \<and>
    payload_loop (Suc 1) h1 three_peer = Inr (h2, ps) \<and> map tp_chunkid ps = [5] \<and>
    (\<forall>p \<in> set ps. chunk_at (put_client three_sender three_peer three_out) (transfer_out three_out)
      (tp_chunkid p) = Some (tp_data p))"
proof -
  have c: "covered [(5, 6)] = {5}" by (auto simp: covered_def)
  have "h_clients (put_client three_sender three_peer three_out) three_peer = Some three_out"
    by (simp add: put_client_def)
  from payload_loop_sends_missing [OF this, of "[(5, 6)]"] show ?thesis
    using three_chunk by (simp add: c three_out_def ranges_ok_def del: payload_loop.simps)
qed

theorem status_reports_missing_witness:
  "\<exists>h' msg. status_step three_receiver 0 three_peer = Inr (h', Continue msg) \<and>
    mp_queue (rt_mpsc (h_rt h') 0) = 0 \<and> covered (missing_ranges msg) = {5}"
proof -
  have cl: "h_clients three_receiver three_peer = Some three_in"
    and q: "0 < mp_queue (rt_mpsc (h_rt three_receiver) 0)" "mp_queue (rt_mpsc (h_rt three_receiver) 0) = 1"
    and ts: "ti_transfers (transfer_in three_in) = [three_transfer]"
    and b: "db_blocks (h_blockdb three_receiver) (tr_blockid three_transfer) = Some (Partial three_partial)"
    and n: "length (available three_partial) = 1" "tr_start three_transfer = 5" "\<not> available three_partial ! 0"
    by (simp_all add: three_defs)
  have "{x. 5 \<le> x \<and> x < 6 \<and> \<not> available three_partial ! (x - 5)} = {5::nat}"
    using n by (auto simp: less_Suc_eq numeral_eq_Suc)
  then show ?thesis using status_reports_missing [OF q(1) cl] q(2) ts b n(1,2) by auto
qed

theorem chunk_transfer_witness:
  "\<exists>db1 promoted db2.
    receive_chunk (h_blockdb three_receiver) three_transfer \<lparr>tp_chunkid = 5, tp_data = [10, 20, 30]\<rparr> = Inr db1 \<and>
    try_promote db1 three_id = Inr (promoted, db2) \<and> promoted \<and> full_at db2 three_id = Some [10, 20, 30]"
proof -
  have ref: "full_at (h_blockdb three_sender) (tr_blockid three_transfer) = Some [10, 20, 30]"
    and b: "db_blocks (h_blockdb three_receiver) (tr_blockid three_transfer) = Some (Partial three_partial)"
    and id: "tr_blockid three_transfer = three_id" "tr_start three_transfer = 5"
    and av: "available three_partial = [False]"
    by (simp_all add: three_defs full_at_def)
  have inv: "db_inv (h_blockdb three_sender) (h_blockdb three_receiver)"
    using ref by (auto simp: db_inv_def three_defs partial_ok_def CHUNK_SIZE_def)
  show ?thesis
    using chunk_transfer [OF inv ref b, of "\<lparr>tp_chunkid = 5, tp_data = [10, 20, 30]\<rparr>"] id av
    by (auto simp: chunk_of_def CHUNK_SIZE_def)
qed

theorem late_payload_panics_witness:
  "\<forall>E. transfer_payload E three_receiver three_peer \<lparr>tp_chunkid = 9, tp_data = [10, 20, 30]\<rparr> =
   Inl (Panic UnwrapNone)"
  by (intro allI, rule late_payload_panics [of _ _ three_in]) (simp_all add: three_defs)

end
