(* ===== verification/Traversal.thy ===== *)
theory Traversal
  imports Verify
begin

text \<open>
  Traversals of a store in which part of a tree has arrived. They never fail on it, since every block
  that is complete is readable; a search for a block finds it when all directories above it are there;
  and one more block makes only its own children reachable.
\<close>

section \<open>Reachable blocks\<close>

lemma reaches_snoc:
  assumes "reaches A db x (Directory, r)" and "get_decoded (Dir_from_full A) db (blockid r) (key r) = Inr d"
    and "c \<in> set (dir_children d)"
  shows "reaches A db x (child_type c, child_blockref c)"
  using assms
  by (induction x "(Directory, r)" rule: reaches.induct) (auto intro: reaches.intros)

lemma reaches_down:
  assumes "reaches A db x y" and "P x"
    and "\<And>r d c. P (Directory, r) \<Longrightarrow> get_decoded (Dir_from_full A) db (blockid r) (key r) = Inr d \<Longrightarrow>
      c \<in> set (dir_children d) \<Longrightarrow> P (child_type c, child_blockref c)"
  shows "P y"
  using assms by (induction rule: reaches.induct) auto

lemma reaches_mono:
  assumes "reaches A db x y" and "db_blocks db \<subseteq>\<^sub>m db_blocks db'"
  shows "reaches A db' x y"
  using assms(1)
proof (induction rule: reaches.induct)
  case (child r d c y)
  then show ?case using full_at_mono [OF child.hyps(1) assms(2)] by (blast intro: reaches.child)
qed (rule reaches.here)

text \<open>The node of a tree that is reached.\<close>

lemma holds_kids_child:
  "holds_kids A db kids cs \<Longrightarrow> c \<in> set cs \<Longrightarrow>
   \<exists>k \<in> set kids. holds A db (snd k) (child_type c) (child_blockref c)"
proof (induction kids arbitrary: cs)
  case (Cons k kids)
  obtain n t where k: "k = (n, t)" by (cases k)
  show ?case
  proof (cases "real_node t")
    case True
    then obtain c' cs' where cs: "cs = c' # cs'" "holds A db t (child_type c') (child_blockref c')"
      "holds_kids A db kids cs'" using Cons.prems(1) k by (cases cs) auto
    show ?thesis
    proof (cases "c = c'")
      case True
      then show ?thesis using cs k by auto
    next
      case False
      then show ?thesis using Cons.IH [OF cs(3)] Cons.prems(2) cs(1) by auto
    qed
  next
    case False
    then show ?thesis using Cons k by auto
  qed
qed simp

lemma kids_depth_child: "k \<in> set kids \<Longrightarrow> tree_depth (snd k) \<le> kids_depth kids"
  by (induction kids) (auto simp: le_max_iff_disj)

lemma holds_full: "holds A db t ty r \<Longrightarrow> \<exists>d. full_at db (blockid r) = Some d"
  by (cases t) (auto simp: get_decoded_def outcome_simps full_at_def)

lemma dir_agrees:
  assumes "agrees db ref" and "get_decoded (Dir_from_full A) db i k = Inr d"
    and "get_decoded (Dir_from_full A) ref i k = Inr d'"
  shows "d = d'"
proof -
  have "is_full db i" using assms(2) by (auto simp: get_decoded_def outcome_simps is_full_def)
  then have "get_decoded (Dir_from_full A) db i k = Inr d'"
    by (rule get_decoded_agrees [OF assms(1) _ assms(3)]) (simp add: Dir_from_full_def from_full_def)
  then show ?thesis using assms(2) by simp
qed

lemma reaches_tree:
  assumes "reaches A db x y" and "agrees db ref" and "holds A ref t (fst x) (snd x)"
  shows "reaches A ref x y \<and> (\<exists>t'. holds A ref t' (fst y) (snd y) \<and> tree_depth t' \<le> tree_depth t)"
  using assms(1,3)
proof (induction arbitrary: t rule: reaches.induct)
  case (here x)
  then show ?case by (auto intro: reaches.here)
next
  case (child r d c y)
  then obtain kids cs where t: "t = TDir kids"
    and cs: "get_decoded (Dir_from_full A) ref (blockid r) (key r) = Inr \<lparr>dir_children = cs\<rparr>" "holds_kids A ref kids cs"
    by (cases t) auto
  have d: "d = \<lparr>dir_children = cs\<rparr>" by (rule dir_agrees [OF assms(2) child.hyps(1) cs(1)])
  then have "c \<in> set cs" using child.hyps(2) by simp
  from holds_kids_child [OF cs(2) this] obtain k where
    k: "k \<in> set kids" "holds A ref (snd k) (child_type c) (child_blockref c)" ..
  define t' where "t' = snd k"
  have t': "holds A ref t' (child_type c) (child_blockref c)" and le: "tree_depth t' \<le> tree_depth t"
    using k kids_depth_child [OF k(1)] t by (simp_all add: t'_def)
  from child.IH [of t'] t' obtain t2 where
    "reaches A ref (child_type c, child_blockref c) y" "holds A ref t2 (fst y) (snd y)" "tree_depth t2 \<le> tree_depth t'"
    by auto
  then show ?case using reaches.child [OF cs(1), of c] child.hyps(2) d le by (auto intro: order_trans)
qed

section \<open>Reading what has arrived\<close>

lemma decode_arrived:
  assumes "holds A ref t ty r" and "agrees db ref" and "db_blocks db (blockid r) = Some (Full f)"
  shows "\<exists>dec. decode_as A ty f (key r) = Inr dec"
proof -
  have full: "is_full db (blockid r)" using assms(3) by (simp add: is_full_def)
  show ?thesis
  proof (cases t)
    case (TFile d)
    then have "get_decoded (Leaf_from_full A) ref (blockid r) (key r) = Inr \<lparr>leaf_data = d\<rparr>" using assms(1) by simp
    then have "get_decoded (Leaf_from_full A) db (blockid r) (key r) = Inr \<lparr>leaf_data = d\<rparr>"
      by (rule get_decoded_agrees [OF assms(2) full]) (simp add: Leaf_from_full_def from_full_def)
    then show ?thesis using TFile assms(1,3) by (simp add: get_decoded_def BlockDb_get_def decode_as_def)
  next
    case (TDir kids)
    then obtain cs where "get_decoded (Dir_from_full A) ref (blockid r) (key r) = Inr \<lparr>dir_children = cs\<rparr>"
      using assms(1) by auto
    then have "get_decoded (Dir_from_full A) db (blockid r) (key r) = Inr \<lparr>dir_children = cs\<rparr>"
      by (rule get_decoded_agrees [OF assms(2) full]) (simp add: Dir_from_full_def from_full_def)
    then show ?thesis using TDir assms(1,3) by (simp add: get_decoded_def BlockDb_get_def decode_as_def)
  qed (use assms(1) in simp_all)
qed

lemma traverse_total:
  shows "holds A ref t ty r \<Longrightarrow> agrees db ref \<Longrightarrow> tree_depth t \<le> fuel \<Longrightarrow>
      db_blocks db (blockid r) = Some (Full f) \<Longrightarrow> decode_as A ty f (key r) = Inr dec \<Longrightarrow>
      \<exists>x. traverse_rec A fuel db path r dec v = Inr x"
    and "holds_kids A ref kids cs \<Longrightarrow> agrees db ref \<Longrightarrow> Suc (kids_depth kids) \<le> fuel \<Longrightarrow>
      \<exists>x. traverse_children A fuel db path bref cs v = Inr x"
proof (induction A ref t ty r and A ref kids cs arbitrary: fuel path f dec and fuel path bref
    rule: holds_holds_kids.induct)
  case (1 A ref d ty r)
  then obtain l where "dec = Decoded.Leaf l" by (auto simp: decode_as_def outcome_simps)
  then show ?case using 1 by (simp add: traverse_rec.simps contains_def BlockDb_get_def)
next
  case (2 A ref kids ty r)
  then obtain cs where ty: "ty = Directory"
    and cs: "get_decoded (Dir_from_full A) ref (blockid r) (key r) = Inr \<lparr>dir_children = cs\<rparr>" "holds_kids A ref kids cs"
    by auto
  obtain dir where dir: "dec = Decoded.Dir dir" "get_decoded (Dir_from_full A) db (blockid r) (key r) = Inr dir"
    using decode_as_dir [of A f "key r" dec db "blockid r"] "2.prems"(4,5) ty by blast
  have "dir = \<lparr>dir_children = cs\<rparr>" by (rule dir_agrees [OF "2.prems"(2) dir(2) cs(1)])
  then obtain x where "traverse_children A fuel db path r (dir_children dir) v = Inr x"
    using "2.IH" [OF cs(2) "2.prems"(2), of fuel path r] "2.prems"(3) by auto
  then show ?case
    using "2.prems"(4) dir(1) by (auto simp: traverse_rec.simps contains_def BlockDb_get_def split: option.split)
next
  case (5 A ref cs)
  then show ?case by (simp add: traverse_children.simps)
next
  case (6 A ref n t kids cs)
  show ?case
  proof (cases "real_node t")
    case False
    then show ?thesis using 6 by simp
  next
    case True
    then obtain c cs' where cs: "cs = c # cs'" "holds A ref t (child_type c) (child_blockref c)" "holds_kids A ref kids cs'"
      using "6.prems"(1) by (cases cs) auto
    obtain x where rest: "traverse_children A fuel db path bref cs' v = Inr x"
      using "6.IH"(2) [OF True cs(1) cs(3) "6.prems"(2), of fuel path bref] "6.prems"(3)
      by (metis Suc_le_mono kids_depth.simps(2) max.bounded_iff order_trans max.cobounded2)
    obtain g where g: "fuel = Suc g" "tree_depth t \<le> g" using "6.prems"(3) by (cases fuel) auto
    show ?thesis
    proof (cases "db_blocks db (blockid (child_blockref c))")
      case None
      then show ?thesis
        using rest by (auto simp: cs(1) traverse_children.simps(2) contains_def Let_def split: option.split)
    next
      case (Some b)
      show ?thesis
      proof (cases b)
        case (Partial p)
        then show ?thesis
          using rest Some
          by (auto simp: cs(1) traverse_children.simps(2) contains_def BlockDb_get_def Let_def split: option.split)
      next
        case (Full f)
        obtain dec where dec: "decode_as A (child_type c) f (key (child_blockref c)) = Inr dec"
          using decode_arrived [OF cs(2) "6.prems"(2)] Some Full by blast
        obtain y where "traverse_rec A g db (path_join path (Path_new (child_name c))) (child_blockref c) dec v = Inr y"
          using "6.IH"(1) [OF True cs(1) cs(2) "6.prems"(2) g(2) _ dec] Some Full by blast
        then show ?thesis
          using rest Some Full dec g(1)
          by (auto simp: cs(1) traverse_children.simps(2) contains_def BlockDb_get_def Let_def split: option.split)
      qed
    qed
  qed
qed auto

lemma traverse_returns:
  assumes "holds A ref t Directory root" and "agrees db ref" and "tree_depth t \<le> fuel"
    and "is_full db (blockid root)"
  shows "\<exists>x. traverse A fuel db root v = Inr x"
proof -
  obtain f where f: "db_blocks db (blockid root) = Some (Full f)" using assms(4) by (auto simp: is_full_def)
  obtain dec where dec: "decode_as A Directory f (key root) = Inr dec" using decode_arrived [OF assms(1,2) f] by blast
  then obtain dir where dir: "dec = Decoded.Dir dir" "unwrap_opt UnwrapErr (Dir_from_full A f (key root)) = Inr dir"
    by (auto simp: decode_as_def outcome_simps)
  obtain x where "traverse_rec A fuel db (False, []) root dec v = Inr x"
    using traverse_total(1) [OF assms(1-3) f dec] by blast
  then show ?thesis
    using f dir by (auto simp: traverse_def BlockDb_get_def Let_def split: option.split)
qed

lemma verify_returns:
  assumes "holds A ref t Directory root" and "agrees db ref" and "tree_depth t \<le> fuel"
    and "is_full db (blockid root)" and "traverse_root db pending = Inr root"
  shows "verify A fuel db pending = Inr (all_full A db Directory root)"
proof -
  obtain x where "traverse A fuel db root VerifyVisitor = Inr x" using traverse_returns [OF assms(1-4)] by blast
  then have "verify A fuel db pending = Inr (x = None)" using assms(5) by (simp add: verify_def)
  then show ?thesis using verify_all_full [OF _ assms(5)] by auto
qed

lemma verify_no_root:
  assumes "\<not> is_full db (blockid root)" and "traverse_root db pending = Inr root"
  shows "\<exists>p. verify A fuel db pending = Inl (Panic p)"
  using assms
  by (cases "db_blocks db (blockid root)")
    (auto simp: verify_def traverse_def BlockDb_get_def Block_full_def is_full_def split: Block.split)

section \<open>The search for a block\<close>

text \<open>What a search may answer: a readable node with that id below the start, or that there is none.\<close>

definition found_at :: "frontend_api \<Rightarrow> BlockDb \<Rightarrow> BlockType \<times> BlockRef \<Rightarrow> BlockId \<Rightarrow> Decoded \<Rightarrow> bool" where
  "found_at A db x i dec \<longleftrightarrow> (\<exists>ty r f. reaches A db x (ty, r) \<and> blockid r = i \<and>
     db_blocks db i = Some (Full f) \<and> decode_as A ty f (key r) = Inr dec)"

definition search_ok ::
    "frontend_api \<Rightarrow> BlockDb \<Rightarrow> (BlockType \<times> BlockRef) set \<Rightarrow> BlockId \<Rightarrow> Decoded option \<Rightarrow> bool" where
  "search_ok A db xs i res \<longleftrightarrow>
     (case res of
        Some dec \<Rightarrow> \<exists>x \<in> xs. found_at A db x i dec
      | None \<Rightarrow> \<forall>x \<in> xs. \<forall>ty r. reaches A db x (ty, r) \<longrightarrow> blockid r = i \<longrightarrow> \<not> is_full db i)"

lemma ResolveBlockVisitor_simps [simp]:
  "visit_dir (ResolveBlockVisitor i) p f d = (if full_id f = i then Some (Decoded.Dir d) else None)"
  "visit_meta (ResolveBlockVisitor i) db p f m = (if full_id f = i then Some (Decoded.Meta m) else None)"
  "visit_leaf (ResolveBlockVisitor i) p f l = (if full_id f = i then Some (Decoded.Leaf l) else None)"
  "visit_partial (ResolveBlockVisitor i) p q = None" "visit_missing (ResolveBlockVisitor i) p j = None"
  by (simp_all add: ResolveBlockVisitor_def)

lemma search_ok_leaf:
  assumes "ty \<noteq> Directory" and "db_blocks db (blockid r) = Some (Full f)" and "decode_as A ty f (key r) = Inr dec"
  shows "search_ok A db {(ty, r)} i (if blockid r = i then Some dec else None)"
proof (cases "blockid r = i")
  case True
  then have "found_at A db (ty, r) i dec" using assms reaches.here unfolding found_at_def by blast
  then show ?thesis using True by (simp add: search_ok_def)
next
  case False
  then show ?thesis using assms(1) by (auto simp: search_ok_def elim: reachesE)
qed

lemma search_ok_dir:
  assumes "db_blocks db (blockid r) = Some (Full f)" and "decode_as A Directory f (key r) = Inr (Decoded.Dir d)"
    and "blockid r \<noteq> i \<Longrightarrow> search_ok A db ((\<lambda>c. (child_type c, child_blockref c)) ` set (dir_children d)) i res"
    and "blockid r = i \<Longrightarrow> res = Some (Decoded.Dir d)"
  shows "search_ok A db {(Directory, r)} i res"
proof (cases "blockid r = i")
  case True
  then have "found_at A db (Directory, r) i (Decoded.Dir d)"
    using assms(1,2) reaches.here unfolding found_at_def by blast
  then show ?thesis using True assms(4) by (simp add: search_ok_def)
next
  case False
  have dir: "get_decoded (Dir_from_full A) db (blockid r) (key r) = Inr d"
    using decode_as_dir [OF assms(2,1)] by simp
  note down = assms(3) [OF False]
  show ?thesis
  proof (cases res)
    case (Some dec)
    then obtain c where "c \<in> set (dir_children d)" "found_at A db (child_type c, child_blockref c) i dec"
      using down by (auto simp: search_ok_def)
    then have "found_at A db (Directory, r) i dec"
      using reaches.child [OF dir] unfolding found_at_def by blast
    then show ?thesis using Some by (simp add: search_ok_def)
  next
    case None
    have "\<not> is_full db i" if y: "reaches A db (Directory, r) (ty', r')" "blockid r' = i" for ty' r'
      using y(1)
    proof cases
      case here
      then show ?thesis using False y(2) by simp
    next
      case (child d' c)
      then have "c \<in> set (dir_children d)" using dir by simp
      then show ?thesis using down None child y(2) by (auto simp: search_ok_def)
    qed
    then show ?thesis using None by (simp add: search_ok_def)
  qed
qed

lemma search_ok_insert:
  assumes "search_ok A db {x} i res"
  shows "res \<noteq> None \<Longrightarrow> search_ok A db (insert x xs) i res"
    and "res = None \<Longrightarrow> search_ok A db xs i res' \<Longrightarrow> search_ok A db (insert x xs) i res'"
  using assms by (auto simp: search_ok_def split: option.splits)

lemma search_ok_absent:
  assumes "\<not> is_full db (blockid r)" and "search_ok A db xs i res"
  shows "search_ok A db (insert (ty, r) xs) i res"
proof (rule search_ok_insert(2) [OF _ refl assms(2)])
  have "\<not> is_full db i" if "reaches A db (ty, r) (ty', r')" "blockid r' = i" for ty' r'
    using that(1)
  proof cases
    case here
    then show ?thesis using assms(1) that(2) by simp
  next
    case (child d c)
    then show ?thesis using assms(1) by (auto simp: get_decoded_def outcome_simps is_full_def)
  qed
  then show "search_ok A db {(ty, r)} i None" by (simp add: search_ok_def)
qed

lemma traverse_search:
  shows "traverse_rec A fuel db path bref dec v = Inr x \<Longrightarrow> v = ResolveBlockVisitor i \<Longrightarrow> db_wf db \<Longrightarrow>
      db_blocks db (blockid bref) = Some (Full f) \<Longrightarrow> decode_as A ty f (key bref) = Inr dec \<Longrightarrow>
      search_ok A db {(ty, bref)} i x"
    and "traverse_children A fuel db path bref cs v = Inr x \<Longrightarrow> v = ResolveBlockVisitor i \<Longrightarrow> db_wf db \<Longrightarrow>
      search_ok A db ((\<lambda>c. (child_type c, child_blockref c)) ` set cs) i x"
proof (induction A fuel db path bref dec v and A fuel db path bref cs v arbitrary: f ty x and x
    rule: traverse_rec_traverse_children.induct)
  case (1 A fuel db path bref dec v)
  have fid: "full_id f = blockid bref" using "1.prems"(3,4) by (force simp: db_wf_def)
  have has: "contains db (blockid bref)" "BlockDb_get db (blockid bref) = Inr (Full f)"
    using "1.prems"(4) by (simp_all add: contains_def BlockDb_get_def)
  show ?case
  proof (cases dec)
    case (Dir dir)
    then have ty: "ty = Directory" using decode_as_other [OF "1.prems"(5)] by blast
    show ?thesis
      unfolding ty
    proof (rule search_ok_dir [OF "1.prems"(4)])
      show "decode_as A Directory f (key bref) = Inr (Decoded.Dir dir)" using "1.prems"(5) ty Dir by simp
      show "search_ok A db ((\<lambda>c. (child_type c, child_blockref c)) ` set (dir_children dir)) i x"
        if "blockid bref \<noteq> i"
        using "1.IH" [OF _ has(2) refl Dir] "1.prems"(1-3) has fid Dir that by (simp add: traverse_rec.simps)
      show "x = Some (Decoded.Dir dir)" if "blockid bref = i"
        using "1.prems"(1,2) has fid Dir that by (simp add: traverse_rec.simps)
    qed
  next
    case (Meta m)
    moreover from this have "ty \<noteq> Directory" using "1.prems"(5) by (auto simp: decode_as_def outcome_simps)
    ultimately show ?thesis
      using search_ok_leaf [OF _ "1.prems"(4,5), of i] "1.prems"(1,2) has fid
      by (auto simp: traverse_rec.simps split: if_splits)
  next
    case (Leaf l)
    moreover from this have "ty \<noteq> Directory" using "1.prems"(5) by (auto simp: decode_as_def outcome_simps)
    ultimately show ?thesis
      using search_ok_leaf [OF _ "1.prems"(4,5), of i] "1.prems"(1,2) has fid
      by (auto simp: traverse_rec.simps split: if_splits)
  qed
next
  case (2 A fuel db path bref v)
  then show ?case by (simp add: traverse_children.simps search_ok_def)
next
  case (3 A fuel db path bref c cs v)
  let ?r = "child_blockref c"
  show ?case
  proof (cases "is_full db (blockid ?r)")
    case False
    then have "search_ok A db ((\<lambda>c. (child_type c, child_blockref c)) ` set cs) i x"
      using "3.prems" "3.IH"(1,2)
      by (cases "db_blocks db (blockid ?r)")
        (auto simp: traverse_children.simps(2) Let_def contains_def BlockDb_get_def is_full_def split: Block.splits)
    then show ?thesis using search_ok_absent [OF False] by simp
  next
    case True
    then obtain f where f: "db_blocks db (blockid ?r) = Some (Full f)" by (auto simp: is_full_def)
    have has: "contains db (blockid ?r)" "BlockDb_get db (blockid ?r) = Inr (Full f)"
      using f by (simp_all add: contains_def BlockDb_get_def)
    obtain g where g: "fuel = Suc g"
      using "3.prems"(1) has by (cases fuel) (auto simp: traverse_children.simps(2) Let_def outcome_simps)
    obtain dec found where dec: "decode_as A (child_type c) f (key ?r) = Inr dec"
      "traverse_rec A g db (path_join path (Path_new (child_name c))) ?r dec v = Inr found"
      "found = None \<Longrightarrow> traverse_children A fuel db path bref cs v = Inr x"
      "found \<noteq> None \<Longrightarrow> x = found"
      using "3.prems"(1) has g
      by (auto simp: traverse_children.simps(2) Let_def outcome_simps split: option.splits)
    have found: "search_ok A db {(child_type c, ?r)} i found"
      using "3.IH"(3) [OF refl _ has(2) refl dec(1) g dec(2) "3.prems"(2,3) f dec(1)] has(1) by simp
    show ?thesis
    proof (cases found)
      case None
      then have "search_ok A db ((\<lambda>c. (child_type c, child_blockref c)) ` set cs) i x"
        using "3.IH"(4) [OF refl _ has(2) refl dec(1)] has(1) dec(2,3) g "3.prems"(2,3) by simp
      then show ?thesis using search_ok_insert(2) [OF found None] by simp
    next
      case (Some t)
      then show ?thesis using search_ok_insert(1) [OF found] dec(4) by simp
    qed
  qed
qed

section \<open>A tree that is arriving\<close>

text \<open>No two nodes of a tree share a block.\<close>

definition one_block_each :: "frontend_api \<Rightarrow> BlockDb \<Rightarrow> BlockRef \<Rightarrow> bool" where
  "one_block_each A ref root \<longleftrightarrow>
     (\<forall>x y. reaches A ref (Directory, root) x \<longrightarrow> reaches A ref (Directory, root) y \<longrightarrow>
        blockid (snd x) = blockid (snd y) \<longrightarrow> x = y)"

text \<open>The pending root and the store of a tree, of which some part has arrived.\<close>

definition arriving :: "frontend_api \<Rightarrow> nat \<Rightarrow> BlockDb \<Rightarrow> tree \<Rightarrow> BlockRef \<Rightarrow> BlockDb \<Rightarrow> bool" where
  "arriving A fuel ref t root db \<longleftrightarrow>
     holds A ref t Directory root \<and> tree_depth t \<le> fuel \<and> one_block_each A ref root \<and>
     agrees db ref \<and> db_wf db \<and> db_pending_root db = Some root \<and> is_full db (blockid root)"

lemma arriving_traverse:
  assumes "arriving A fuel ref t root db"
  shows "\<exists>x. traverse A fuel db root v = Inr x"
  using assms by (auto simp: arriving_def intro: traverse_returns)

lemma verify_arriving:
  assumes "arriving A fuel ref t root db"
  shows "verify A fuel db True = Inr (all_full A db Directory root)"
  using assms by (auto simp: arriving_def traverse_root_def pending_root_def intro: verify_returns)

lemma resolve_arriving:
  assumes arr: "arriving A fuel ref t root db" and r: "reaches A db (Directory, root) (ty, r)"
    and f: "db_blocks db (blockid r) = Some (Full f)" and dec: "decode_as A ty f (key r) = Inr dec"
  shows "resolve A fuel db (blockid r) True = Inr dec"
proof -
  have h: "holds A ref t (fst (Directory, root)) (snd (Directory, root))" "agrees db ref" "db_wf db"
    "one_block_each A ref root"
    using arr by (auto simp: arriving_def)
  obtain f0 where f0: "db_blocks db (blockid root) = Some (Full f0)"
    using arr by (auto simp: arriving_def is_full_def)
  obtain dir where dir: "decode_as A Directory f0 (key root) = Inr (Decoded.Dir dir)"
    "unwrap_opt UnwrapErr (Dir_from_full A f0 (key root)) = Inr dir"
    using decode_arrived [OF _ h(2) f0, of A t Directory] h(1) by (auto simp: decode_as_def outcome_simps)
  obtain x where x: "traverse A fuel db root (ResolveBlockVisitor (blockid r)) = Inr x"
    using arriving_traverse [OF arr] by blast
  have fid: "full_id f0 = blockid root" using h(3) f0 by (force simp: db_wf_def)
  have "search_ok A db {(Directory, root)} (blockid r) x"
  proof (cases "blockid root = blockid r")
    case True
    then have "x = Some (Decoded.Dir dir)"
      using x f0 dir(2) fid by (simp add: traverse_def BlockDb_get_def Let_def)
    then show ?thesis using True by (intro search_ok_dir [OF f0 dir(1)]) simp_all
  next
    case False
    then have "traverse_rec A fuel db (False, []) root (Decoded.Dir dir) (ResolveBlockVisitor (blockid r)) = Inr x"
      using x f0 dir(2) fid by (simp add: traverse_def BlockDb_get_def Let_def)
    from traverse_search(1) [OF this refl h(3) f0 dir(1)] show ?thesis .
  qed
  moreover have "is_full db (blockid r)" using f by (simp add: is_full_def)
  ultimately obtain dec' where x': "x = Some dec'" and found: "found_at A db (Directory, root) (blockid r) dec'"
    using r by (cases x) (auto simp: search_ok_def)
  then obtain ty' r' where r': "reaches A db (Directory, root) (ty', r')" "blockid r' = blockid r"
    "decode_as A ty' f (key r') = Inr dec'"
    using f by (auto simp: found_at_def)
  have "(ty', r') = (ty, r)"
    using reaches_tree [OF r h(2,1)] reaches_tree [OF r'(1) h(2,1)] r'(2) h(4) unfolding one_block_each_def by force
  then have "dec' = dec" using r'(3) dec by simp
  moreover have "traverse_root db True = Inr root" using arr by (simp add: arriving_def traverse_root_def pending_root_def)
  ultimately show ?thesis using x x' by (simp add: resolve_def unwrap_opt_def)
qed

text \<open>One more block: what is reachable then was reachable before or is a child of the new block.\<close>

lemma reaches_new_block:
  assumes arr: "agrees db' ref" "holds A ref t Directory root" "one_block_each A ref root"
    and same: "\<And>j. j \<noteq> i \<Longrightarrow> db_blocks db' j = db_blocks db j" and i: "db_blocks db \<subseteq>\<^sub>m db_blocks db'"
    and seen: "\<And>j. full_at ref j \<noteq> None \<Longrightarrow> is_full db j \<or> j = i \<Longrightarrow>
      \<exists>ty r. reaches A db (Directory, root) (ty, r) \<and> blockid r = j"
    and y: "reaches A db' (Directory, root) y"
  shows "reaches A db (Directory, root) y \<or>
    (\<exists>r d c. reaches A db (Directory, root) (Directory, r) \<and> blockid r = i \<and>
       get_decoded (Dir_from_full A) db' i (key r) = Inr d \<and> c \<in> set (dir_children d) \<and>
       y = (child_type c, child_blockref c))"
    (is "?P y")
proof -
  have h: "holds A ref t (fst (Directory, root)) (snd (Directory, root))" using arr(2) by simp
  have "?P y \<and> reaches A db' (Directory, root) y"
    using y
  proof (rule reaches_down [where P = "\<lambda>y. ?P y \<and> reaches A db' (Directory, root) y"])
    show "?P (Directory, root) \<and> reaches A db' (Directory, root) (Directory, root)" by (simp add: reaches.here)
  next
    fix r d c
    assume P: "?P (Directory, r) \<and> reaches A db' (Directory, root) (Directory, r)"
      and d: "get_decoded (Dir_from_full A) db' (blockid r) (key r) = Inr d" and c: "c \<in> set (dir_children d)"
    have r': "reaches A db' (Directory, root) (Directory, r)" using P by simp
    note tree = reaches_tree [OF r' arr(1) h]
    have full': "is_full db' (blockid r)" using d by (auto simp: get_decoded_def outcome_simps is_full_def)
    then have "is_full db (blockid r) \<or> blockid r = i" using same by (auto simp: is_full_def)
    moreover have "full_at ref (blockid r) \<noteq> None" using tree holds_full by fastforce
    ultimately obtain ty2 r2 where r2: "reaches A db (Directory, root) (ty2, r2)" "blockid r2 = blockid r"
      using seen by blast
    have "reaches A ref (Directory, root) (ty2, r2)"
      using reaches_tree [OF reaches_mono [OF r2(1) i] arr(1) h] by simp
    then have "(ty2, r2) = (Directory, r)" using tree r2(2) arr(3) unfolding one_block_each_def by force
    then have here: "reaches A db (Directory, root) (Directory, r)" using r2(1) by simp
    have "?P (child_type c, child_blockref c)"
    proof (cases "blockid r = i")
      case True
      then show ?thesis using here d c by blast
    next
      case False
      then have "get_decoded (Dir_from_full A) db (blockid r) (key r) = Inr d"
        using d same by (simp add: get_decoded_def BlockDb_get_def)
      then show ?thesis using reaches_snoc [OF here _ c] by blast
    qed
    then show "?P (child_type c, child_blockref c) \<and> reaches A db' (Directory, root) (child_type c, child_blockref c)"
      using reaches_snoc [OF r' d c] by blast
  qed
  then show ?thesis by blast
qed

end
