(* ===== verification/Block_Transfer.thy ===== *)
theory Block_Transfer
  imports Handler_Properties Traversal
begin

text \<open>
  The transfer of one block between two handlers of version 2 in the order it takes when nothing gets
  lost: request, answer, status update, chunks, promotion. Each lemma says what one operation does in
  the state the one before leaves.
\<close>

section \<open>Chunks of a block\<close>

definition nchunks :: "u8 list \<Rightarrow> nat" where
  "nchunks d = (length d + CHUNK_SIZE - 1) div CHUNK_SIZE"

lemma nchunks_less: "k < nchunks d \<longleftrightarrow> k * CHUNK_SIZE < length d"
proof
  assume "k < nchunks d"
  then have "Suc k * CHUNK_SIZE \<le> length d + CHUNK_SIZE - 1"
    by (simp only: nchunks_def Suc_le_eq [symmetric] less_eq_div_iff_mult_less_eq [OF CHUNK_SIZE_pos])
  then show "k * CHUNK_SIZE < length d" by (simp add: CHUNK_SIZE_def)
next
  assume "k * CHUNK_SIZE < length d"
  then show "k < nchunks d" unfolding nchunks_def by (rule chunk_index_bound)
qed

lemma nchunks_le: "nchunks d \<le> length d"
proof -
  have "\<not> length d < nchunks d" unfolding nchunks_less by (simp add: CHUNK_SIZE_def)
  then show ?thesis by simp
qed

lemma nchunks_pos: "d \<noteq> [] \<Longrightarrow> 0 < nchunks d"
  unfolding nchunks_less by simp

text \<open>A partial block of which the first chunks have arrived.\<close>

definition first_chunks :: "BlockId \<Rightarrow> u8 list \<Rightarrow> nat \<Rightarrow> Partial \<Rightarrow> bool" where
  "first_chunks i d k p \<longleftrightarrow> partial_id p = i \<and> partial_ok d p \<and>
     available p = replicate k True @ replicate (nchunks d - k) False"

lemma first_chunks_new:
  assumes "length d + CHUNK_SIZE < 2 ^ 64"
  shows "\<exists>p. Partial_new i (length d) = Inr p \<and> first_chunks i d 0 p"
proof -
  obtain p where p: "Partial_new i (length d) = Inr p" using assms by (simp add: Partial_new_def)
  then have "available p = replicate (nchunks d) False"
    by (auto simp: Partial_new_def outcome_simps nchunks_def)
  then show ?thesis using p Partial_new_ok [OF p] by (auto simp: first_chunks_def)
qed

lemma first_chunks_store:
  assumes "first_chunks i d k p" and "k < nchunks d" and "length d < 2 ^ 64"
  shows "\<exists>p'. store_chunk p k (chunk_of CHUNK_SIZE d k) = Inr p' \<and> first_chunks i d (Suc k) p'"
proof -
  have ok: "partial_ok d p" using assms(1) by (simp add: first_chunks_def)
  have "k * CHUNK_SIZE < length d" using assms(2) by (simp add: nchunks_less)
  then obtain p' where p': "store_chunk p k (chunk_of CHUNK_SIZE d k) = Inr p'" "available p' = (available p)[k := True]"
    using store_chunk_fits [OF ok _ assms(3)] by blast
  have "(replicate k True @ replicate (nchunks d - k) False)[k := True]
      = replicate (Suc k) True @ replicate (nchunks d - Suc k) False"
    using assms(2)
    by (simp add: list_update_append replicate_append_same [symmetric] Suc_diff_Suc [symmetric]
        del: replicate_Suc) (simp add: replicate_append_same)
  then have "first_chunks i d (Suc k) p'"
    using assms(1) p'(2) store_chunk_ok [OF ok p'(1)] by (simp add: first_chunks_def)
  then show ?thesis using p'(1) by blast
qed

lemma first_chunks_all:
  assumes "first_chunks i d k p" and "k \<le> nchunks d"
  shows "list_all id (available p) \<longleftrightarrow> k = nchunks d"
proof -
  have av: "available p = replicate k True @ replicate (nchunks d - k) False"
    using assms(1) by (simp add: first_chunks_def)
  show ?thesis
  proof (cases "k = nchunks d")
    case True
    then show ?thesis by (simp add: av list_all_iff)
  next
    case False
    then have "False \<in> set (available p)" using assms(2) by (simp add: av)
    then show ?thesis using False by (auto simp: list_all_iff)
  qed
qed

section \<open>The receiver\<close>

text \<open>A peer with one transfer in progress, and what the store has of its block.\<close>

definition receiving :: "Handler \<Rightarrow> SocketAddr \<Rightarrow> Client2 \<Rightarrow> BlockId \<Rightarrow> nat \<Rightarrow> u8 list \<Rightarrow> nat \<Rightarrow> bool" where
  "receiving h a cl i f d k \<longleftrightarrow>
     h_clients h a = Some cl \<and>
     ti_transfers (transfer_in cl) = [\<lparr>tr_blockid = i, tr_start = f, tr_end = f + length d\<rparr>] \<and>
     (\<exists>tx. ti_status_tx (transfer_in cl) = Some tx \<and> mp_rx (rt_mpsc (h_rt h) tx)) \<and>
     (\<exists>p. db_blocks (h_blockdb h) i = Some (Partial p) \<and> first_chunks i d k p)"

lemma response_accepted:
  assumes cl: "h_clients h a = Some cl" "ti_transfers (transfer_in cl) = []"
    and ch: "pending_block_requests cl i = Some ch" "rt_oneshot (h_rt h) ch = Waiting"
    and new: "db_blocks (h_blockdb h) i = None" and len: "length d + CHUNK_SIZE < 2 ^ 64"
  shows "\<exists>h' tx cl' b. block_request_response h a
      \<lparr>bq_blockid = i, bq_start_id = f, bq_end_id = f + length d, bq_len = length d\<rparr> = Inr (h', [StatusTask tx a]) \<and>
    receiving h' a cl' i f d 0 \<and> 0 < mp_queue (rt_mpsc (h_rt h') tx) \<and>
    h_blockdb h' = (h_blockdb h)\<lparr>db_blocks := (db_blocks (h_blockdb h))(i \<mapsto> b)\<rparr> \<and>
    pending_block_requests cl' = (pending_block_requests cl)(i := None)"
proof -
  obtain p where p: "Partial_new i (length d) = Inr p" "first_chunks i d 0 p" using first_chunks_new [OF len] by blast
  then have "partial_id p = i" by (simp add: first_chunks_def)
  then show ?thesis
    using cl ch new p
    by (auto simp: block_request_response_def get_client_def oneshot_send_def mpsc_unbounded_def unbounded_send_def
        receiving_def put_client_def BlockDb_add_def Let_def)
qed

lemma group_runs_replicate: "0 < n \<Longrightarrow> group_runs (replicate n b) = [(b, n)]"
proof (induction n)
  case (Suc n)
  then show ?case by (cases n) auto
qed simp

lemma status_of_new_block:
  assumes "receiving h a cl i f d 0" and "d \<noteq> []" and "f + length d < 2 ^ 64"
    and "0 < mp_queue (rt_mpsc (h_rt h) ch)"
  shows "\<exists>rt. status_step h ch a = Inr (h\<lparr>h_rt := rt\<rparr>, Continue \<lparr>missing_ranges = [(f, f + nchunks d)]\<rparr>) \<and>
    (\<forall>c. mp_rx (rt_mpsc rt c) = mp_rx (rt_mpsc (h_rt h) c))"
proof -
  obtain p where p: "db_blocks (h_blockdb h) i = Some (Partial p)" "first_chunks i d 0 p"
    and cl: "h_clients h a = Some cl"
      "ti_transfers (transfer_in cl) = [\<lparr>tr_blockid = i, tr_start = f, tr_end = f + length d\<rparr>]"
    using assms(1) by (auto simp: receiving_def)
  have "group_runs (available p) = [(False, nchunks d)]"
    using p(2) group_runs_replicate [OF nchunks_pos [OF assms(2)]] by (simp add: first_chunks_def)
  moreover have "f + nchunks d < 2 ^ 64" using nchunks_le [of d] assms(3) by simp
  ultimately have "status_ranges (h_blockdb h) (ti_transfers (transfer_in cl)) = Inr [(f, f + nchunks d)]"
    using p(1) cl(2) by (simp add: BlockDb_get_def)
  then have "status_step h ch a = Inr (h\<lparr>h_rt := (h_rt h)\<lparr>rt_mpsc := (rt_mpsc (h_rt h))
      (ch := (rt_mpsc (h_rt h) ch)\<lparr>mp_queue := mp_queue (rt_mpsc (h_rt h) ch) - 1\<rparr>)\<rparr>\<rparr>,
    Continue \<lparr>missing_ranges = [(f, f + nchunks d)]\<rparr>)"
    using assms(4) cl(1) by (simp add: status_step_def Let_def)
  then show ?thesis by (intro exI conjI) (auto split: if_splits)
qed

lemma chunk_received:
  assumes rcv: "receiving h a cl i f d k" and k: "k < nchunks d" and len: "length d < 2 ^ 64"
  shows "\<exists>p rt. receive_chunk (h_blockdb h) \<lparr>tr_blockid = i, tr_start = f, tr_end = f + length d\<rparr>
        \<lparr>tp_chunkid = f + k, tp_data = chunk_of CHUNK_SIZE d k\<rparr>
      = Inr ((h_blockdb h)\<lparr>db_blocks := (db_blocks (h_blockdb h))(i \<mapsto> Partial p)\<rparr>) \<and>
    first_chunks i d (Suc k) p \<and>
    (\<exists>tx. ti_status_tx (transfer_in cl) = Some tx \<and> unbounded_send (h_rt h) tx = Inr rt) \<and>
    (\<forall>c. mp_rx (rt_mpsc rt c) = mp_rx (rt_mpsc (h_rt h) c)) \<and>
    TransferIn_transfer (transfer_in cl) (f + k) = Inr \<lparr>tr_blockid = i, tr_start = f, tr_end = f + length d\<rparr>"
proof -
  obtain p where p: "db_blocks (h_blockdb h) i = Some (Partial p)" "first_chunks i d k p"
    using rcv by (auto simp: receiving_def)
  obtain p' where p': "store_chunk p k (chunk_of CHUNK_SIZE d k) = Inr p'" "first_chunks i d (Suc k) p'"
    using first_chunks_store [OF p(2) k len] by blast
  have "receive_chunk (h_blockdb h) \<lparr>tr_blockid = i, tr_start = f, tr_end = f + length d\<rparr>
        \<lparr>tp_chunkid = f + k, tp_data = chunk_of CHUNK_SIZE d k\<rparr>
      = Inr ((h_blockdb h)\<lparr>db_blocks := (db_blocks (h_blockdb h))(i \<mapsto> Partial p')\<rparr>)"
    using p(1) p'(1) by (simp add: receive_chunk_def BlockDb_get_mut_def Block_partial_mut_def)
  moreover have "TransferIn_transfer (transfer_in cl) (f + k) = Inr \<lparr>tr_blockid = i, tr_start = f, tr_end = f + length d\<rparr>"
    using rcv k nchunks_le [of d] by (auto simp: TransferIn_transfer_def receiving_def)
  moreover obtain tx where "ti_status_tx (transfer_in cl) = Some tx" "mp_rx (rt_mpsc (h_rt h) tx)"
    using rcv by (auto simp: receiving_def)
  ultimately show ?thesis using p'(2) by (auto simp: unbounded_send_def Let_def)
qed

lemma payload_stored:
  assumes rcv: "receiving h a cl i f d k" and k: "Suc k < nchunks d" and len: "length d < 2 ^ 64"
  shows "\<exists>h' b. transfer_payload E h a \<lparr>tp_chunkid = f + k, tp_data = chunk_of CHUNK_SIZE d k\<rparr> = Inr (h', []) \<and>
    receiving h' a cl i f d (Suc k) \<and>
    h_blockdb h' = (h_blockdb h)\<lparr>db_blocks := (db_blocks (h_blockdb h))(i \<mapsto> b)\<rparr>"
proof -
  obtain p rt tx where c: "receive_chunk (h_blockdb h) \<lparr>tr_blockid = i, tr_start = f, tr_end = f + length d\<rparr>
        \<lparr>tp_chunkid = f + k, tp_data = chunk_of CHUNK_SIZE d k\<rparr>
      = Inr ((h_blockdb h)\<lparr>db_blocks := (db_blocks (h_blockdb h))(i \<mapsto> Partial p)\<rparr>)"
    "first_chunks i d (Suc k) p" "ti_status_tx (transfer_in cl) = Some tx" "unbounded_send (h_rt h) tx = Inr rt"
    "\<forall>c. mp_rx (rt_mpsc rt c) = mp_rx (rt_mpsc (h_rt h) c)"
    "TransferIn_transfer (transfer_in cl) (f + k) = Inr \<lparr>tr_blockid = i, tr_start = f, tr_end = f + length d\<rparr>"
    using chunk_received [OF rcv _ len] k by auto
  let ?db = "(h_blockdb h)\<lparr>db_blocks := (db_blocks (h_blockdb h))(i \<mapsto> Partial p)\<rparr>"
  have "try_promote ?db i = Inr (False, ?db)"
    using first_chunks_all [OF c(2)] k by (simp add: try_promote_False)
  moreover have cl: "h_clients h a = Some cl" using rcv by (simp add: receiving_def)
  ultimately have "transfer_payload E h a \<lparr>tp_chunkid = f + k, tp_data = chunk_of CHUNK_SIZE d k\<rparr>
      = Inr (h\<lparr>h_blockdb := ?db, h_rt := rt\<rparr>, [])"
    using c by (simp add: transfer_payload_def get_client_def Let_def)
  then show ?thesis using rcv c(2,5) by (auto simp: receiving_def)
qed

lemma payload_completes:
  assumes rcv: "receiving h a cl i f d k" and k: "Suc k = nchunks d" and len: "length d < 2 ^ 64"
  shows "\<exists>rt. let
      db = (h_blockdb h)\<lparr>db_blocks := (db_blocks (h_blockdb h))(i \<mapsto> Full \<lparr>full_id = i, full_data = d\<rparr>)\<rparr>;
      h2 = put_client (h\<lparr>h_blockdb := db, h_rt := rt\<rparr>) a (cl\<lparr>transfer_in := (transfer_in cl)\<lparr>ti_transfers := []\<rparr>\<rparr>)
    in transfer_payload E h a \<lparr>tp_chunkid = f + k, tp_data = chunk_of CHUNK_SIZE d k\<rparr> =
      bindE (resolve (e_api E) (e_stack E) db i True) (\<lambda>dec.
      bindE (request_missing h2 a (child_ids dec)) (\<lambda>(h3, ts).
      bindE (verify (e_api E) (e_stack E) (h_blockdb h3) True) (\<lambda>complete.
      if \<not> complete then Inr (h3, ts)
      else bindE (finish_update E h3 a) (\<lambda>(h4, ts'). Inr (h4, ts @ ts')))))"
proof -
  obtain p rt tx where c: "receive_chunk (h_blockdb h) \<lparr>tr_blockid = i, tr_start = f, tr_end = f + length d\<rparr>
        \<lparr>tp_chunkid = f + k, tp_data = chunk_of CHUNK_SIZE d k\<rparr>
      = Inr ((h_blockdb h)\<lparr>db_blocks := (db_blocks (h_blockdb h))(i \<mapsto> Partial p)\<rparr>)"
    "first_chunks i d (Suc k) p" "ti_status_tx (transfer_in cl) = Some tx" "unbounded_send (h_rt h) tx = Inr rt"
    "TransferIn_transfer (transfer_in cl) (f + k) = Inr \<lparr>tr_blockid = i, tr_start = f, tr_end = f + length d\<rparr>"
    using chunk_received [OF rcv _ len] k by auto
  let ?db1 = "(h_blockdb h)\<lparr>db_blocks := (db_blocks (h_blockdb h))(i \<mapsto> Partial p)\<rparr>"
  let ?db = "(h_blockdb h)\<lparr>db_blocks := (db_blocks (h_blockdb h))(i \<mapsto> Full \<lparr>full_id = i, full_data = d\<rparr>)\<rparr>"
  have all: "list_all id (available p)" using first_chunks_all [OF c(2)] k by simp
  then have "partial_data p = d" "partial_id p = i"
    using c(2) partial_complete by (auto simp: first_chunks_def)
  then have "try_promote ?db1 i = Inr (True, ?db)" using all by (simp add: try_promote_def BlockDb_get_def)
  moreover have "h_clients h a = Some cl"
    "ti_transfers (transfer_in cl) = [\<lparr>tr_blockid = i, tr_start = f, tr_end = f + length d\<rparr>]"
    using rcv by (simp_all add: receiving_def)
  ultimately show ?thesis
    using c by (intro exI [of _ rt]) (simp add: transfer_payload_def get_client_def Let_def)
qed

text \<open>Every block that is asked for and not there has a request of its own afterwards.\<close>

definition requested :: "SocketAddr \<Rightarrow> Client2 \<Rightarrow> task list \<Rightarrow> BlockId \<Rightarrow> bool" where
  "requested a cl ts j \<longleftrightarrow>
     (\<exists>ch. pending_block_requests cl j = Some ch \<and> RetryTask True ch (BlockRequest \<lparr>br_blockid = j\<rparr>) a \<in> set ts)"

lemma requests_missing:
  assumes "h_clients h a = Some cl"
  shows "\<exists>h' ts cl'. request_missing h a ids = Inr (h', ts) \<and> h_clients h' = (h_clients h)(a \<mapsto> cl') \<and>
    transfer_in cl' = transfer_in cl \<and> h_blockdb h' = h_blockdb h \<and> h_fs h' = h_fs h \<and> h_folder h' = h_folder h \<and>
    (\<forall>j \<in> set ids. \<not> contains (h_blockdb h) j \<longrightarrow> requested a cl' ts j) \<and>
    (\<forall>j ts0. requested a cl ts0 j \<longrightarrow> requested a cl' (ts0 @ ts) j)"
  using assms
proof (induction ids arbitrary: h cl)
  case Nil
  then show ?case
    by (intro exI [of _ h] exI [of _ "[]"] exI [of _ cl]) (simp add: fun_upd_idem)
next
  case (Cons i ids)
  show ?case
  proof (cases "contains (h_blockdb h) i")
    case True
    then show ?thesis using Cons.IH [OF Cons.prems] by auto
  next
    case False
    obtain otx rt where ch: "oneshot_channel (h_rt h) = (otx, rt)" by (cases "oneshot_channel (h_rt h)")
    define cl1 where "cl1 = cl\<lparr>pending_block_requests := (pending_block_requests cl)(i \<mapsto> otx)\<rparr>"
    define h1 where "h1 = (put_client h a cl1)
      \<lparr>h_rt := case pending_block_requests cl i of None \<Rightarrow> rt | Some old \<Rightarrow> oneshot_drop rt old\<rparr>"
    have send: "send_block_request h a \<lparr>br_blockid = i\<rparr> = Inr (h1, [RetryTask True otx (BlockRequest \<lparr>br_blockid = i\<rparr>) a])"
      using Cons.prems ch by (simp add: send_block_request_def get_client_def h1_def cl1_def)
    have h1: "h_clients h1 = (h_clients h)(a \<mapsto> cl1)" "h_blockdb h1 = h_blockdb h" "h_fs h1 = h_fs h"
      "h_folder h1 = h_folder h"
      by (simp_all add: h1_def put_client_def)
    then have "h_clients h1 a = Some cl1" by simp
    from Cons.IH [OF this] obtain h' ts cl' where rest: "request_missing h1 a ids = Inr (h', ts)"
      "h_clients h' = (h_clients h1)(a \<mapsto> cl')"
      "transfer_in cl' = transfer_in cl1" "h_blockdb h' = h_blockdb h1" "h_fs h' = h_fs h1" "h_folder h' = h_folder h1"
      "\<forall>j \<in> set ids. \<not> contains (h_blockdb h1) j \<longrightarrow> requested a cl' ts j"
      "\<forall>j ts0. requested a cl1 ts0 j \<longrightarrow> requested a cl' (ts0 @ ts) j"
      by blast
    let ?t = "RetryTask True otx (BlockRequest \<lparr>br_blockid = i\<rparr>) a"
    have "requested a cl1 [?t] i" by (simp add: requested_def cl1_def)
    then have new: "requested a cl' ([?t] @ ts) i" using rest(8) by blast
    have later: "requested a cl' (?t # ts) j" if "requested a cl' ts j" for j
      using that by (auto simp: requested_def)
    have "requested a cl' (ts0 @ ?t # ts) j" if old: "requested a cl ts0 j" for ts0 j
    proof (cases "j = i")
      case True
      then show ?thesis using new by (auto simp: requested_def)
    next
      case False
      then have "requested a cl1 ts0 j" using old by (simp add: requested_def cl1_def)
      then have "requested a cl' (ts0 @ ts) j" using rest(8) by blast
      then show ?thesis by (auto simp: requested_def)
    qed
    then show ?thesis
      using rest h1 False send new later
      by (intro exI [of _ h'] exI [of _ "?t # ts"] exI [of _ cl'] conjI) (auto simp: cl1_def)
  qed
qed

section \<open>The sender\<close>

lemma request_answered:
  assumes ref: "ref_ok ref" and h: "h_blockdb h = ref" "h_clients h a = Some cl"
    and ok: "alloc_ok ref (to_transfers (transfer_out cl)) (to_transfer_cursor (transfer_out cl))"
    and d: "full_at ref i = Some d" "to_transfer_cursor (transfer_out cl) + length d < 2 ^ 64"
  shows "\<exists>f out. block_request h a \<lparr>br_blockid = i\<rparr> = Inr (put_client h a (cl\<lparr>transfer_out := out\<rparr>),
      [SendTask (BlockRequestResponse
        \<lparr>bq_blockid = i, bq_start_id = f, bq_end_id = f + length d, bq_len = length d\<rparr>) a]) \<and>
    (f, f + length d, i) \<in> set (to_transfers out) \<and> to_cursor out = to_cursor (transfer_out cl) \<and>
    to_transfer_cursor out \<le> to_transfer_cursor (transfer_out cl) + length d \<and>
    f + length d \<le> to_transfer_cursor out"
proof -
  obtain b where b: "db_blocks ref i = Some (Full b)" "full_data b = d" using d(1) by (auto simp: full_at_eq_Some)
  then have get: "BlockDb_get ref i = Inr (Full b)" "Block_len (Full b) = length d"
    by (simp_all add: BlockDb_get_def Block_len_def)
  obtain tr out where al: "allocate_transfer ref (transfer_out cl) i = Inr (tr, out)"
    and cur: "to_cursor out = to_cursor (transfer_out cl)"
      "to_transfer_cursor out \<le> to_transfer_cursor (transfer_out cl) + length d"
    using get d(2) by (cases "find (\<lambda>(from, to, i'). i' = i) (to_transfers (transfer_out cl))")
      (auto simp: allocate_transfer_def Let_def)
  note new = allocate_transfer_ok [OF ref ok al]
  have tr: "tr = (fst tr, fst tr + length d, i)" "fst tr + length d \<le> to_transfer_cursor out"
    using new(1,3,4) d(1) by (auto simp: alloc_ok_def prod_eq_iff)
  then have "(fst tr, fst tr + length d, i) \<in> set (to_transfers out)" using new(3) by metis
  moreover have "fst (snd tr) = fst tr + length d" using tr(1) by (metis fst_conv snd_conv)
  ultimately show ?thesis
    using al cur get h tr(2)
    by (intro exI [of _ "fst tr"] exI [of _ out]) (simp add: block_request_def get_client_def)
qed

lemma chunk_sent:
  assumes cl: "h_clients h a = Some cl" "to_cursor (transfer_out cl) = Some (f + k)"
      "to_todo (transfer_out cl) = [(f, f + nchunks d)]"
    and ok: "alloc_ok (h_blockdb h) (to_transfers (transfer_out cl)) cur"
      "(f, f + length d, i) \<in> set (to_transfers (transfer_out cl))"
    and d: "full_at (h_blockdb h) i = Some d" "k < nchunks d" "f + length d < 2 ^ 64"
  shows "payload_step h a = Inr (put_client h a (cl\<lparr>transfer_out := (transfer_out cl)
      \<lparr>to_cursor := if Suc k < nchunks d then Some (f + Suc k) else None\<rparr>\<rparr>),
    Some \<lparr>tp_chunkid = f + k, tp_data = chunk_of CHUNK_SIZE d k\<rparr>)"
proof -
  have kd: "k < length d" using d(2) nchunks_le [of d] by simp
  have "find (\<lambda>(from, to, _). from \<le> f + k \<and> f + k < to) (to_transfers (transfer_out cl)) = Some (f, f + length d, i)"
  proof (cases "find (\<lambda>(from, to, _). from \<le> f + k \<and> f + k < to) (to_transfers (transfer_out cl))")
    case None
    then have "\<not> (case (f, f + length d, i) of (from, to, _) \<Rightarrow> from \<le> f + k \<and> f + k < to)"
      using ok(2) by (auto simp only: find_None_iff)
    then show ?thesis using kd by simp
  next
    case (Some x)
    obtain f' t' i' where x: "x = (f', t', i')" by (cases x)
    then have "(f', t', i') \<in> set (to_transfers (transfer_out cl))" "f' \<le> f + k" "f + k < t'"
      using Some by (auto dest: find_SomeD)
    from alloc_unique [OF ok(1) this(1) ok(2) this(2,3)] kd x Some show ?thesis by simp
  qed
  moreover have "k * CHUNK_SIZE < 2 ^ 64" using d(2,3) by (simp add: nchunks_less)
  ultimately have "chunk_at h (transfer_out cl) (f + k) = Some (chunk_of CHUNK_SIZE d k)"
    using d(1) by (simp add: chunk_at_def)
  moreover have "f + k + 1 < 2 ^ 64" using kd d(3) by simp
  ultimately show ?thesis
    using payload_step_sends [OF cl(1,2)] cl(3) by (auto simp: next_cursor_def)
qed

end
