(* ===== verification/Sync_Server.thy ===== *)
theory Sync_Server
  imports Sync_Client
begin

text \<open>
  The receiving side of a synchronisation: a server node and one client whose store is the reference.
  \<open>server_inv\<close> holds through every message of the client and every step of the server's tasks: the
  store has only the client's bytes, the transfers are among those the client has allocated, and
  the server's root and folder are the old ones or those of the client.
\<close>

section \<open>The invariant\<close>

text \<open>The server before, and the client's tree in its folder after.\<close>

record server_spec =
  sp_ref :: BlockDb
  sp_client :: SocketAddr
  sp_root :: BlockRef
  sp_fs :: fs2
  sp_folder :: path
  sp_kids :: "(u8 list \<times> tree) list"

definition sp_place :: "env2 \<Rightarrow> server_spec \<Rightarrow> u8 list list" where
  "sp_place E sp = resolve_path (e_cwd E) (sp_folder sp)"

definition sp_target :: "env2 \<Rightarrow> server_spec \<Rightarrow> fs2" where
  "sp_target E sp = (\<lambda>q. if take (length (sp_place E sp)) q = sp_place E sp
     then map_of (tree_nodes (sp_place E sp) (TDir (sp_kids sp))) q else sp_fs sp q)"

text \<open>
  The client's store holds its tree, the server can read it, its folder exists, and the stack is deep
  enough for the tree.
\<close>

definition spec_ok :: "env2 \<Rightarrow> server_spec \<Rightarrow> bool" where
  "spec_ok E sp \<longleftrightarrow>
     ref_ok (sp_ref sp) \<and> BlockRef_ok (sp_root sp) \<and>
     holds (e_api E) (sp_ref sp) (TDir (sp_kids sp)) Directory (db_root (sp_ref sp)) \<and>
     tree_ok (TDir (sp_kids sp)) \<and> kids_depth (sp_kids sp) \<le> e_stack E \<and>
     sp_place E sp \<noteq> [] \<and> sp_fs sp (sp_place E sp) = Some FsDir \<and>
     sp_fs sp (butlast (sp_place E sp)) = Some FsDir"

definition server_task :: "BlockDb \<Rightarrow> task \<Rightarrow> bool" where
  "server_task ref t \<longleftrightarrow>
     (case t of
        SendTask m _ \<Rightarrow> server_msg ref m
      | RetryTask _ _ m _ \<Rightarrow> (\<exists>r. m = BlockRequest r)
      | RetryWait _ _ m _ \<Rightarrow> (\<exists>r. m = BlockRequest r)
      | StatusTask _ _ \<Rightarrow> True
      | PayloadTask _ \<Rightarrow> False)"

definition transfers_known :: "(nat \<times> nat \<times> BlockId) list \<Rightarrow> Client2 option \<Rightarrow> bool" where
  "transfers_known ts c \<longleftrightarrow>
     (\<forall>client. c = Some client \<longrightarrow>
        (\<forall>t \<in> set (ti_transfers (transfer_in client)). (tr_start t, tr_end t, tr_blockid t) \<in> set ts))"

definition srv_inv :: "env2 \<Rightarrow> server_spec \<Rightarrow> (nat \<times> nat \<times> BlockId) list \<Rightarrow> Handler \<Rightarrow> bool" where
  "srv_inv E sp ts h \<longleftrightarrow>
     h_folder h = sp_folder sp \<and> dom (h_clients h) \<subseteq> {sp_client sp} \<and>
     transfers_known ts (h_clients h (sp_client sp)) \<and>
     db_inv (sp_ref sp) (h_blockdb h) \<and>
     (db_pending_root (h_blockdb h) = None \<and> db_root (h_blockdb h) = db_root (sp_ref sp) \<and>
        h_fs h = sp_target E sp \<or>
      (db_pending_root (h_blockdb h) = None \<or> db_pending_root (h_blockdb h) = Some (db_root (sp_ref sp))) \<and>
        db_root (h_blockdb h) = sp_root sp \<and> h_fs h = sp_fs sp)"

definition server_inv :: "env2 \<Rightarrow> server_spec \<Rightarrow> (nat \<times> nat \<times> BlockId) list \<Rightarrow> Node \<Rightarrow> bool" where
  "server_inv E sp ts n \<longleftrightarrow>
     srv_inv E sp ts (nd_handler n) \<and> (\<forall>t \<in> set (nd_tasks n). server_task (sp_ref sp) t)"

lemma server_inv_mono: "server_inv E sp ts n \<Longrightarrow> set ts \<subseteq> set ts' \<Longrightarrow> server_inv E sp ts' n"
  by (auto simp: server_inv_def srv_inv_def transfers_known_def)

text \<open>Changes of the channels and of the requests in flight are not seen by it.\<close>

lemma srv_inv_rt [simp]: "srv_inv E sp ts (h\<lparr>h_rt := rt\<rparr>) = srv_inv E sp ts h"
  by (simp add: srv_inv_def)

lemma srv_inv_put:
  assumes "srv_inv E sp ts h" and "transfers_known ts (Some client)"
  shows "srv_inv E sp ts (put_client h (sp_client sp) client)"
  using assms by (auto simp: srv_inv_def put_client_def)

lemma srv_inv_get:
  assumes "srv_inv E sp ts h" and "get_client h (sp_client sp) = Inr client"
  shows "transfers_known ts (Some client)"
  using assms by (auto simp: srv_inv_def get_client_def split: option.splits)

lemma send_block_request_inv:
  assumes "srv_inv E sp ts h" and "send_block_request h (sp_client sp) req = Inr (h', tasks)"
  shows "srv_inv E sp ts h'" and "h_blockdb h' = h_blockdb h"
    and "\<forall>t \<in> set tasks. server_task ref t"
proof -
  obtain client rt c where cl: "get_client h (sp_client sp) = Inr client"
    and h': "h' = (put_client h (sp_client sp)
      (client\<lparr>pending_block_requests := (pending_block_requests client)(br_blockid req \<mapsto> c)\<rparr>))\<lparr>h_rt := rt\<rparr>"
    and ts: "tasks = [RetryTask True c (BlockRequest req) (sp_client sp)]"
    using assms(2) by (auto simp: send_block_request_def oneshot_channel_def outcome_simps Let_def)
  have "transfers_known ts (Some (client\<lparr>pending_block_requests :=
      (pending_block_requests client)(br_blockid req \<mapsto> c)\<rparr>))"
    using srv_inv_get [OF assms(1) cl] by (simp add: transfers_known_def)
  then show "srv_inv E sp ts h'" using srv_inv_put [OF assms(1)] h' by simp
  show "h_blockdb h' = h_blockdb h" using h' by (simp add: put_client_def)
  show "\<forall>t \<in> set tasks. server_task ref t" using ts by (simp add: server_task_def)
qed

lemma request_missing_inv:
  assumes "srv_inv E sp ts h" and "request_missing h (sp_client sp) ids = Inr (h', tasks)"
  shows "srv_inv E sp ts h' \<and> h_blockdb h' = h_blockdb h \<and> (\<forall>t \<in> set tasks. server_task ref t)"
  using assms
proof (induction ids arbitrary: h tasks)
  case Nil
  then show ?case by simp
next
  case (Cons i ids)
  show ?case
  proof (cases "contains (h_blockdb h) i")
    case True
    then show ?thesis using Cons by simp
  next
    case False
    then obtain h1 ts1 ts2 where s1: "send_block_request h (sp_client sp) \<lparr>br_blockid = i\<rparr> = Inr (h1, ts1)"
      and s2: "request_missing h1 (sp_client sp) ids = Inr (h', ts2)" and tasks: "tasks = ts1 @ ts2"
      using Cons.prems(2) by (auto simp: outcome_simps)
    note s = send_block_request_inv [OF Cons.prems(1) s1]
    show ?thesis using Cons.IH [OF s(1) s2] s(2,3) tasks by auto
  qed
qed

section \<open>Messages of the client\<close>

lemma unconnected_root_update_inv:
  assumes inv: "srv_inv E sp ts h" and ok: "spec_ok E sp" and new: "h_clients h (sp_client sp) = None"
    and u: "ru_to_blockref u = db_root (sp_ref sp)"
    and ru: "unconnected_root_update h (sp_client sp) u r = Inr (h', tasks)"
  shows "srv_inv E sp ts h'" and "\<forall>t \<in> set tasks. server_task (sp_ref sp) t"
proof -
  have "srv_inv E sp ts h' \<and> (\<forall>t \<in> set tasks. server_task (sp_ref sp) t)"
  proof (cases "blockid (db_root (sp_ref sp)) = blockid (db_root (h_blockdb h))")
    case True
    have "BlockRef_ok (db_root (h_blockdb h))"
      using inv ok by (auto simp: srv_inv_def spec_ok_def ref_ok_def)
    then have "BlockId_ok (blockid (db_root (h_blockdb h)))" "Key_ok (key (db_root (h_blockdb h)))"
      by (cases "db_root (h_blockdb h)", simp)+
    then show ?thesis
      using True ru u inv
      by (auto simp: unconnected_root_update_def Let_def BlockDb_root_def server_task_def server_msg_def
          RootUpdateResponse_ok_def)
  next
    case False
    show ?thesis
    proof (cases "pending_root (h_blockdb h) = None")
      case True
      let ?h = "(insert_client h (sp_client sp) r)
        \<lparr>h_blockdb := set_pending_root (h_blockdb h) (db_root (sp_ref sp))\<rparr>"
      have "srv_inv E sp ts ?h"
        using inv False True
        by (auto simp: srv_inv_def insert_client_def put_client_def transfers_known_def Client2_default_def
            TransferIn_default_def set_pending_root_def pending_root_def db_inv_def)
      moreover have "send_block_request ?h (sp_client sp) \<lparr>br_blockid = blockid (db_root (sp_ref sp))\<rparr>
          = Inr (h', tasks)"
        using ru False True u by (simp add: unconnected_root_update_def Let_def BlockDb_root_def)
      ultimately show ?thesis using send_block_request_inv(1,3) by blast
    next
      case pending: False
      then show ?thesis
        using ru False u inv by (auto simp: unconnected_root_update_def Let_def BlockDb_root_def)
    qed
  qed
  then show "srv_inv E sp ts h'" and "\<forall>t \<in> set tasks. server_task (sp_ref sp) t" by blast+
qed

lemma block_request_response_inv:
  assumes inv: "srv_inv E sp ts h"
    and m: "client_msg (sp_ref sp) ts (BlockRequestResponse res)"
    and br: "block_request_response h (sp_client sp) res = Inr (h', tasks)"
  shows "srv_inv E sp ts h'" and "\<forall>t \<in> set tasks. server_task ref t"
proof -
  let ?t = "\<lparr>tr_blockid = bq_blockid res, tr_start = bq_start_id res, tr_end = bq_end_id res\<rparr>"
  obtain client p client' rt where cl: "get_client h (sp_client sp) = Inr client"
    and p: "Partial_new (bq_blockid res) (bq_len res) = Inr p"
    and h': "h' = (put_client (h\<lparr>h_blockdb := BlockDb_add (h_blockdb h) (Partial p)\<rparr>) (sp_client sp) client')
      \<lparr>h_rt := rt\<rparr>"
    and tr: "ti_transfers (transfer_in client') = ti_transfers (transfer_in client) @ [?t]"
    and tasks: "\<forall>t \<in> set tasks. server_task ref t"
    using br
    by (auto simp: block_request_response_def outcome_simps Let_def mpsc_unbounded_def server_task_def
        split: if_splits)
  obtain d where d: "full_at (sp_ref sp) (bq_blockid res) = Some d" "bq_len res = length d"
    and al: "(bq_start_id res, bq_end_id res, bq_blockid res) \<in> set ts"
    using m by (auto simp: client_msg_def)
  note np = Partial_new_ok [of "bq_blockid res" d p]
  have "db_inv (sp_ref sp) (BlockDb_add (h_blockdb h) (Partial p))"
    using inv np p d by (intro db_inv_add) (auto simp: srv_inv_def)
  moreover have "db_root (BlockDb_add (h_blockdb h) (Partial p)) = db_root (h_blockdb h)"
    "db_pending_root (BlockDb_add (h_blockdb h) (Partial p)) = db_pending_root (h_blockdb h)"
    by (simp_all add: BlockDb_add_def split: option.splits)
  ultimately have inv1: "srv_inv E sp ts (h\<lparr>h_blockdb := BlockDb_add (h_blockdb h) (Partial p)\<rparr>)"
    using inv by (simp add: srv_inv_def)
  have "transfers_known ts (Some client')"
    using srv_inv_get [OF inv cl] tr al by (auto simp: transfers_known_def)
  then show "srv_inv E sp ts h'" using srv_inv_put [OF inv1] h' by simp
  show "\<forall>t \<in> set tasks. server_task ref t" by (rule tasks)
qed

text \<open>The end of a synchronisation: a verified pending root is the client's tree.\<close>

lemma finish_update_inv:
  assumes inv: "srv_inv E sp ts h" and ok: "spec_ok E sp"
    and full: "all_full (e_api E) (h_blockdb h) Directory (db_root (sp_ref sp))"
    and fin: "finish_update E h (sp_client sp) = Inr (h', tasks)"
  shows "srv_inv E sp ts h'" and "\<forall>t \<in> set tasks. server_task (sp_ref sp) t"
proof -
  obtain from_root db fs where ap: "apply_pending (h_blockdb h) = Inr (from_root, db)"
    and wr: "write_to_dir (e_api E) (e_stack E) db (e_cwd E) (h_folder h) (h_fs h) = Inr fs"
    and h': "h' = h\<lparr>h_blockdb := db, h_fs := fs, h_clients := (h_clients h)(sp_client sp := None),
      h_rt := drop_client (h_rt h) (h_clients h (sp_client sp))\<rparr>"
    and tasks: "tasks = map (SendTask (RootUpdateResponse \<lparr>rr_from_blockid = blockid from_root,
      rr_to_blockid = blockid (BlockDb_root db), rr_to_key = key (BlockDb_root db)\<rparr>)) (e_keys E (h_clients h))"
    using fin by (auto simp: finish_update_def outcome_simps Let_def)
  have pend: "db_pending_root (h_blockdb h) = Some (db_root (sp_ref sp))"
    and old: "db_root (h_blockdb h) = sp_root sp" "h_fs h = sp_fs sp"
    using inv ap by (auto simp: srv_inv_def apply_pending_def)
  then have db: "db = (h_blockdb h)\<lparr>db_root := db_root (sp_ref sp), db_pending_root := None\<rparr>"
    and from_root: "from_root = sp_root sp"
    using ap by (auto simp: apply_pending_def)
  have dbi: "db_inv (sp_ref sp) (h_blockdb h)" using inv by (simp add: srv_inv_def)
  have "holds (e_api E) (h_blockdb h) (TDir (sp_kids sp)) Directory (db_root (sp_ref sp))"
    using ok by (intro holds_agrees(1) [OF _ db_inv_agrees [OF dbi] full]) (simp add: spec_ok_def)
  then have "holds (e_api E) db (TDir (sp_kids sp)) Directory (db_root (sp_ref sp))"
    by (rule holds_mono(1)) (simp add: db)
  moreover have "db_root db = db_root (sp_ref sp)" by (simp add: db)
  ultimately have "holds (e_api E) db (TDir (sp_kids sp)) Directory (db_root db)" by metis
  then have "write_to_dir (e_api E) (e_stack E) db (e_cwd E) (h_folder h) (sp_fs sp) = Inr (sp_target E sp)"
    unfolding sp_target_def
    using ok inv by (intro write_to_dir_holds) (auto simp: spec_ok_def srv_inv_def sp_place_def)
  then have "fs = sp_target E sp" using wr old(2) by simp
  moreover have "db_inv (sp_ref sp) db" using dbi by (simp add: db db_inv_def)
  ultimately show "srv_inv E sp ts h'"
    using inv unfolding h' db by (auto simp: srv_inv_def transfers_known_def)
  have "BlockId_ok (blockid r) \<and> Key_ok (key r)" if "BlockRef_ok r" for r
    using that by (cases r) simp
  then have "RootUpdateResponse_ok \<lparr>rr_from_blockid = blockid from_root,
      rr_to_blockid = blockid (BlockDb_root db), rr_to_key = key (BlockDb_root db)\<rparr>"
    using ok from_root db by (simp add: RootUpdateResponse_ok_def spec_ok_def ref_ok_def BlockDb_root_def)
  then show "\<forall>t \<in> set tasks. server_task (sp_ref sp) t"
    using tasks db by (auto simp: server_task_def server_msg_def BlockDb_root_def)
qed

lemma transfer_payload_inv:
  assumes inv: "srv_inv E sp ts h" and ok: "spec_ok E sp" and al: "alloc_ok (sp_ref sp) ts cur"
    and m: "client_msg (sp_ref sp) ts (TransferPayload c)"
    and tp: "transfer_payload E h (sp_client sp) c = Inr (h', tasks)"
  shows "srv_inv E sp ts h' \<and> (\<forall>t \<in> set tasks. server_task (sp_ref sp) t)"
proof -
  obtain client tx rt tr db1 promoted db2 where cl: "get_client h (sp_client sp) = Inr client"
    and tr: "TransferIn_transfer (transfer_in client) (tp_chunkid c) = Inr tr"
    and rc: "receive_chunk (h_blockdb h) tr c = Inr db1"
    and pr: "try_promote db1 (tr_blockid tr) = Inr (promoted, db2)"
    and rest: "(let h1 = h\<lparr>h_blockdb := db2, h_rt := rt\<rparr> in
      if \<not> promoted then Inr (h1, [])
      else let h2 = put_client h1 (sp_client sp) (client\<lparr>transfer_in := (transfer_in client)
             \<lparr>ti_transfers := remove1 tr (ti_transfers (transfer_in client))\<rparr>\<rparr>)
           in bindE (resolve (e_api E) (e_stack E) db2 (tr_blockid tr) True) (\<lambda>dec.
              bindE (request_missing h2 (sp_client sp) (child_ids dec)) (\<lambda>(h3, ts).
              bindE (verify (e_api E) (e_stack E) (h_blockdb h3) True) (\<lambda>complete.
              if \<not> complete then Inr (h3, ts)
              else bindE (finish_update E h3 (sp_client sp)) (\<lambda>(h4, ts'). Inr (h4, ts @ ts'))))))
      = Inr (h', tasks)"
    using tp by (auto simp: transfer_payload_def Let_def outcome_simps split del: if_split)
  have known: "transfers_known ts (Some client)" by (rule srv_inv_get [OF inv cl])
  have "tr \<in> set (ti_transfers (transfer_in client))" "tr_start tr \<le> tp_chunkid c" "tp_chunkid c < tr_end tr"
    using tr by (auto simp: TransferIn_transfer_def dest: find_SomeD split: option.splits)
  then have mine: "(tr_start tr, tr_end tr, tr_blockid tr) \<in> set ts" "tr_start tr \<le> tp_chunkid c"
    "tp_chunkid c < tr_end tr" using known by (auto simp: transfers_known_def)
  obtain f t i d where msg: "(f, t, i) \<in> set ts" "f \<le> tp_chunkid c" "tp_chunkid c < t"
    "full_at (sp_ref sp) i = Some d" "tp_data c = chunk_of CHUNK_SIZE d (tp_chunkid c - f)"
    using m by (auto simp: client_msg_def)
  have same: "f = tr_start tr" "i = tr_blockid tr"
    using alloc_unique [OF al msg(1) mine(1) msg(2,3) mine(2,3)] by simp_all
  have dbi: "db_inv (sp_ref sp) (h_blockdb h)" using inv by (simp add: srv_inv_def)
  note db1 = receive_chunk_inv [OF dbi _ _ rc, of d] msg(4,5) same
  have "db_inv (sp_ref sp) db1" and roots1: "db_root db1 = db_root (h_blockdb h)"
    "db_pending_root db1 = db_pending_root (h_blockdb h)" using db1 by simp_all
  note db2 = try_promote_inv [OF this(1) pr]
  let ?h1 = "h\<lparr>h_blockdb := db2, h_rt := rt\<rparr>"
  have inv1: "srv_inv E sp ts ?h1" using inv db2(1-3) roots1 by (simp add: srv_inv_def)
  show ?thesis
  proof (cases promoted)
    case False
    then show ?thesis using rest inv1 by auto
  next
    case True
    let ?h2 = "put_client ?h1 (sp_client sp) (client\<lparr>transfer_in := (transfer_in client)
      \<lparr>ti_transfers := remove1 tr (ti_transfers (transfer_in client))\<rparr>\<rparr>)"
    obtain dec h3 ts3 complete where rm: "request_missing ?h2 (sp_client sp) (child_ids dec) = Inr (h3, ts3)"
      and vf: "verify (e_api E) (e_stack E) (h_blockdb h3) True = Inr complete"
      and fin: "if complete then \<exists>ts4. finish_update E h3 (sp_client sp) = Inr (h', ts4) \<and> tasks = ts3 @ ts4
        else h' = h3 \<and> tasks = ts3"
      using rest True by (auto simp: Let_def outcome_simps split: if_splits)
    have "transfers_known ts (Some (client\<lparr>transfer_in := (transfer_in client)
        \<lparr>ti_transfers := remove1 tr (ti_transfers (transfer_in client))\<rparr>\<rparr>))"
      using known by (auto simp: transfers_known_def dest: in_set_remove1 notin_set_remove1)
    then have "srv_inv E sp ts ?h2" by (rule srv_inv_put [OF inv1])
    from request_missing_inv [OF this rm, of "sp_ref sp"]
    have inv3: "srv_inv E sp ts h3" "\<forall>t \<in> set ts3. server_task (sp_ref sp) t" by blast+
    show ?thesis
    proof (cases complete)
      case False
      then show ?thesis using fin inv3 by simp
    next
      case True
      obtain root where root: "traverse_root (h_blockdb h3) True = Inr root"
        using vf by (auto simp: verify_def outcome_simps)
      then have "root = db_root (sp_ref sp)"
        using inv3(1) by (auto simp: traverse_root_def pending_root_def srv_inv_def split: option.splits)
      then have "all_full (e_api E) (h_blockdb h3) Directory (db_root (sp_ref sp))"
        using verify_all_full [OF vf root] True by simp
      then show ?thesis using finish_update_inv [OF inv3(1) ok] fin True inv3(2) by auto
    qed
  qed
qed

section \<open>Steps of the server\<close>

lemma server_recv:
  assumes inv: "server_inv E sp ts n" and ok: "spec_ok E sp" and al: "alloc_ok (sp_ref sp) ts cur"
    and m: "client_msg (sp_ref sp) ts m" and st: "node_recv E r n (sp_client sp) m = Inr n'"
  shows "server_inv E sp ts n'"
proof -
  obtain h tasks where dp: "dispatch E r (nd_handler n) (sp_client sp) m = Inr (h, tasks)"
    and n': "n' = \<lparr>nd_handler = h, nd_tasks = nd_tasks n @ tasks\<rparr>"
    using st by (auto simp: node_recv_def outcome_simps)
  have hinv: "srv_inv E sp ts (nd_handler n)" using inv by (simp add: server_inv_def)
  have "srv_inv E sp ts h \<and> (\<forall>t \<in> set tasks. server_task (sp_ref sp) t)"
  proof (cases "client_state (nd_handler n) (sp_client sp)")
    case New
    then have new: "h_clients (nd_handler n) (sp_client sp) = None"
      by (simp add: client_state_def split: if_splits)
    show ?thesis
    proof (cases m)
      case (RootUpdate u)
      then have "ru_to_blockref u = db_root (sp_ref sp)" using m by (simp add: client_msg_def)
      moreover have "unconnected_root_update (nd_handler n) (sp_client sp) u r = Inr (h, tasks)"
        using dp New RootUpdate by (simp add: dispatch_def)
      ultimately show ?thesis using unconnected_root_update_inv [OF hinv ok new] by blast
    qed (use dp New hinv in \<open>auto simp: dispatch_def\<close>)
  next
    case Known
    show ?thesis
    proof (cases m)
      case (TransferPayload c)
      then show ?thesis
        using dp Known m transfer_payload_inv [OF hinv ok al] by (simp add: dispatch_def)
    next
      case (BlockRequestResponse res)
      then have "block_request_response (nd_handler n) (sp_client sp) res = Inr (h, tasks)"
        using dp Known by (simp add: dispatch_def)
      then show ?thesis
        using m BlockRequestResponse block_request_response_inv [OF hinv] by blast
    qed (use dp Known hinv m in \<open>auto simp: dispatch_def client_msg_def\<close>)
  qed
  then show ?thesis using inv n' by (auto simp: server_inv_def)
qed

lemma retry_wait_inv: "retry_wait h ch dl = Inr (h', r) \<Longrightarrow> srv_inv E sp ts h' = srv_inv E sp ts h"
  by (auto simp: retry_wait_def split: oneshot.splits)

lemma status_step_inv: "status_step h ch a = Inr (h', r) \<Longrightarrow> srv_inv E sp ts h' = srv_inv E sp ts h"
  by (auto simp: status_step_def Let_def outcome_simps split: if_splits)

lemma server_task_step:
  assumes inv: "server_inv E sp ts n" and st: "node_task n i dl = Inr (n', sent)"
  shows "server_inv E sp ts n'" and "sent = Some (m, a) \<Longrightarrow> server_msg (sp_ref sp) m"
proof -
  obtain t h t' where t: "i < length (nd_tasks n)" "t = nd_tasks n ! i"
    and ts: "task_step (nd_handler n) dl t = Inr (h, sent, t')"
    and n': "n' = \<lparr>nd_handler = h, nd_tasks = take i (nd_tasks n) @
      (case t' of None \<Rightarrow> [] | Some x \<Rightarrow> [x]) @ drop (Suc i) (nd_tasks n)\<rparr>"
    using st by (auto simp: node_task_def outcome_simps)
  have stt: "server_task (sp_ref sp) t" using inv t by (simp add: server_inv_def)
  have hinv: "srv_inv E sp ts (nd_handler n)" using inv by (simp add: server_inv_def)
  have "srv_inv E sp ts h \<and> (\<forall>x. t' = Some x \<longrightarrow> server_task (sp_ref sp) x) \<and>
    (\<forall>m a. sent = Some (m, a) \<longrightarrow> server_msg (sp_ref sp) m)"
  proof (cases t)
    case (RetryWait own ch msg addr)
    show ?thesis
    proof (cases "retry_wait (nd_handler n) ch dl")
      case (Inl e)
      then show ?thesis using ts hinv RetryWait by (auto simp: task_step_def split: if_splits)
    next
      case (Inr x)
      moreover obtain h1 r where "x = (h1, r)" by (cases x)
      ultimately show ?thesis
        using ts hinv RetryWait stt retry_wait_inv [of "nd_handler n" ch dl h1 r E sp ts]
        by (cases r) (auto simp: task_step_def server_task_def)
    qed
  next
    case (StatusTask ch addr)
    then obtain h1 r where "status_step (nd_handler n) ch addr = Inr (h1, r)"
      using ts by (auto simp: task_step_def outcome_simps)
    then show ?thesis
      using ts hinv stt StatusTask status_step_inv [of "nd_handler n" ch addr h1 r E sp ts]
      by (cases r) (auto simp: task_step_def server_msg_def)
  qed (use ts hinv stt in \<open>auto simp: task_step_def server_task_def server_msg_def\<close>)
  then show "server_inv E sp ts n'" and "sent = Some (m, a) \<Longrightarrow> server_msg (sp_ref sp) m"
    using inv n' by (auto simp: server_inv_def dest: in_set_takeD in_set_dropD split: option.splits)
qed

end
