(* ===== verification/Sync.thy ===== *)
theory Sync
  imports Sync_Server Progress
begin

text \<open>
  A client and a server of version 2 over a network that may lose, repeat and reorder datagrams. The
  state is the two nodes and all datagrams ever sent; a datagram is received by decoding any of them.
  The theorem is the purpose of the program: at every moment the server has its old root and its
  untouched folder, or the client's root and exactly the client's tree in the folder.
\<close>

section \<open>The system\<close>

record sync_env =
  y_client :: env2
  y_server :: env2
  y_varint :: varint_api
  y_serde :: msg_serde
  y_room :: nat
  y_client_addr :: SocketAddr
  y_server_addr :: SocketAddr

record Sync =
  sy_client :: Node
  sy_server :: Node
  to_server :: "u8 list set"
  to_client :: "u8 list set"

definition sync_encode :: "sync_env \<Rightarrow> Msg \<Rightarrow> u8 list res" where
  "sync_encode Y m = MyCodec_encode (y_varint Y) (y_serde Y) (y_room Y) m []"

definition sync_decode :: "sync_env \<Rightarrow> u8 list \<Rightarrow> (Msg option \<times> u8 list) res" where
  "sync_decode Y bs = MyCodec_decode (y_varint Y) (y_serde Y) bs"

inductive sync_step :: "sync_env \<Rightarrow> Sync \<Rightarrow> Sync \<Rightarrow> bool" for Y where
  client_silent: "node_step (y_client Y) (sy_client s) Silent n \<Longrightarrow> sync_step Y s (s\<lparr>sy_client := n\<rparr>)"
| server_silent: "node_step (y_server Y) (sy_server s) Silent n \<Longrightarrow> sync_step Y s (s\<lparr>sy_server := n\<rparr>)"
| client_sends: "node_step (y_client Y) (sy_client s) (Sent a m) n \<Longrightarrow> sync_encode Y m = Inr bs \<Longrightarrow>
    sync_step Y s (s\<lparr>sy_client := n,
      to_server := if a = y_server_addr Y then insert bs (to_server s) else to_server s\<rparr>)"
| server_sends: "node_step (y_server Y) (sy_server s) (Sent a m) n \<Longrightarrow> sync_encode Y m = Inr bs \<Longrightarrow>
    sync_step Y s (s\<lparr>sy_server := n,
      to_client := if a = y_client_addr Y then insert bs (to_client s) else to_client s\<rparr>)"
| client_receives: "bs \<in> to_client s \<Longrightarrow> sync_decode Y bs = Inr (Some m, rest) \<Longrightarrow>
    node_step (y_client Y) (sy_client s) (Received (y_server_addr Y) m) n \<Longrightarrow>
    sync_step Y s (s\<lparr>sy_client := n\<rparr>)"
| server_receives: "bs \<in> to_server s \<Longrightarrow> sync_decode Y bs = Inr (Some m, rest) \<Longrightarrow>
    node_step (y_server Y) (sy_server s) (Received (y_client_addr Y) m) n \<Longrightarrow>
    sync_step Y s (s\<lparr>sy_server := n\<rparr>)"

definition sync_start :: "Node \<Rightarrow> Node \<Rightarrow> Sync" where
  "sync_start c s = \<lparr>sy_client = c, sy_server = s, to_server = {}, to_client = {}\<rparr>"

section \<open>Messages on the wire\<close>

lemma encode_cbor_out: "encode_cbor S d x \<lparr>wr_out = [], wr_limit = l\<rparr> = Inr bs \<Longrightarrow> bs = d # to_writer S x"
  by (auto simp: encode_cbor_def put_u8_def write_seq_def write_all_def unwrap_res_def outcome_simps
      split: if_splits sum.splits error.splits)

lemma encode_payload_out:
  "MyCodec_encode V S room (TransferPayload p) [] = Inr bs \<Longrightarrow>
   bs = 0 # enc_varint V (tp_chunkid p) @ tp_data p"
  by (auto simp: MyCodec_encode_def put_u8_def write_seq_def write_all_def unwrap_res_def outcome_simps Let_def
      split: if_splits sum.splits error.splits)

lemma encode_deltas_out:
  "encode_deltas V a xs w = Inr w' \<Longrightarrow> \<exists>r. wr_out w' = wr_out w @ r"
proof (induction V a xs w arbitrary: w' rule: encode_deltas.induct)
  case (1 V a w)
  then show ?case by simp
next
  case (2 V a x xs w)
  then obtain d a' w1 where "sub64 x a = Inr d" "add64 a d = Inr a'" "write_seq w (enc_varint V d) = Inr w1"
    "encode_deltas V a' xs w1 = Inr w'" by (auto simp: outcome_simps)
  moreover from this have "wr_out w1 = wr_out w @ enc_varint V d"
    by (auto simp: write_seq_def write_all_def split: if_splits)
  ultimately show ?case using "2.IH" by fastforce
qed

lemma encode_status_out:
  "MyCodec_encode V S room (TransferStatus s) [] = Inr bs \<Longrightarrow> \<exists>r. bs = 1 # r"
  by (auto simp: MyCodec_encode_def put_u8_def outcome_simps Let_def vec_truncate_def MTU2_def
      dest!: encode_deltas_out split: if_splits)

lemma client_wire:
  assumes "msg_codec V S" and "client_msg ref ts m" and "MyCodec_encode V S room m [] = Inr bs"
  shows "MyCodec_decode V S bs = Inr (Some m, [])"
proof -
  have V: "varint_codec V" and ru: "serde_codec (s_root_update S) RootUpdate_ok"
    and bq: "serde_codec (s_block_request_response S) BlockRequestResponse_ok"
    using assms(1) by (auto simp: msg_codec_def)
  show ?thesis
  proof (cases m)
    case (TransferPayload p)
    then have "tp_chunkid p < 2 ^ 64" using assms(2) by (simp add: client_msg_def)
    then show ?thesis
      using assms(3) TransferPayload encode_payload_out varint_codec.payload_decode [OF V] by blast
  next
    case (RootUpdate u)
    then have "bs = 2 # to_writer (s_root_update S) u" and "RootUpdate_ok u"
      using assms(2,3) encode_cbor_out by (fastforce simp: MyCodec_encode_def client_msg_def)+
    then show ?thesis
      using serde_codec.read_written [OF ru] RootUpdate
      by (simp add: MyCodec_decode_def from_reader_unwrap_def)
  next
    case (BlockRequestResponse r)
    then have "bs = 5 # to_writer (s_block_request_response S) r" and "BlockRequestResponse_ok r"
      using assms(2,3) encode_cbor_out by (fastforce simp: MyCodec_encode_def client_msg_def)+
    then show ?thesis
      using serde_codec.read_written [OF bq] BlockRequestResponse
      by (simp add: MyCodec_decode_def from_reader_unwrap_def)
  qed (use assms(2) in \<open>simp_all add: client_msg_def\<close>)
qed

lemma server_wire:
  assumes "msg_codec V S" and "server_msg ref m" and "MyCodec_encode V S room m [] = Inr bs"
    and "MyCodec_decode V S bs = Inr (Some m', rest)"
  shows "server_msg ref m'"
proof (cases m)
  case (RootUpdateResponse r)
  have "serde_codec (s_root_update_response S) RootUpdateResponse_ok"
    using assms(1) by (auto simp: msg_codec_def)
  moreover have "bs = 3 # to_writer (s_root_update_response S) r" and "RootUpdateResponse_ok r"
    using assms(2,3) RootUpdateResponse encode_cbor_out
    by (fastforce simp: MyCodec_encode_def server_msg_def)+
  ultimately have "m' = m"
    using assms(4) RootUpdateResponse serde_codec.read_written
    by (fastforce simp: MyCodec_decode_def from_reader_unwrap_def)
  then show ?thesis using assms(2) by simp
next
  case (BlockRequest r)
  then have "bs = 4 # to_writer (s_block_request S) r"
    using assms(3) encode_cbor_out by (fastforce simp: MyCodec_encode_def)
  then show ?thesis using assms(4) by (auto simp: MyCodec_decode_def outcome_simps server_msg_def)
next
  case (TransferStatus s)
  then obtain r where "bs = 1 # r" using assms(3) encode_status_out by blast
  then show ?thesis
    using assms(4) by (auto simp: MyCodec_decode_def outcome_simps server_msg_def simp del: VarintIter_sums.simps)
qed (use assms(2) in \<open>simp_all add: server_msg_def\<close>)

section \<open>The invariant of the system\<close>

definition sync_alloc :: "sync_env \<Rightarrow> Sync \<Rightarrow> (nat \<times> nat \<times> BlockId) list" where
  "sync_alloc Y s = to_transfers (client_out (y_server_addr Y) (sy_client s))"

definition sync_inv :: "sync_env \<Rightarrow> server_spec \<Rightarrow> Sync \<Rightarrow> bool" where
  "sync_inv Y sp s \<longleftrightarrow>
     client_node_inv (sp_ref sp) (y_server_addr Y) (sy_client s) \<and>
     server_inv (y_server Y) sp (sync_alloc Y s) (sy_server s) \<and>
     (\<forall>bs \<in> to_server s. \<forall>m rest. sync_decode Y bs = Inr (Some m, rest) \<longrightarrow>
        client_msg (sp_ref sp) (sync_alloc Y s) m) \<and>
     (\<forall>bs \<in> to_client s. \<forall>m rest. sync_decode Y bs = Inr (Some m, rest) \<longrightarrow> server_msg (sp_ref sp) m)"

definition sync_ok :: "sync_env \<Rightarrow> server_spec \<Rightarrow> bool" where
  "sync_ok Y sp \<longleftrightarrow>
     msg_codec (y_varint Y) (y_serde Y) \<and> spec_ok (y_server Y) sp \<and> y_client_addr Y = sp_client sp"

lemma sync_step_inv:
  assumes "sync_step Y s s'" and inv: "sync_inv Y sp s" and ok: "sync_ok Y sp"
  shows "sync_inv Y sp s'"
proof -
  have mc: "msg_codec (y_varint Y) (y_serde Y)" and spo: "spec_ok (y_server Y) sp"
    and ca: "y_client_addr Y = sp_client sp" using ok by (auto simp: sync_ok_def)
  have ref: "ref_ok (sp_ref sp)" using spo by (simp add: spec_ok_def)
  have ci: "client_node_inv (sp_ref sp) (y_server_addr Y) (sy_client s)"
    and si: "server_inv (y_server Y) sp (sync_alloc Y s) (sy_server s)"
    using inv by (simp_all add: sync_inv_def)
  have al: "\<exists>cur. alloc_ok (sp_ref sp) (sync_alloc Y s) cur"
    using ci by (auto simp: client_node_inv_def sync_alloc_def)
  from assms(1) show ?thesis
  proof cases
    case (client_silent n)
    then obtain i d where "node_task (sy_client s) i d = Inr (n, None)" by (auto elim: node_step_Silent)
    from client_task_step [OF ref ci this] show ?thesis
      using inv client_silent by (simp add: sync_inv_def sync_alloc_def)
  next
    case (server_silent n)
    then obtain i d where "node_task (sy_server s) i d = Inr (n, None)" by (auto elim: node_step_Silent)
    from server_task_step [OF si this] show ?thesis
      using inv server_silent by (simp add: sync_inv_def sync_alloc_def)
  next
    case (client_sends a m n bs)
    then obtain i d where "node_task (sy_client s) i d = Inr (n, Some (m, a))" by (auto elim: node_step_Sent)
    note st = client_task_step [OF ref ci this]
    then have "client_msg (sp_ref sp) (sync_alloc Y s) m" by (simp add: sync_alloc_def)
    then have "\<forall>m' rest. sync_decode Y bs = Inr (Some m', rest) \<longrightarrow> client_msg (sp_ref sp) (sync_alloc Y s) m'"
      using client_wire [OF mc] client_sends(3) by (fastforce simp: sync_encode_def sync_decode_def)
    then show ?thesis
      using inv client_sends st by (auto simp: sync_inv_def sync_alloc_def)
  next
    case (server_sends a m n bs)
    then obtain i d where "node_task (sy_server s) i d = Inr (n, Some (m, a))" by (auto elim: node_step_Sent)
    note st = server_task_step [OF si this]
    then have "\<forall>m' rest. sync_decode Y bs = Inr (Some m', rest) \<longrightarrow> server_msg (sp_ref sp) m'"
      using server_wire [OF mc] server_sends(3) by (auto simp: sync_encode_def sync_decode_def)
    then show ?thesis
      using inv server_sends st by (auto simp: sync_inv_def sync_alloc_def)
  next
    case (client_receives bs m rest n)
    then obtain r where rc: "node_recv (y_client Y) r (sy_client s) (y_server_addr Y) m = Inr n"
      by (auto elim: node_step_Received)
    have "server_msg (sp_ref sp) m" using inv client_receives(2,3) unfolding sync_inv_def by blast
    note st = client_recv [OF ref ci this rc]
    have grow: "set (sync_alloc Y s) \<subseteq> set (sync_alloc Y s')"
      using st(2) client_receives(1) by (simp add: sync_alloc_def)
    have "\<forall>bs \<in> to_server s'. \<forall>m rest. sync_decode Y bs = Inr (Some m, rest) \<longrightarrow>
        client_msg (sp_ref sp) (sync_alloc Y s') m"
      using inv client_receives(1) client_msg_mono [OF _ grow] unfolding sync_inv_def by simp
    moreover have "server_inv (y_server Y) sp (sync_alloc Y s') (sy_server s')"
      using server_inv_mono [OF si grow] client_receives(1) by simp
    ultimately show ?thesis
      using inv st(1) client_receives(1) by (simp add: sync_inv_def)
  next
    case (server_receives bs m rest n)
    then obtain r where rc: "node_recv (y_server Y) r (sy_server s) (sp_client sp) m = Inr n"
      using ca by (auto elim: node_step_Received)
    have "client_msg (sp_ref sp) (sync_alloc Y s) m" using inv server_receives(2,3) unfolding sync_inv_def by blast
    then have "server_inv (y_server Y) sp (sync_alloc Y s) n"
      using server_recv [OF si spo _ _ rc] al by blast
    then show ?thesis using inv server_receives(1) by (simp add: sync_inv_def sync_alloc_def)
  qed
qed

interpretation sync_invariant: preserved "sync_step Y" "\<lambda>s. sync_ok Y sp \<and> sync_inv Y sp s" for Y sp
  by unfold_locales (blast intro: sync_step_inv)

section \<open>The start\<close>

lemma scsync_client_inv:
  assumes main: "scsync_main E parse rnd opt is_dir walk fs r nonce = Inr c" and "\<not> opt2_server opt"
    and ip: "parse (opt2_host opt) = Some ip" and nonce: "length nonce = 12"
    and ref: "ref_ok (h_blockdb (nd_handler c))"
  shows "client_node_inv (h_blockdb (nd_handler c)) (ip, opt2_port opt) c"
    and "blockdb_from_folder (e_api E) rnd (opt2_files opt) is_dir walk = Inr (h_blockdb (nd_handler c))"
proof -
  obtain db delay where db: "blockdb_from_folder (e_api E) rnd (opt2_files opt) is_dir walk = Inr db"
    and c: "c = \<lparr>nd_handler = fst (connect (Handler_new (opt2_files opt) delay db fs) (ip, opt2_port opt) r nonce),
      nd_tasks = snd (connect (Handler_new (opt2_files opt) delay db fs) (ip, opt2_port opt) r nonce)\<rparr>"
    using main assms(2) ip by (auto simp: scsync_main_def outcome_simps Let_def case_prod_beta)
  have eq: "h_blockdb (nd_handler c) = db"
    by (simp add: c connect_def insert_client_def put_client_def Handler_new_def)
  have "(r mod 2 ^ 32 :: nat) < 2 ^ 64" by (rule less_trans [of _ "2 ^ 32"]) simp_all
  then show "client_node_inv (h_blockdb (nd_handler c)) (ip, opt2_port opt) c"
    using ref nonce unfolding eq
    by (simp add: c connect_def insert_client_def put_client_def Handler_new_def client_node_inv_def client_out_def
        Client2_default_def TransferOut_default_def alloc_ok_def client_task_def client_msg_def BlockDb_root_def
        RootUpdate_ok_def BlockId_ok_def ref_ok_def)
  show "blockdb_from_folder (e_api E) rnd (opt2_files opt) is_dir walk = Inr (h_blockdb (nd_handler c))"
    using db eq by simp
qed

lemma scsync_server_start:
  assumes main: "scsync_main E parse rnd opt is_dir walk fs r nonce = Inr n" and "opt2_server opt"
  shows "blockdb_from_folder (e_api E) rnd (opt2_files opt) is_dir walk = Inr (h_blockdb (nd_handler n))"
    and "h_folder (nd_handler n) = opt2_files opt" and "h_fs (nd_handler n) = fs"
    and "h_clients (nd_handler n) = Map.empty" and "nd_tasks n = []"
  using assms by (auto simp: scsync_main_def outcome_simps Let_def Handler_new_def split: option.splits)

text \<open>
  What the theorem is about: a client started on a folder, a server started on its own folder, and
  the system of both. Ciphers and serialisers satisfy their laws (the implementations of the block
  cipher may differ), random numbers have their lengths, no two blocks of the client collide, and a
  block of the server with the id of a client's block has its bytes.
\<close>

definition sync_setup ::
    "sync_env \<Rightarrow> frontend_api \<Rightarrow> path \<Rightarrow> (u8 list \<times> tree) list \<Rightarrow> Node \<Rightarrow> Node \<Rightarrow> bool" where
  "sync_setup Y A folder kids c s \<longleftrightarrow>
     frontend_codec A \<and> msg_codec (y_varint Y) (y_serde Y) \<and>
     e_api (y_client Y) = A \<and> (\<exists>ni. e_api (y_server Y) = A\<lparr>supports_aesni := ni\<rparr>) \<and>
     tree_ok (TDir kids) \<and> kids_depth kids \<le> e_stack (y_server Y) \<and>
     (\<exists>parse rnd opt fs r nonce. rnd_ok rnd \<and> length nonce = 12 \<and> \<not> opt2_server opt \<and>
        snd (opt2_files opt) \<noteq> [] \<and>
        map_option (\<lambda>ip. (ip, opt2_port opt)) (parse (opt2_host opt)) = Some (y_server_addr Y) \<and>
        scsync_main (y_client Y) parse rnd opt True (map Some (walk_tree (opt2_files opt) (TDir kids))) fs r nonce
          = Inr c) \<and>
     card (dom (db_blocks (h_blockdb (nd_handler c)))) = tree_count (TDir kids) \<and>
     (\<exists>parse rnd opt is_dir walk fs r nonce. opt2_server opt \<and> opt2_files opt = folder \<and>
        scsync_main (y_server Y) parse rnd opt is_dir walk fs r nonce = Inr s) \<and>
     BlockRef_ok (db_root (h_blockdb (nd_handler s))) \<and>
     agrees (h_blockdb (nd_handler s)) (h_blockdb (nd_handler c)) \<and>
     (let fs = h_fs (nd_handler s); P = resolve_path (e_cwd (y_server Y)) folder in
      P \<noteq> [] \<and> fs P = Some FsDir \<and> fs (butlast P) = Some FsDir)"

lemma frontend_codec_ni: "frontend_codec A \<Longrightarrow> frontend_codec (A\<lparr>supports_aesni := ni\<rparr>)"
  by (simp add: frontend_codec_def frontend_codec_axioms_def)

lemma folder_db_inv:
  assumes "frontend_codec A" and "blockdb_from_folder A rnd folder is_dir walk = Inr db" and "agrees db ref"
  shows "db_inv ref db"
  unfolding db_inv_def
proof (intro allI impI)
  fix i b
  assume b: "db_blocks db i = Some b"
  with frontend_codec.folder_db_blocks [OF assms(1,2)] obtain f where f: "b = Full f" "full_id f = i"
    by blast
  then have "full_at db i = Some (full_data f)" using b by (simp add: full_at_def)
  then show "Block_id b = i \<and> (case b of Full f \<Rightarrow> \<forall>d. full_at ref i = Some d \<longrightarrow> full_data f = d
      | Partial p \<Rightarrow> \<exists>d. full_at ref i = Some d \<and> partial_ok d p)"
    using f assms(3) by (auto simp: agrees_def)
qed

lemma from_folder_pending:
  "blockdb_from_folder A rnd folder is_dir walk = Inr db \<Longrightarrow> db_pending_root db = None"
  by (auto simp: blockdb_from_folder_def outcome_simps BlockDb_new_def split: if_splits option.splits)

lemma sync_setup_inv:
  assumes "sync_setup Y A folder kids c s"
  defines "sp \<equiv> \<lparr>sp_ref = h_blockdb (nd_handler c), sp_client = y_client_addr Y,
    sp_root = db_root (h_blockdb (nd_handler s)), sp_fs = h_fs (nd_handler s), sp_folder = folder,
    sp_kids = kids\<rparr>"
  shows "sync_inv Y sp (sync_start c s) \<and> sync_ok Y sp"
proof -
  let ?ref = "h_blockdb (nd_handler c)"
  have A: "frontend_codec A" and mc: "msg_codec (y_varint Y) (y_serde Y)"
    and apis: "e_api (y_client Y) = A" and ok: "tree_ok (TDir kids)" "kids_depth kids \<le> e_stack (y_server Y)"
    and card: "card (dom (db_blocks ?ref)) = tree_count (TDir kids)"
    and root: "BlockRef_ok (db_root (h_blockdb (nd_handler s)))"
    and agree: "agrees (h_blockdb (nd_handler s)) ?ref"
    and place: "resolve_path (e_cwd (y_server Y)) folder \<noteq> []"
      "h_fs (nd_handler s) (resolve_path (e_cwd (y_server Y)) folder) = Some FsDir"
      "h_fs (nd_handler s) (butlast (resolve_path (e_cwd (y_server Y)) folder)) = Some FsDir"
    using assms(1) by (simp_all add: sync_setup_def Let_def)
  obtain ni where ni: "e_api (y_server Y) = A\<lparr>supports_aesni := ni\<rparr>"
    using assms(1) by (auto simp: sync_setup_def)
  obtain parse rnd opt fs r nonce where cm: "rnd_ok rnd" "length nonce = 12" "\<not> opt2_server opt"
      "snd (opt2_files opt) \<noteq> []"
      "map_option (\<lambda>ip. (ip, opt2_port opt)) (parse (opt2_host opt)) = Some (y_server_addr Y)"
      "scsync_main (y_client Y) parse rnd opt True (map Some (walk_tree (opt2_files opt) (TDir kids))) fs r nonce
        = Inr c"
    using assms(1) unfolding sync_setup_def by blast
  then obtain ip where ip: "parse (opt2_host opt) = Some ip" "y_server_addr Y = (ip, opt2_port opt)" by auto
  obtain parse' rnd' opt' is_dir walk fs' r' nonce' where sm: "opt2_server opt'" "opt2_files opt' = folder"
      "scsync_main (y_server Y) parse' rnd' opt' is_dir walk fs' r' nonce' = Inr s"
    using assms(1) unfolding sync_setup_def by blast
  note srv = scsync_server_start [OF sm(3,1)]
  have parent: "path_parent (opt2_files opt) = Some (fst (opt2_files opt), butlast (snd (opt2_files opt)))"
    using cm(4) by (simp add: path_parent_def)
  obtain db delay where db: "blockdb_from_folder A rnd (opt2_files opt) True
      (map Some (walk_tree (opt2_files opt) (TDir kids))) = Inr db" and "?ref = db"
    using cm(6) cm(3) ip(1) apis
    by (auto simp: scsync_main_def outcome_simps Let_def case_prod_beta connect_def insert_client_def
        put_client_def Handler_new_def)
  with frontend_codec.folder_db_holds [OF A cm(1) ok(1) parent, of ni] card
  have h: "holds (A\<lparr>supports_aesni := ni\<rparr>) ?ref (TDir kids) Directory (db_root ?ref)"
    and r1: "BlockRef_ok (db_root ?ref)" "db_pending_root ?ref = None"
    by auto
  have ref: "ref_ok ?ref"
    using r1 frontend_codec.folder_db_blocks [OF A db] \<open>?ref = db\<close> by (simp add: ref_ok_def)
  have ci: "client_node_inv ?ref (y_server_addr Y) c"
    using scsync_client_inv(1) [OF cm(6,3) ip(1) cm(2) ref] ip(2) by simp
  have "spec_ok (y_server Y) sp"
    using ref root h ok place by (simp add: spec_ok_def sp_def sp_place_def ni)
  moreover have "server_inv (y_server Y) sp (sync_alloc Y (sync_start c s)) s"
  proof -
    have "db_inv ?ref (h_blockdb (nd_handler s))"
      using folder_db_inv [OF frontend_codec_ni [OF A] _ agree] srv(1) ni by simp
    then show ?thesis
      using srv sm(2) from_folder_pending [OF srv(1)]
      by (simp add: server_inv_def srv_inv_def sp_def transfers_known_def)
  qed
  ultimately show ?thesis
    using mc ci by (simp add: sync_inv_def sync_ok_def sync_start_def sp_def)
qed

text \<open>
  C2: A client and a server of version 2 over a network that loses, repeats and reorders datagrams: in
  every reachable state the server either still has its old root and an untouched folder, or it has
  the client's root and its folder is exactly the client's tree, file for file and byte for byte,
  while everything outside the folder is unchanged. No interleaving of messages and background tasks
  leaves a half-synchronised folder.
\<close>

theorem sync_delivers_folder:
  assumes "sync_setup Y A folder kids c s" and "(sync_step Y)\<^sup>*\<^sup>* (sync_start c s) st"
    and "P = resolve_path (e_cwd (y_server Y)) folder"
  shows "(db_root (h_blockdb (nd_handler (sy_server st))) = db_root (h_blockdb (nd_handler s)) \<and>
      h_fs (nd_handler (sy_server st)) = h_fs (nd_handler s)) \<or>
    (db_root (h_blockdb (nd_handler (sy_server st))) = db_root (h_blockdb (nd_handler c)) \<and>
      h_fs (nd_handler (sy_server st)) = (\<lambda>q. if take (length P) q = P
        then map_of (tree_nodes P (TDir kids)) q else h_fs (nd_handler s) q))"
proof -
  let ?sp = "\<lparr>sp_ref = h_blockdb (nd_handler c), sp_client = y_client_addr Y,
    sp_root = db_root (h_blockdb (nd_handler s)), sp_fs = h_fs (nd_handler s), sp_folder = folder,
    sp_kids = kids\<rparr>"
  from sync_setup_inv [OF assms(1)] have "sync_inv Y ?sp st"
    using sync_invariant.always [OF assms(2)] by blast
  then have "srv_inv (y_server Y) ?sp (sync_alloc Y st) (nd_handler (sy_server st))"
    by (simp add: sync_inv_def server_inv_def)
  then show ?thesis
    unfolding assms(3) by (auto simp: srv_inv_def sp_target_def sp_place_def)
qed

end
