(* ===== verification/Frontend_Items.thy ===== *)
theory Frontend_Items
  imports Folder
begin

text \<open>
  A concrete instance of the parameters of the frontend: the serialisation of \<open>Serde\<close>, a cipher that
  shifts bytes by the first byte of the key behind the initialisation vector, and the first 32 bytes
  as a digest. It satisfies \<open>frontend_codec\<close>, so the theorems over the parameters have instances.
\<close>

section \<open>Serialisation\<close>

definition Meta_item :: "Meta \<Rightarrow> item" where
  "Meta_item m = Seq (map BlockRef_item (meta_blocks m))"

definition item_Meta :: "item \<Rightarrow> Meta option" where
  "item_Meta t =
     (case t of
        Seq rs \<Rightarrow> map_option (\<lambda>bs. \<lparr>meta_blocks = bs\<rparr>) (those (map item_BlockRef rs))
      | Num _ \<Rightarrow> None)"

fun type_num :: "BlockType \<Rightarrow> nat" where
  "type_num Directory = 1"
| "type_num FileMeta = 2"
| "type_num BlockType.Leaf = 3"

definition num_type :: "nat \<Rightarrow> BlockType option" where
  "num_type n =
     (if n = 1 then Some Directory else if n = 2 then Some FileMeta
      else if n = 3 then Some BlockType.Leaf else None)"

definition Child_item :: "Child \<Rightarrow> item" where
  "Child_item c =
     Seq [bytes_item (child_name c), Num (type_num (child_type c)), BlockRef_item (child_blockref c)]"

definition item_Child :: "item \<Rightarrow> Child option" where
  "item_Child t =
     (case t of
        Seq [n, Num ty, r] \<Rightarrow>
          (case (bytes_of n, num_type ty, item_BlockRef r) of
             (Some n', Some ty', Some r') \<Rightarrow>
               Some \<lparr>child_name = n', child_metadata = (), child_type = ty', child_blockref = r'\<rparr>
           | _ \<Rightarrow> None)
      | _ \<Rightarrow> None)"

definition Dir_item :: "Dir \<Rightarrow> item" where
  "Dir_item d = Seq (map Child_item (dir_children d))"

definition item_Dir :: "item \<Rightarrow> Dir option" where
  "item_Dir t =
     (case t of
        Seq cs \<Rightarrow> map_option (\<lambda>cs'. \<lparr>dir_children = cs'\<rparr>) (those (map item_Child cs))
      | Num _ \<Rightarrow> None)"

lemma item_Child_inverse: "item_Child (Child_item c) = Some c"
  by (cases c; cases "child_type c")
    (simp_all add: item_Child_def Child_item_def num_type_def BlockRef_item_inverse)

lemma Child_item_ok: "Child_ok c \<Longrightarrow> item_ok (Child_item c)"
  by (cases "child_type c") (simp_all add: Child_item_def Child_ok_def BlockRef_item_ok)

section \<open>Cipher and digest\<close>

definition shift_api :: "bool \<Rightarrow> frontend_api" where
  "shift_api ni =
     \<lparr>supports_aesni = ni,
      aes_write = (\<lambda>_ k iv bs. iv @ map (\<lambda>b. b + hd k) bs),
      aes_read = (\<lambda>_ k ds.
        if length ds < 16 then None else Some (Some (map (\<lambda>b. b - hd k) (drop 16 ds)))),
      keccak256 = (\<lambda>bs. take 32 (bs @ replicate 32 0)),
      s_leaf = item_serde bytes_item bytes_of,
      s_meta = item_serde Meta_item item_Meta,
      s_dir = item_serde Dir_item item_Dir\<rparr>"

interpretation shift: frontend_codec "shift_api ni"
proof
  fix x :: "u8 list"
  have "serde_codec (s_leaf (shift_api ni)) (\<lambda>_. True)"
    unfolding shift_api_def frontend_api.simps by (rule item_serde_codec) simp
  then show "from_reader (s_leaf (shift_api ni)) (to_writer (s_leaf (shift_api ni)) x) = Some x"
    by (rule serde_codec.read_written) simp
next
  fix m
  assume "Meta_ok m"
  have "serde_codec (s_meta (shift_api ni)) Meta_ok"
    unfolding shift_api_def frontend_api.simps
  proof (rule item_serde_codec)
    fix m
    assume "Meta_ok m"
    moreover have "those (map item_BlockRef (map BlockRef_item (meta_blocks m))) = Some (meta_blocks m)"
      by (intro those_map_Some) (simp add: BlockRef_item_inverse)
    ultimately show "item_ok (Meta_item m) \<and> item_Meta (Meta_item m) = Some m"
      by (auto simp: Meta_item_def item_Meta_def Meta_ok_def list_all_iff BlockRef_item_ok)
  qed
  then show "from_reader (s_meta (shift_api ni)) (to_writer (s_meta (shift_api ni)) m) = Some m"
    using \<open>Meta_ok m\<close> by (rule serde_codec.read_written)
next
  fix d
  assume "Dir_ok d"
  have "serde_codec (s_dir (shift_api ni)) Dir_ok"
    unfolding shift_api_def frontend_api.simps
  proof (rule item_serde_codec)
    fix d
    assume "Dir_ok d"
    moreover have "those (map item_Child (map Child_item (dir_children d))) = Some (dir_children d)"
      by (intro those_map_Some) (simp add: item_Child_inverse)
    ultimately show "item_ok (Dir_item d) \<and> item_Dir (Dir_item d) = Some d"
      by (auto simp: Dir_item_def item_Dir_def Dir_ok_def list_all_iff Child_item_ok)
  qed
  then show "from_reader (s_dir (shift_api ni)) (to_writer (s_dir (shift_api ni)) d) = Some d"
    using \<open>Dir_ok d\<close> by (rule serde_codec.read_written)
qed (simp_all add: shift_api_def comp_def)

lemma shift_frontend_codec: "frontend_codec (shift_api ni)"
  by (rule shift.frontend_codec_axioms)

section \<open>A folder with one file\<close>

definition demo_rnd :: "nat \<Rightarrow> nat \<Rightarrow> Key \<times> u8 list" where
  "demo_rnd n i = (replicate 16 (of_nat (n + i)), replicate 16 (of_nat (n + i)))"

definition demo_folder :: path where
  "demo_folder = (False, [[102]])"

definition demo_kids :: "(u8 list \<times> tree) list" where
  "demo_kids = [([97], TFile [104, 105])]"

definition demo_leaf :: Full where
  "demo_leaf =
     (let bytes = replicate 16 1 @ map (\<lambda>b. b + 1) (enc_item (bytes_item [104, 105]))
      in \<lparr>full_id = take 32 (bytes @ replicate 32 0), full_data = bytes\<rparr>)"

definition demo_child :: Child where
  "demo_child = \<lparr>child_name = [97], child_metadata = (), child_type = BlockType.Leaf,
     child_blockref = BlockRef (full_id demo_leaf) (replicate 16 1) []\<rparr>"

definition demo_dir :: Full where
  "demo_dir =
     (let bytes = replicate 16 2 @ map (\<lambda>b. b + 2) (enc_item (Dir_item \<lparr>dir_children = [demo_child]\<rparr>))
      in \<lparr>full_id = take 32 (bytes @ replicate 32 0), full_data = bytes\<rparr>)"

definition demo_root :: BlockRef where
  "demo_root = BlockRef (full_id demo_dir) (replicate 16 2) []"

definition demo_db :: BlockDb where
  "demo_db = BlockDb_new demo_root [full_id demo_leaf \<mapsto> Full demo_leaf, full_id demo_dir \<mapsto> Full demo_dir]"

lemma demo_rnd_ok: "rnd_ok (demo_rnd n)"
  by (simp add: rnd_ok_def demo_rnd_def Key_ok_def)

lemma demo_kids_ok: "tree_ok (TDir demo_kids)" "kids_depth demo_kids = 0" "tree_count (TDir demo_kids) = 2"
  by (simp_all add: demo_kids_def plain_name_def slash_def dot_def)

lemma demo_ids: "full_id demo_leaf \<noteq> full_id demo_dir" "length (full_id demo_leaf) = 32"
  "length (full_id demo_dir) = 32"
proof -
  have "hd (full_id demo_leaf) = 1" "hd (full_id demo_dir) = 2"
    by (simp_all add: demo_leaf_def demo_dir_def Let_def numeral_eq_Suc)
  then show "full_id demo_leaf \<noteq> full_id demo_dir" by auto
qed (simp_all add: demo_leaf_def demo_dir_def Let_def)

lemma demo_db_from_folder:
  "blockdb_from_folder (shift_api ni) (demo_rnd 1) demo_folder True
     (map Some (walk_tree demo_folder (TDir demo_kids))) = Inr demo_db"
  by (simp add: demo_folder_def demo_kids_def blockdb_from_folder_def folder_step_def FolderWalk_new_def
      folder_file_def folder_dir_def Leaf_to_block_def Dir_to_block_def to_block_def demo_rnd_def
      path_parent_def path_snoc_def entry_file_name_def push_child_def to_string_lossy.simps utf8_unit_def
      shift_api_def item_serde_def demo_db_def demo_root_def BlockRef_new_def Let_def dot_def
      demo_leaf_def demo_dir_def demo_child_def)

lemma demo_db_card: "card (dom (db_blocks demo_db)) = tree_count (TDir demo_kids)"
  using demo_ids(1) by (simp add: demo_db_def BlockDb_new_def demo_kids_def card_insert_if)

lemma shift_serde:
  "to_writer (s_dir (shift_api ni)) d = enc_item (Dir_item d)"
  "to_writer (s_leaf (shift_api ni)) bs = enc_item (bytes_item bs)"
  "to_writer (s_meta (shift_api ni)) m = enc_item (Meta_item m)"
  by (simp_all add: shift_api_def item_serde_def)

lemma shift_from_full:
  assumes "full_data f = iv @ map (\<lambda>b. b + hd k) (to_writer S x)" and "length iv = 16"
    and "from_reader S (to_writer S x) = Some x"
  shows "from_full (shift_api ni) S f k = Inr (Some x)"
  using assms by (simp add: from_full_def shift_api_def comp_def)

lemma demo_from_full:
  "Dir_from_full (shift_api ni) demo_dir (replicate 16 2) = Inr (Some \<lparr>dir_children = [demo_child]\<rparr>)"
  "Leaf_from_full (shift_api ni) demo_leaf (replicate 16 1) = Inr (Some \<lparr>leaf_data = [104, 105]\<rparr>)"
proof -
  have "Dir_ok \<lparr>dir_children = [demo_child]\<rparr>"
    using demo_ids(2) by (simp add: Dir_ok_def Child_ok_def demo_child_def BlockId_ok_def Key_ok_def)
  then have "from_full (shift_api ni) (s_dir (shift_api ni)) demo_dir (replicate 16 2)
      = Inr (Some \<lparr>dir_children = [demo_child]\<rparr>)"
    by (intro shift_from_full [of _ "replicate 16 2"] shift.dir.read_written)
      (simp_all add: demo_dir_def Let_def shift_serde numeral_eq_Suc)
  then show "Dir_from_full (shift_api ni) demo_dir (replicate 16 2) = Inr (Some \<lparr>dir_children = [demo_child]\<rparr>)"
    by (simp add: Dir_from_full_def)
  have "from_full (shift_api ni) (s_leaf (shift_api ni)) demo_leaf (replicate 16 1) = Inr (Some [104, 105])"
    by (intro shift_from_full [of _ "replicate 16 1"] shift.leaf.read_written)
      (simp_all add: demo_leaf_def Let_def shift_serde numeral_eq_Suc)
  then show "Leaf_from_full (shift_api ni) demo_leaf (replicate 16 1) = Inr (Some \<lparr>leaf_data = [104, 105]\<rparr>)"
    by (simp add: Leaf_from_full_def)
qed

lemma demo_blocks:
  "db_blocks demo_db (full_id demo_dir) = Some (Full demo_dir)"
  "db_blocks demo_db (full_id demo_leaf) = Some (Full demo_leaf)"
  "db_root demo_db = demo_root" "db_pending_root demo_db = None"
  using demo_ids(1) by (simp_all add: demo_db_def BlockDb_new_def)

end
