(* ===== verification/Frontend_Properties.thy ===== *)
theory Frontend_Properties
  imports Traversal Frontend_Items
begin

text \<open>
  The theorems about the frontend of version 2: the round trip of a folder through the block
  database, what \<open>verify\<close> decides, and two ways in which a received database can do harm.
\<close>

section \<open>Round trip\<close>

text \<open>
  C7: The block database of a folder, written out again, is the folder. Building the database of any tree
  (files, nested directories, symbolic links, other entries) ends without panic. If no two of its
  blocks got the same digest, writing it to a folder removes what was there and leaves exactly the
  files and directories of the tree with their contents, symbolic links and other entries left out,
  and nothing outside the folder changes.
\<close>

theorem folder_roundtrip:
  assumes "frontend_codec A" and "rnd_ok rnd" and "tree_ok (TDir kids)" and "snd folder \<noteq> []"
    and "resolve_path cwd folder' = P" and "P \<noteq> []" and "fs P = Some FsDir"
    and "fs (butlast P) = Some FsDir" and "kids_depth kids \<le> fuel"
  shows "\<exists>db. blockdb_from_folder A rnd folder True (map Some (walk_tree folder (TDir kids))) = Inr db \<and>
    (card (dom (db_blocks db)) = tree_count (TDir kids) \<longrightarrow>
       write_to_dir A fuel db cwd folder' fs =
         Inr (\<lambda>q. if take (length P) q = P then map_of (tree_nodes P (TDir kids)) q else fs q))"
proof -
  have "path_parent folder = Some (fst folder, butlast (snd folder))"
    using assms(4) by (simp add: path_parent_def)
  from frontend_codec.folder_db_holds [OF assms(1-3) this, of "supports_aesni A"]
  obtain db where "blockdb_from_folder A rnd folder True (map Some (walk_tree folder (TDir kids))) = Inr db"
    and "card (dom (db_blocks db)) = tree_count (TDir kids) \<longrightarrow> holds A db (TDir kids) Directory (db_root db)"
    by auto
  then show ?thesis using write_to_dir_holds [OF _ assms(3,9,5-8)] by blast
qed

definition demo_fs :: fs2 where
  "demo_fs = [[] \<mapsto> FsDir, [[103]] \<mapsto> FsDir, [[103], [111]] \<mapsto> FsFile [1]]"

theorem folder_roundtrip_witness:
  "blockdb_from_folder (shift_api True) (demo_rnd 1) demo_folder True
     (map Some (walk_tree demo_folder (TDir demo_kids))) = Inr demo_db \<and>
   write_to_dir (shift_api True) 1 demo_db [] (False, [[103]]) demo_fs =
     Inr (\<lambda>q. if take 1 q = [[103]] then map_of (tree_nodes [[103]] (TDir demo_kids)) q else demo_fs q)"
proof -
  have "resolve_path [] (False, [[103]]) = [[103::u8]]" "demo_fs [[103]] = Some FsDir"
    "demo_fs (butlast [[103]]) = Some FsDir" "snd demo_folder \<noteq> []"
    by (simp_all add: resolve_path_def has_root_def dot_def demo_fs_def demo_folder_def)
  from folder_roundtrip [OF shift_frontend_codec [of True] demo_rnd_ok [of 1] demo_kids_ok(1) this(4,1) _ this(2,3), of 1]
  obtain db where db: "blockdb_from_folder (shift_api True) (demo_rnd 1) demo_folder True
      (map Some (walk_tree demo_folder (TDir demo_kids))) = Inr db"
    and wr: "card (dom (db_blocks db)) = tree_count (TDir demo_kids) \<longrightarrow>
      write_to_dir (shift_api True) 1 db [] (False, [[103]]) demo_fs =
        Inr (\<lambda>q. if take (length [[103]]) q = [[103]] then map_of (tree_nodes [[103]] (TDir demo_kids)) q
          else demo_fs q)"
    by (auto simp: demo_kids_ok(2) simp del: walk_tree.simps)
  have "db = demo_db" using db demo_db_from_folder [of True] by (metis sum.inject(2))
  then show ?thesis using db wr demo_db_card by simp
qed

section \<open>Completeness\<close>

text \<open>
  C14: \<open>verify\<close> decides whether a folder has arrived. Let a store \<open>ref\<close> hold the folder below the root,
  and let every block that is complete in the store at hand be the block of \<open>ref\<close>; any others may be
  missing or arrived in part. If the root block is complete and the stack is as deep as the folder,
  \<open>verify\<close> returns, and its answer is whether every block that can be reached from the root through
  directories (the directories, files and meta blocks themselves) is in the store and complete. If it
  is true, the store holds the whole folder. If the root block is not complete, it panics.
\<close>

theorem verify_iff_complete:
  assumes "holds A ref t Directory root" and "agrees db ref" and "tree_depth t \<le> fuel"
    and "traverse_root db pending = Inr root"
  shows "if is_full db (blockid root) then
      verify A fuel db pending =
        Inr (\<forall>ty r. reaches A db (Directory, root) (ty, r) \<longrightarrow> is_full db (blockid r)) \<and>
      (verify A fuel db pending = Inr True \<longrightarrow> holds A db t Directory root)
    else \<exists>p. verify A fuel db pending = Inl (Panic p)"
proof (cases "is_full db (blockid root)")
  case True
  from verify_returns [OF assms(1-3) True assms(4)]
  have v: "verify A fuel db pending = Inr (all_full A db Directory root)" .
  then have "verify A fuel db pending = Inr True \<longrightarrow> holds A db t Directory root"
    using holds_agrees(1) [OF assms(1,2)] by simp
  with v True show ?thesis unfolding all_full_def by simp
next
  case False
  then show ?thesis using verify_no_root [OF False assms(4)] by simp
qed

text \<open>The folder of the example, and the same store before the block of its file has arrived.\<close>

lemma demo_holds: "holds (shift_api ni) demo_db (TDir demo_kids) Directory demo_root"
  using demo_blocks demo_from_full
  by (simp add: demo_kids_def demo_root_def demo_child_def get_decoded_def BlockDb_get_def unwrap_opt_def)

definition demo_db_cut :: BlockDb where
  "demo_db_cut = demo_db\<lparr>db_blocks := [full_id demo_dir \<mapsto> Full demo_dir]\<rparr>"

lemma demo_db_cut_blocks:
  "db_blocks demo_db_cut (full_id demo_dir) = Some (Full demo_dir)" "db_blocks demo_db_cut (full_id demo_leaf) = None"
  "db_root demo_db_cut = demo_root"
  using demo_ids(1) demo_blocks(3) by (simp_all add: demo_db_cut_def)

theorem verify_iff_complete_witness:
  "verify (shift_api True) 1 demo_db False = Inr True \<and>
   verify (shift_api True) 1 demo_db_cut False = Inr False"
proof -
  let ?A = "shift_api True"
  have depth: "tree_depth (TDir demo_kids) \<le> 1" by (simp add: demo_kids_ok(2))
  have root: "traverse_root demo_db False = Inr demo_root" "traverse_root demo_db_cut False = Inr demo_root"
    by (simp_all add: traverse_root_def BlockDb_root_def demo_blocks(3) demo_db_cut_blocks(3))
  have i: "blockid demo_root = full_id demo_dir" by (simp add: demo_root_def)
  have full: "is_full demo_db (blockid demo_root)" "is_full demo_db_cut (blockid demo_root)"
    unfolding i by (rule is_full_iff(3), rule demo_blocks demo_db_cut_blocks)+
  have agree: "agrees demo_db demo_db" "agrees demo_db_cut demo_db"
    using demo_blocks(1) by (auto simp: agrees_def full_at_def demo_db_cut_def split: if_splits)
  have kid: "get_decoded (Dir_from_full ?A) db (blockid demo_root) (key demo_root) = Inr \<lparr>dir_children = [demo_child]\<rparr>"
    if "db_blocks db (full_id demo_dir) = Some (Full demo_dir)" for db
    using that demo_from_full(1) by (simp add: get_decoded_def BlockDb_get_def demo_root_def unwrap_opt_def)
  have "all_full ?A demo_db Directory demo_root"
    unfolding all_full_Directory [OF kid [OF demo_blocks(1)]]
    by (simp add: full(1) demo_child_def all_full_other is_full_iff(3) [OF demo_blocks(2)])
  moreover have "\<not> all_full ?A demo_db_cut Directory demo_root"
    unfolding all_full_Directory [OF kid [OF demo_db_cut_blocks(1)]]
    by (simp add: demo_child_def all_full_other is_full_def demo_db_cut_blocks(2))
  ultimately show ?thesis
    using verify_iff_complete [OF demo_holds agree(1) depth root(1)]
      verify_iff_complete [OF demo_holds agree(2) depth root(2)] full
    unfolding all_full_def by auto
qed

section \<open>What a received database can do\<close>

text \<open>Blocks sealed with a key of one repeated byte, for the examples.\<close>

definition sealed :: "u8 \<Rightarrow> 'a serde \<Rightarrow> 'a \<Rightarrow> Full" where
  "sealed n S x =
     (let bytes = replicate 16 n @ map (\<lambda>b. b + n) (to_writer S x)
      in \<lparr>full_id = take 32 (bytes @ replicate 32 0), full_data = bytes\<rparr>)"

lemma sealed_from_full:
  "from_reader S (to_writer S x) = Some x \<Longrightarrow>
   from_full (shift_api ni) S (sealed n S x) (replicate 16 n) = Inr (Some x)"
  by (rule shift_from_full [of _ "replicate 16 n"]) (simp_all add: sealed_def Let_def numeral_eq_Suc)

lemma sealed_id: "length (full_id (sealed n S x)) = 32" "hd (full_id (sealed n S x)) = n"
  by (simp_all add: sealed_def Let_def numeral_eq_Suc)

lemma sealed_id_neq: "n \<noteq> m \<Longrightarrow> full_id (sealed n S x) \<noteq> full_id (sealed m T y)"
  by (metis sealed_id(2))

definition sealed_child :: "u8 list \<Rightarrow> BlockType \<Rightarrow> Full \<Rightarrow> u8 \<Rightarrow> Child" where
  "sealed_child nm ty f n = \<lparr>child_name = nm, child_metadata = (), child_type = ty,
     child_blockref = BlockRef (full_id f) (replicate 16 n) []\<rparr>"

definition sealed_dir :: "u8 \<Rightarrow> Child \<Rightarrow> Full" where
  "sealed_dir n c = sealed n (s_dir (shift_api True)) \<lparr>dir_children = [c]\<rparr>"

lemma sealed_dir_from_full:
  assumes "Child_ok c"
  shows "Dir_from_full (shift_api True) (sealed_dir n c) (replicate 16 n) = Inr (Some \<lparr>dir_children = [c]\<rparr>)"
proof -
  have "Dir_ok \<lparr>dir_children = [c]\<rparr>" using assms by (simp add: Dir_ok_def)
  then show ?thesis
    unfolding Dir_from_full_def sealed_dir_def by (intro sealed_from_full shift.dir.read_written)
qed

text \<open>
  C31: \<open>verify\<close> does not look at the leaves of a file stored in several blocks: a database whose root has a
  meta block with a leaf that never arrived is reported complete, and writing it out panics after the
  old folder has been removed.
\<close>

theorem meta_leaves_unverified:
  assumes "db_blocks db (blockid (db_root db)) = Some (Full f)"
    and "Dir_from_full A f (key (db_root db)) = Inr (Some \<lparr>dir_children = [c]\<rparr>)"
    and "child_type c = FileMeta" and "db_blocks db (blockid (child_blockref c)) = Some (Full g)"
    and "Meta_from_full A g (key (child_blockref c)) = Inr (Some \<lparr>meta_blocks = r # rs\<rparr>)"
    and "db_blocks db (blockid r) = None" and "plain_name (child_name c)"
    and "resolve_path cwd folder = P" and "P \<noteq> []" and "fs P = Some FsDir"
    and "fs (butlast P) = Some FsDir"
  shows "verify A (Suc fuel) db False = Inr True \<and>
    write_to_dir A fuel db cwd folder fs = Inl (Panic UnwrapNone)"
proof
  show "verify A (Suc fuel) db False = Inr True"
    using assms(1-5)
    by (simp add: verify_def traverse_root_def BlockDb_root_def traverse_def BlockDb_get_def
        traverse_rec.simps traverse_children.simps contains_def decode_as_def unwrap_opt_def Let_def)
  let ?fs1 = "\<lambda>q. if take (length P) q = P then None else fs q"
  have cd: "create_dir ?fs1 P = Inr (?fs1(P \<mapsto> FsDir))"
    using assms(9,11) by (simp add: create_dir_def butlast_neq)
  have "resolve_path cwd (path_join folder (Path_new (child_name c))) = P @ [child_name c]"
    using assms(7,8) by (simp add: path_join_plain resolve_path_snoc)
  then show "write_to_dir A fuel db cwd folder fs = Inl (Panic UnwrapNone)"
    using assms cd
    by (simp add: write_to_dir_def remove_dir_all_def BlockDb_root_def get_decoded_def BlockDb_get_def
        unwrap_opt_def write_to_dir_rec.simps Let_def File_create_def)
qed

definition meta_example :: Meta where
  "meta_example = \<lparr>meta_blocks = [BlockRef (replicate 32 9) (replicate 16 9) []]\<rparr>"

definition meta_block :: Full where
  "meta_block = sealed 3 (s_meta (shift_api True)) meta_example"

definition meta_child :: Child where
  "meta_child = sealed_child [97] FileMeta meta_block 3"

definition meta_db :: BlockDb where
  "meta_db = BlockDb_new (BlockRef (full_id (sealed_dir 4 meta_child)) (replicate 16 4) [])
     [full_id meta_block \<mapsto> Full meta_block,
      full_id (sealed_dir 4 meta_child) \<mapsto> Full (sealed_dir 4 meta_child)]"

theorem meta_leaves_unverified_witness:
  "verify (shift_api True) (Suc 5) meta_db False = Inr True \<and>
   write_to_dir (shift_api True) 5 meta_db [] (False, [[103]]) demo_fs = Inl (Panic UnwrapNone)"
proof (rule meta_leaves_unverified [where f = "sealed_dir 4 meta_child" and c = meta_child
      and g = meta_block and r = "BlockRef (replicate 32 9) (replicate 16 9) []" and rs = "[]" and P = "[[103]]"])
  have ids: "full_id (sealed_dir 4 meta_child) \<noteq> full_id meta_block"
    "replicate 32 9 \<noteq> full_id (sealed_dir 4 meta_child)" "replicate 32 9 \<noteq> full_id meta_block"
    by (auto simp: sealed_dir_def meta_block_def sealed_id dest!: arg_cong [where f = hd])
  show "db_blocks meta_db (blockid (db_root meta_db)) = Some (Full (sealed_dir 4 meta_child))"
    by (simp add: meta_db_def BlockDb_new_def)
  have "Child_ok meta_child"
    by (simp add: meta_child_def sealed_child_def Child_ok_def BlockId_ok_def Key_ok_def meta_block_def sealed_id)
  then show "Dir_from_full (shift_api True) (sealed_dir 4 meta_child) (key (db_root meta_db))
      = Inr (Some \<lparr>dir_children = [meta_child]\<rparr>)"
    by (simp add: meta_db_def BlockDb_new_def sealed_dir_from_full)
  show "db_blocks meta_db (blockid (child_blockref meta_child)) = Some (Full meta_block)"
    using ids by (simp add: meta_db_def BlockDb_new_def meta_child_def sealed_child_def)
  have "Meta_ok meta_example" by (simp add: Meta_ok_def meta_example_def BlockId_ok_def Key_ok_def)
  from sealed_from_full [OF shift.meta.read_written [where ni = True, OF this], where n = 3 and ni = True]
  show "Meta_from_full (shift_api True) meta_block (key (child_blockref meta_child))
      = Inr (Some \<lparr>meta_blocks = [BlockRef (replicate 32 9) (replicate 16 9) []]\<rparr>)"
    by (simp add: Meta_from_full_def meta_child_def sealed_child_def meta_block_def meta_example_def)
  show "db_blocks meta_db (blockid (BlockRef (replicate 32 9) (replicate 16 9) [])) = None"
    using ids by (simp add: meta_db_def BlockDb_new_def)
qed (simp_all add: meta_child_def sealed_child_def plain_name_def slash_def dot_def resolve_path_def
    has_root_def demo_fs_def)

text \<open>
  C32: Names of children are joined to the folder unchecked: a received directory with a child named
  \<^verbatim>\<open>../x\<close> makes the server create or overwrite the file \<^verbatim>\<open>x\<close> beside its folder.
\<close>

theorem write_to_dir_escapes:
  assumes "db_blocks db (blockid (db_root db)) = Some (Full f)"
    and "Dir_from_full A f (key (db_root db)) = Inr (Some \<lparr>dir_children = [c]\<rparr>)"
    and "child_type c = BlockType.Leaf" and "db_blocks db (blockid (child_blockref c)) = Some (Full g)"
    and "Leaf_from_full A g (key (child_blockref c)) = Inr (Some \<lparr>leaf_data = bs\<rparr>)"
    and "child_name c = dot # dot # slash # x" and "plain_name x"
    and "resolve_path cwd folder = P" and "P \<noteq> []" and "fs P = Some FsDir"
    and "fs (butlast P) = Some FsDir" and "fs (butlast P @ [x]) \<noteq> Some FsDir"
  shows "\<exists>fs'. write_to_dir A fuel db cwd folder fs = Inr fs' \<and> fs' (butlast P @ [x]) = Some (FsFile bs)"
proof -
  let ?fs1 = "\<lambda>q. if take (length P) q = P then None else fs q"
  let ?q = "butlast P @ [x]"
  have neq: "?q \<noteq> P" using assms(10,12) by auto
  have "length ?q = length P" using assms(9) by simp
  then have out: "take (length P) ?q \<noteq> P" using neq by (metis order_refl take_all)
  have cd: "create_dir ?fs1 P = Inr (?fs1(P \<mapsto> FsDir))"
    using assms(9,11) by (simp add: create_dir_def butlast_neq)
  have "Path_new (child_name c) = (False, [[dot, dot], x])"
    using assms(6,7) split_slash_plain [of x]
    by (auto simp: Path_new_def plain_name_def dot_def slash_def)
  then have "resolve_path cwd (path_join folder (Path_new (child_name c))) = ?q"
    using assms(7,8) resolve_from_snoc [of x] resolve_from_dotdot
    by (simp add: path_join_def has_root_def resolve_path_def plain_name_def)
  then show ?thesis
    using assms(1-5,8-12) cd neq out
    by (auto simp: write_to_dir_def remove_dir_all_def BlockDb_root_def get_decoded_def BlockDb_get_def
        unwrap_opt_def write_to_dir_rec.simps Let_def File_create_def file_write_all_def butlast_neq
        split: option.splits FsNode.splits)
qed

definition evil_leaf :: Full where
  "evil_leaf = sealed 5 (s_leaf (shift_api True)) [66]"

definition evil_child :: Child where
  "evil_child = sealed_child [dot, dot, slash, 104] BlockType.Leaf evil_leaf 5"

definition evil_db :: BlockDb where
  "evil_db = BlockDb_new (BlockRef (full_id (sealed_dir 6 evil_child)) (replicate 16 6) [])
     [full_id evil_leaf \<mapsto> Full evil_leaf,
      full_id (sealed_dir 6 evil_child) \<mapsto> Full (sealed_dir 6 evil_child)]"

theorem write_to_dir_escapes_witness:
  "\<exists>fs'. write_to_dir (shift_api True) 5 evil_db [] (False, [[103]]) demo_fs = Inr fs' \<and>
     fs' (butlast [[103]] @ [[104]]) = Some (FsFile [66])"
proof (rule write_to_dir_escapes [where f = "sealed_dir 6 evil_child" and c = evil_child and g = evil_leaf])
  have ids: "full_id (sealed_dir 6 evil_child) \<noteq> full_id evil_leaf"
    by (simp add: sealed_dir_def evil_leaf_def sealed_id_neq)
  show "db_blocks evil_db (blockid (db_root evil_db)) = Some (Full (sealed_dir 6 evil_child))"
    by (simp add: evil_db_def BlockDb_new_def)
  have "Child_ok evil_child"
    by (simp add: evil_child_def sealed_child_def Child_ok_def BlockId_ok_def Key_ok_def evil_leaf_def sealed_id
        dot_def slash_def)
  then show "Dir_from_full (shift_api True) (sealed_dir 6 evil_child) (key (db_root evil_db))
      = Inr (Some \<lparr>dir_children = [evil_child]\<rparr>)"
    by (simp add: evil_db_def BlockDb_new_def sealed_dir_from_full)
  show "db_blocks evil_db (blockid (child_blockref evil_child)) = Some (Full evil_leaf)"
    using ids by (simp add: evil_db_def BlockDb_new_def evil_child_def sealed_child_def)
  from sealed_from_full [OF shift.leaf.read_written [where ni = True and x = "[66]", OF TrueI],
      where n = 5 and ni = True]
  show "Leaf_from_full (shift_api True) evil_leaf (key (child_blockref evil_child))
      = Inr (Some \<lparr>leaf_data = [66]\<rparr>)"
    by (simp add: Leaf_from_full_def evil_child_def sealed_child_def evil_leaf_def)
qed (simp_all add: evil_child_def sealed_child_def plain_name_def slash_def dot_def resolve_path_def
    has_root_def demo_fs_def)

end
