(* ===== verification/Sync_Run.thy ===== *)
theory Sync_Run
  imports Sync Frontend_Properties
begin

text \<open>
  A scheduler for the system of a client and a server, and one synchronisation run to its end with it:
  the witness that the theorem on the system speaks of runs that deliver the folder.
\<close>

section \<open>Scheduler\<close>

datatype sync_act =
    ClientTask nat bool
  | ServerTask nat bool
  | ClientRecv nat
  | ServerRecv nat

text \<open>The state with the datagrams in the order they were sent.\<close>

type_synonym sync_state = "Node \<times> Node \<times> u8 list list \<times> u8 list list"

definition sync_of :: "sync_state \<Rightarrow> Sync" where
  "sync_of x = (case x of (c, s, up, down) \<Rightarrow>
     \<lparr>sy_client = c, sy_server = s, to_server = set up, to_client = set down\<rparr>)"

definition run_act :: "sync_env \<Rightarrow> sync_state \<Rightarrow> sync_act \<Rightarrow> sync_state option" where
  "run_act Y x act =
     (case x of (c, s, up, down) \<Rightarrow>
      case act of
        ClientTask i d \<Rightarrow>
          (case node_task c i d of
             Inr (n, None) \<Rightarrow> Some (n, s, up, down)
           | Inr (n, Some (m, a)) \<Rightarrow>
               (case sync_encode Y m of
                  Inr bs \<Rightarrow> Some (n, s, if a = y_server_addr Y then up @ [bs] else up, down)
                | Inl _ \<Rightarrow> None)
           | Inl _ \<Rightarrow> None)
      | ServerTask i d \<Rightarrow>
          (case node_task s i d of
             Inr (n, None) \<Rightarrow> Some (c, n, up, down)
           | Inr (n, Some (m, a)) \<Rightarrow>
               (case sync_encode Y m of
                  Inr bs \<Rightarrow> Some (c, n, up, if a = y_client_addr Y then down @ [bs] else down)
                | Inl _ \<Rightarrow> None)
           | Inl _ \<Rightarrow> None)
      | ClientRecv i \<Rightarrow>
          if i < length down then
            (case sync_decode Y (down ! i) of
               Inr (Some m, _) \<Rightarrow>
                 (case node_recv (y_client Y) 0 c (y_server_addr Y) m of
                    Inr n \<Rightarrow> Some (n, s, up, down) | Inl _ \<Rightarrow> None)
             | _ \<Rightarrow> None)
          else None
      | ServerRecv i \<Rightarrow>
          if i < length up then
            (case sync_decode Y (up ! i) of
               Inr (Some m, _) \<Rightarrow>
                 (case node_recv (y_server Y) 0 s (y_client_addr Y) m of
                    Inr n \<Rightarrow> Some (c, n, up, down) | Inl _ \<Rightarrow> None)
             | _ \<Rightarrow> None)
          else None)"

fun sync_run :: "sync_env \<Rightarrow> sync_state \<Rightarrow> sync_act list \<Rightarrow> sync_state option" where
  "sync_run Y x [] = Some x"
| "sync_run Y x (a # as) = (case run_act Y x a of None \<Rightarrow> None | Some x' \<Rightarrow> sync_run Y x' as)"

lemma run_act_step: "run_act Y x a = Some x' \<Longrightarrow> sync_step Y (sync_of x) (sync_of x')"
proof -
  obtain c s up down where x: "x = (c, s, up, down)" by (cases x)
  assume run: "run_act Y x a = Some x'"
  show ?thesis
  proof (cases a)
    case (ClientTask i d)
    with run x obtain n sent where nt: "node_task c i d = Inr (n, sent)"
      by (auto simp: run_act_def split: sum.splits)
    show ?thesis
    proof (cases sent)
      case None
      then show ?thesis
        using run x ClientTask nt sync_step.client_silent [of Y "sync_of x" n]
        by (auto simp: run_act_def sync_of_def intro: node_step.silent)
    next
      case (Some ma)
      obtain m adr where ma: "ma = (m, adr)" by (cases ma)
      with run x ClientTask nt Some obtain bs where bs: "sync_encode Y m = Inr bs"
        "x' = (n, s, if adr = y_server_addr Y then up @ [bs] else up, down)"
        by (auto simp: run_act_def split: sum.splits)
      have "node_step (y_client Y) (sy_client (sync_of x)) (Sent adr m) n"
        using nt Some ma x by (auto simp: sync_of_def intro: node_step.send)
      from sync_step.client_sends [OF this bs(1)] show ?thesis
        using bs(2) x by (cases "adr = y_server_addr Y") (simp_all add: sync_of_def)
    qed
  next
    case (ServerTask i d)
    with run x obtain n sent where nt: "node_task s i d = Inr (n, sent)"
      by (auto simp: run_act_def split: sum.splits)
    show ?thesis
    proof (cases sent)
      case None
      then show ?thesis
        using run x ServerTask nt sync_step.server_silent [of Y "sync_of x" n]
        by (auto simp: run_act_def sync_of_def intro: node_step.silent)
    next
      case (Some ma)
      obtain m adr where ma: "ma = (m, adr)" by (cases ma)
      with run x ServerTask nt Some obtain bs where bs: "sync_encode Y m = Inr bs"
        "x' = (c, n, up, if adr = y_client_addr Y then down @ [bs] else down)"
        by (auto simp: run_act_def split: sum.splits)
      have "node_step (y_server Y) (sy_server (sync_of x)) (Sent adr m) n"
        using nt Some ma x by (auto simp: sync_of_def intro: node_step.send)
      from sync_step.server_sends [OF this bs(1)] show ?thesis
        using bs(2) x by (cases "adr = y_client_addr Y") (simp_all add: sync_of_def)
    qed
  next
    case (ClientRecv i)
    with run x obtain m rest n where "i < length down" "sync_decode Y (down ! i) = Inr (Some m, rest)"
      "node_recv (y_client Y) 0 c (y_server_addr Y) m = Inr n" "x' = (n, s, up, down)"
      by (auto simp: run_act_def split: if_splits sum.splits option.splits)
    then show ?thesis
      using x sync_step.client_receives [of "down ! i" "sync_of x" Y m rest n]
      by (auto simp: sync_of_def intro: node_step.receive)
  next
    case (ServerRecv i)
    with run x obtain m rest n where "i < length up" "sync_decode Y (up ! i) = Inr (Some m, rest)"
      "node_recv (y_server Y) 0 s (y_client_addr Y) m = Inr n" "x' = (c, n, up, down)"
      by (auto simp: run_act_def split: if_splits sum.splits option.splits)
    then show ?thesis
      using x sync_step.server_receives [of "up ! i" "sync_of x" Y m rest n]
      by (auto simp: sync_of_def intro: node_step.receive)
  qed
qed

lemma sync_run_steps: "sync_run Y x as = Some x' \<Longrightarrow> (sync_step Y)\<^sup>*\<^sup>* (sync_of x) (sync_of x')"
  by (induction as arbitrary: x)
    (auto split: option.splits intro: converse_rtranclp_into_rtranclp run_act_step)

end
