(* ===== verification/Sync_Demo.thy ===== *)
theory Sync_Demo
  imports Sync_Run
begin

text \<open>
  A complete synchronisation: a client with one file, a server with an empty folder, and the theorem on
  the system applied at the end of the run.
\<close>

definition demo_client_env :: env2 where
  "demo_client_env = \<lparr>e_api = shift_api True, e_stack = 5, e_cwd = [], e_keys = (\<lambda>_. [([2], 2)])\<rparr>"

definition demo_server_env :: env2 where
  "demo_server_env = \<lparr>e_api = shift_api False, e_stack = 5, e_cwd = [], e_keys = (\<lambda>_. [([1], 1)])\<rparr>"

definition demo_sync :: sync_env where
  "demo_sync = \<lparr>y_client = demo_client_env, y_server = demo_server_env, y_varint = leb_api,
     y_serde = item_msgs, y_room = 8192, y_client_addr = ([1], 1), y_server_addr = ([2], 2)\<rparr>"

definition demo_nonce :: "u8 list" where
  "demo_nonce = replicate 12 5"

definition demo_parse :: "u8 list \<Rightarrow> u8 list option" where
  "demo_parse host = Some host"

definition demo_client_opt :: Opt2 where
  "demo_client_opt = \<lparr>opt2_server = False, opt2_port = 2, opt2_host = [2], opt2_files = demo_folder,
     opt2_pps = 100\<rparr>"

definition demo_server_opt :: Opt2 where
  "demo_server_opt = \<lparr>opt2_server = True, opt2_port = 2, opt2_host = [2], opt2_files = (False, [[103]]),
     opt2_pps = 100\<rparr>"

definition demo_server_dir :: Full where
  "demo_server_dir = sealed 7 (s_dir (shift_api False)) \<lparr>dir_children = []\<rparr>"

definition demo_server_db :: BlockDb where
  "demo_server_db = BlockDb_new (BlockRef (full_id demo_server_dir) (replicate 16 7) [])
     [full_id demo_server_dir \<mapsto> Full demo_server_dir]"

definition demo_client_node :: Node where
  "demo_client_node = (let (h, ts) = connect (Handler_new demo_folder 10000000 demo_db Map.empty) ([2], 2) 0 demo_nonce
     in \<lparr>nd_handler = h, nd_tasks = ts\<rparr>)"

definition demo_server_node :: Node where
  "demo_server_node = \<lparr>nd_handler = Handler_new (False, [[103]]) 10000000 demo_server_db demo_fs, nd_tasks = []\<rparr>"

lemma demo_client_node_start:
  "scsync_main demo_client_env demo_parse (demo_rnd 1) demo_client_opt True
     (map Some (walk_tree demo_folder (TDir demo_kids))) Map.empty 0 demo_nonce = Inr demo_client_node"
  using demo_db_from_folder [of True]
  by (simp add: scsync_main_def demo_parse_def demo_client_opt_def demo_client_env_def packet_delay_def
      demo_client_node_def connect_def Let_def del: walk_tree.simps)

lemma demo_server_node_start:
  "scsync_main demo_server_env demo_parse (demo_rnd 7) demo_server_opt True
     (map Some (walk_tree (False, [[103]]) (TDir []))) demo_fs 0 [] = Inr demo_server_node"
  by (simp add: scsync_main_def demo_parse_def demo_server_opt_def demo_server_env_def packet_delay_def
      demo_server_node_def blockdb_from_folder_def folder_step_def FolderWalk_new_def folder_dir_def Dir_to_block_def
      to_block_def demo_rnd_def path_parent_def demo_server_db_def demo_server_dir_def sealed_def
      BlockRef_new_def Let_def shift_api_def)

lemma bytes_item_short:
  "\<forall>b \<in> set bs. unat b < 128 \<Longrightarrow> length (enc_item (bytes_item bs)) = 2 + 2 * length bs"
proof -
  have "\<forall>b \<in> set bs. unat b < 128 \<Longrightarrow>
      length (concat (map (enc_item \<circ> (\<lambda>b. Num (unat b))) bs)) = 2 * length bs"
    by (induction bs) (auto simp: leb_enc.simps)
  then show "\<forall>b \<in> set bs. unat b < 128 \<Longrightarrow> ?thesis" by (simp add: bytes_item_def)
qed

lemma demo_leaf_data: "full_data demo_leaf = replicate 16 1 @ [2, 1, 105, 1, 106, 3]"
  by (simp add: demo_leaf_def Let_def bytes_item_def leb_enc.simps)

lemma demo_lengths: "length (full_data demo_leaf) = 22" "length (full_data demo_dir) = 130"
proof -
  have "set (full_id demo_leaf) \<subseteq> {0, 1, 2, 3, 105, 106}"
    using demo_leaf_data by (auto simp: demo_leaf_def Let_def dest!: in_set_takeD)
  then have "\<forall>b \<in> set (full_id demo_leaf). unat b < 128" by auto
  then show "length (full_data demo_dir) = 130"
    using demo_ids(2)
    by (simp add: demo_dir_def Let_def Dir_item_def Child_item_def demo_child_def bytes_item_short leb_enc.simps)
qed (simp add: demo_leaf_data)

section \<open>Messages of the run\<close>

definition demo_bytes :: "Msg \<Rightarrow> u8 list" where
  "demo_bytes m = (case sync_encode demo_sync m of Inr bs \<Rightarrow> bs | Inl _ \<Rightarrow> [])"

lemma demo_wire:
  assumes "Msg_ok leb_api item_msgs 8192 m"
  shows "sync_encode demo_sync m = Inr (demo_bytes m)"
    and "sync_decode demo_sync (demo_bytes m) = Inr (Some m, [])"
proof -
  have "MTU2 \<le> 8192" by (simp add: MTU2_def)
  from msg_read_back [OF item_msg_codec this assms] show "sync_encode demo_sync m = Inr (demo_bytes m)"
    and "sync_decode demo_sync (demo_bytes m) = Inr (Some m, [])"
    by (auto simp: demo_bytes_def sync_encode_def sync_decode_def demo_sync_def)
qed

lemma demo_root_update_ok:
  "Msg_ok leb_api item_msgs 8192 (RootUpdate \<lparr>ru_nonce = demo_nonce, ru_from_blockid = replicate 32 0,
     ru_to_blockref = demo_root\<rparr>)"
  using item_bytes_length [of demo_nonce] item_bytes_length [of "replicate 32 0"]
    item_bytes_length [of "full_id demo_dir"] item_bytes_length [of "replicate 16 2"] demo_ids(3)
  by (simp add: Msg_ok_def RootUpdate_ok_def BlockId_ok_def Key_ok_def demo_root_def demo_nonce_def
      item_msgs_def item_serde_def RootUpdate_item_def)

lemma demo_block_request_ok:
  assumes "length i = 32"
  shows "Msg_ok leb_api item_msgs 8192 (BlockRequest \<lparr>br_blockid = i\<rparr>)"
  using item_bytes_length [of i] assms
  by (simp add: Msg_ok_def BlockRequest_ok_def BlockId_ok_def item_msgs_def item_serde_def BlockRequest_item_def)

lemma leb_enc_short: "n < 2 ^ 64 \<Longrightarrow> length (leb_enc n) \<le> 10"
  using leb_enc_length [of n 0] by simp

lemma demo_response_ok:
  assumes "length i = 32" and "a < 2 ^ 64" and "b < 2 ^ 64" and "l < 2 ^ 64"
  shows "Msg_ok leb_api item_msgs 8192 (BlockRequestResponse
    \<lparr>bq_blockid = i, bq_start_id = a, bq_end_id = b, bq_len = l\<rparr>)"
  using item_bytes_length [of i] assms leb_enc_short [of a] leb_enc_short [of b] leb_enc_short [of l]
  by (simp add: Msg_ok_def BlockRequestResponse_ok_def BlockId_ok_def item_msgs_def item_serde_def
      BlockRequestResponse_item_def)

lemma demo_status_ok:
  "a \<le> b \<Longrightarrow> b < 2 ^ 64 \<Longrightarrow> Msg_ok leb_api item_msgs 8192 (TransferStatus \<lparr>missing_ranges = [(a, b)]\<rparr>)"
  using status_size_one [OF leb_varint_codec, of a b] by (simp add: Msg_ok_def)

lemma demo_payload_ok:
  "c < 2 ^ 64 \<Longrightarrow> length bs \<le> 1000 \<Longrightarrow>
   Msg_ok leb_api item_msgs 8192 (TransferPayload \<lparr>tp_chunkid = c, tp_data = bs\<rparr>)"
  using leb_enc_short [of c] by (simp add: Msg_ok_def MTU2_def leb_api_def)

lemmas demo_msgs = demo_root_update_ok demo_block_request_ok demo_response_ok demo_status_ok demo_payload_ok

section \<open>The run\<close>

lemma store_whole_block:
  assumes "length d \<le> CHUNK_SIZE" and "length d = n" and "0 < n"
  shows "store_chunk \<lparr>partial_id = i, partial_data = replicate n 0, available = [False]\<rparr> 0 d
    = Inr \<lparr>partial_id = i, partial_data = d, available = [True]\<rparr>"
  using assms by (simp add: store_chunk_def CHUNK_SIZE_def overwrite_def)

lemmas demo_defs = run_act_def node_task_def node_recv_def task_step_def dispatch_def client_state_def
  unconnected_root_update_def send_block_request_def block_request_def block_request_response_def
  allocate_transfer_def transfer_status_def payload_step_def status_step_def transfer_payload_def
  receive_chunk_def finish_update_def request_missing.simps
  get_client_def put_client_def insert_client_def Client2_default_def TransferOut_default_def
  TransferIn_default_def TransferIn_transfer_def oneshot_channel_def mpsc_unbounded_def oneshot_send_def
  oneshot_drop_def unbounded_send_def mpsc_drop_tx_def mpsc_drop_rx_def drop_client_def
  BlockDb_get_def BlockDb_get_mut_def Block_partial_mut_def BlockDb_add_def BlockDb_root_def
  pending_root_def set_pending_root_def contains_def Block_len_def Partial_new_def next_cursor_def
  slice_get_def Let_def

lemma demo_sync_simps:
  "y_client demo_sync = demo_client_env" "y_server demo_sync = demo_server_env"
  "y_client_addr demo_sync = ([1], 1)" "y_server_addr demo_sync = ([2], 2)"
  "e_api demo_server_env = shift_api False" "e_stack demo_server_env = 5" "e_cwd demo_server_env = []"
  "e_keys demo_server_env = (\<lambda>_. [([1], 1)])"
  by (simp_all add: demo_sync_def demo_server_env_def)

lemma demo_server_ids:
  "full_id demo_server_dir \<noteq> full_id demo_dir" "full_id demo_server_dir \<noteq> full_id demo_leaf"
  "length (full_id demo_server_dir) = 32"
proof -
  have "hd (full_id demo_server_dir) = 7" by (simp add: demo_server_dir_def sealed_id)
  moreover have "hd (full_id demo_leaf) = 1" "hd (full_id demo_dir) = 2"
    by (simp_all add: demo_leaf_def demo_dir_def Let_def numeral_eq_Suc)
  ultimately show "full_id demo_server_dir \<noteq> full_id demo_dir" "full_id demo_server_dir \<noteq> full_id demo_leaf"
    by auto
qed (simp add: demo_server_dir_def sealed_id)

lemma demo_root_simps: "blockid demo_root = full_id demo_dir" "key demo_root = replicate 16 2"
  by (simp_all add: demo_root_def)

lemma demo_full_eta:
  "\<lparr>full_id = full_id demo_dir, full_data = full_data demo_dir\<rparr> = demo_dir"
  "\<lparr>full_id = full_id demo_leaf, full_data = full_data demo_leaf\<rparr> = demo_leaf"
  by simp_all

lemma demo_child_simps:
  "child_name demo_child = [97]" "child_type demo_child = BlockType.Leaf"
  "child_blockref demo_child = BlockRef (full_id demo_leaf) (replicate 16 1) []"
  by (simp_all add: demo_child_def)

lemmas demo_frontend = try_promote_def resolve_def verify_def traverse_root_def traverse_def
  traverse_rec.simps traverse_children.simps decode_as_def unwrap_opt_def ResolveBlockVisitor_def
  VerifyVisitor_def child_ids_def apply_pending_def write_to_dir_def remove_dir_all_def create_dir_def
  get_decoded_def write_to_dir_rec.simps File_create_def file_write_all_def resolve_path_def has_root_def
  path_join_def Path_new_def slash_def dot_def demo_fs_def

definition demo_acts :: "sync_act list" where
  "demo_acts = [ClientTask 0 False, ServerRecv 0, ServerTask 0 False, ClientRecv 0, ClientTask 0 False,
     ServerRecv 1, ServerTask 1 False, ClientRecv 1, ClientTask 0 False, ServerRecv 2,
     ServerTask 2 False, ClientRecv 2, ClientTask 1 False, ServerRecv 3, ServerTask 3 False,
     ClientRecv 3, ClientTask 0 False, ServerRecv 4]"

lemma demo_sync_run:
  "\<exists>x. sync_run demo_sync (demo_client_node, demo_server_node, [], []) demo_acts = Some x \<and>
     db_root (h_blockdb (nd_handler (fst (snd x)))) = demo_root"
  using demo_ids demo_server_ids
  by (simp add: demo_acts_def demo_client_node_def demo_server_node_def connect_def Handler_new_def demo_sync_simps
    demo_defs demo_wire demo_msgs demo_db_def demo_server_db_def BlockDb_new_def demo_lengths CHUNK_SIZE_def
    demo_root_simps demo_full_eta demo_child_simps demo_frontend demo_from_full store_whole_block)

lemma demo_setup: "sync_setup demo_sync (shift_api True) (False, [[103]]) demo_kids demo_client_node demo_server_node"
proof -
  have db: "h_blockdb (nd_handler demo_client_node) = demo_db" "h_blockdb (nd_handler demo_server_node) = demo_server_db"
    by (simp_all add: demo_client_node_def connect_def insert_client_def put_client_def Handler_new_def demo_server_node_def)
  have client: "\<exists>parse rnd opt fs r nonce. rnd_ok rnd \<and> length nonce = 12 \<and> \<not> opt2_server opt \<and>
      snd (opt2_files opt) \<noteq> [] \<and>
      map_option (\<lambda>ip. (ip, opt2_port opt)) (parse (opt2_host opt)) = Some (y_server_addr demo_sync) \<and>
      scsync_main (y_client demo_sync) parse rnd opt True
        (map Some (walk_tree (opt2_files opt) (TDir demo_kids))) fs r nonce = Inr demo_client_node"
    using demo_client_node_start demo_rnd_ok [of 1]
    by (intro exI [of _ demo_parse] exI [of _ "demo_rnd 1"] exI [of _ demo_client_opt] exI [of _ Map.empty]
        exI [of _ 0] exI [of _ demo_nonce])
      (simp add: demo_sync_simps demo_client_opt_def demo_nonce_def demo_parse_def demo_folder_def
        del: walk_tree.simps)
  have server: "\<exists>parse rnd opt is_dir walk fs r nonce. opt2_server opt \<and> opt2_files opt = (False, [[103]]) \<and>
      scsync_main (y_server demo_sync) parse rnd opt is_dir walk fs r nonce = Inr demo_server_node"
    using demo_server_node_start
    by (intro exI [of _ demo_parse] exI [of _ "demo_rnd 7"] exI [of _ demo_server_opt] exI [of _ True]
        exI [of _ "map Some (walk_tree (False, [[103]]) (TDir []))"] exI [of _ demo_fs] exI [of _ 0] exI [of _ "[]"])
      (simp add: demo_sync_simps demo_server_opt_def)
  have agree: "agrees demo_server_db demo_db"
    using demo_server_ids by (auto simp: agrees_def full_at_eq_Some demo_server_db_def demo_db_def BlockDb_new_def
        split: if_splits)
  have apis: "\<exists>ni. e_api (y_server demo_sync) = shift_api True\<lparr>supports_aesni := ni\<rparr>"
    by (rule exI [of _ False]) (simp add: demo_sync_simps shift_api_def)
  have codec: "msg_codec (y_varint demo_sync) (y_serde demo_sync)" "e_api (y_client demo_sync) = shift_api True"
    using item_msg_codec by (simp_all add: demo_sync_def demo_client_env_def)
  have root: "BlockRef_ok (db_root demo_server_db)"
    using demo_server_ids(3) by (simp add: demo_server_db_def BlockDb_new_def BlockId_ok_def Key_ok_def)
  show ?thesis
    unfolding sync_setup_def Let_def
    using client server agree apis codec root shift_frontend_codec demo_kids_ok demo_db_card db
    by (simp add: demo_sync_simps demo_server_node_def Handler_new_def resolve_path_def has_root_def dot_def demo_fs_def)
qed

theorem sync_delivers_folder_witness:
  "\<exists>st. (sync_step demo_sync)\<^sup>*\<^sup>* (sync_start demo_client_node demo_server_node) st \<and>
     db_root (h_blockdb (nd_handler (sy_server st))) = demo_root \<and>
     h_fs (nd_handler (sy_server st)) [[103], [97]] = Some (FsFile [104, 105]) \<and>
     h_fs (nd_handler (sy_server st)) [[103], [111]] = None"
proof -
  obtain x where run: "sync_run demo_sync (demo_client_node, demo_server_node, [], []) demo_acts = Some x"
    and root: "db_root (h_blockdb (nd_handler (fst (snd x)))) = demo_root"
    using demo_sync_run by blast
  have "(sync_step demo_sync)\<^sup>*\<^sup>* (sync_start demo_client_node demo_server_node) (sync_of x)"
    using sync_run_steps [OF run] by (simp add: sync_start_def sync_of_def)
  moreover have st: "sy_server (sync_of x) = fst (snd x)" by (simp add: sync_of_def split: prod.splits)
  moreover have "db_root (h_blockdb (nd_handler demo_server_node)) \<noteq> demo_root"
    using demo_server_ids(1)
    by (simp add: demo_server_node_def Handler_new_def demo_server_db_def BlockDb_new_def demo_root_def)
  ultimately show ?thesis
    using sync_delivers_folder [OF demo_setup, of "sync_of x" "[[103]]"] root
    by (auto simp: demo_sync_simps resolve_path_def has_root_def dot_def demo_kids_def intro!: exI [of _ "sync_of x"])
qed

end
