(* ===== verification/Node_Types.thy ===== *)
theory Node_Types
  imports Sync_Demo
begin

text \<open>
  What is well-formed about every node of version 2, whatever messages it receives: blocks are stored
  under their ids, partial blocks have one flag per chunk, the chunk ids given to blocks do not
  overlap, and every sender of a channel that the node keeps belongs to a channel whose other end is
  there. The last is what the two \<^verbatim>\<open>unwrap\<close>s on sending into a channel rely on.
\<close>

section \<open>Well-formed states\<close>

definition partial_sized :: "Partial \<Rightarrow> bool" where
  "partial_sized p \<longleftrightarrow>
     length (available p) = (length (partial_data p) + CHUNK_SIZE - 1) div CHUNK_SIZE"

definition store_wf :: "BlockDb \<Rightarrow> bool" where
  "store_wf db \<longleftrightarrow> db_wf db \<and> (\<forall>i p. db_blocks db i = Some (Partial p) \<longrightarrow> partial_sized p)"

definition ids_wf :: "TransferOut \<Rightarrow> bool" where
  "ids_wf out \<longleftrightarrow>
     sorted_wrt (\<lambda>a b. fst (snd a) \<le> fst b) (to_transfers out) \<and> to_transfer_cursor out < 2 ^ 64 \<and>
     (\<forall>a \<in> set (to_transfers out). fst a \<le> fst (snd a) \<and> fst (snd a) \<le> to_transfer_cursor out)"

text \<open>
  The senders a node keeps: of a oneshot per requested block, and of the status channel per peer. A
  table of senders is in order when each belongs to a channel that was created and is in the right
  state, and no sender is kept twice.
\<close>

definition requests :: "(SocketAddr \<rightharpoonup> Client2) \<Rightarrow> SocketAddr \<times> BlockId \<rightharpoonup> nat" where
  "requests cs = (\<lambda>(a, i). case cs a of None \<Rightarrow> None | Some cl \<Rightarrow> pending_block_requests cl i)"

definition statuses :: "(SocketAddr \<rightharpoonup> Client2) \<Rightarrow> SocketAddr \<rightharpoonup> nat" where
  "statuses cs = (\<lambda>a. case cs a of None \<Rightarrow> None | Some cl \<Rightarrow> ti_status_tx (transfer_in cl))"

definition senders_wf :: "('k \<rightharpoonup> nat) \<Rightarrow> (nat \<Rightarrow> bool) \<Rightarrow> nat \<Rightarrow> bool" where
  "senders_wf m good n \<longleftrightarrow>
     (\<forall>k c. m k = Some c \<longrightarrow> c < n \<and> good c) \<and> (\<forall>k k' c. m k = Some c \<longrightarrow> m k' = Some c \<longrightarrow> k = k')"

abbreviation requests_wf :: "(SocketAddr \<rightharpoonup> Client2) \<Rightarrow> Runtime \<Rightarrow> bool" where
  "requests_wf cs rt \<equiv> senders_wf (requests cs) (\<lambda>c. rt_oneshot rt c = Waiting) (rt_next rt)"

abbreviation statuses_wf :: "(SocketAddr \<rightharpoonup> Client2) \<Rightarrow> Runtime \<Rightarrow> bool" where
  "statuses_wf cs rt \<equiv> senders_wf (statuses cs) (\<lambda>c. mp_tx (rt_mpsc rt c) \<and> mp_rx (rt_mpsc rt c)) (rt_next rt)"

fun task_channel :: "task \<Rightarrow> nat option" where
  "task_channel (RetryTask own ch m a) = Some ch"
| "task_channel (RetryWait own ch m a) = Some ch"
| "task_channel (StatusTask ch a) = Some ch"
| "task_channel _ = None"

definition handler_wf :: "Handler \<Rightarrow> bool" where
  "handler_wf h \<longleftrightarrow>
     store_wf (h_blockdb h) \<and> (\<forall>a cl. h_clients h a = Some cl \<longrightarrow> ids_wf (transfer_out cl)) \<and>
     requests_wf (h_clients h) (h_rt h) \<and> statuses_wf (h_clients h) (h_rt h)"

definition tasks_wf :: "Runtime \<Rightarrow> task list \<Rightarrow> bool" where
  "tasks_wf rt ts \<longleftrightarrow> (\<forall>t \<in> set ts. \<forall>ch. task_channel t = Some ch \<longrightarrow> ch < rt_next rt)"

definition node_wf :: "Node \<Rightarrow> bool" where
  "node_wf n \<longleftrightarrow> handler_wf (nd_handler n) \<and> tasks_wf (h_rt (nd_handler n)) (nd_tasks n)"

text \<open>What an operation of the handler promises.\<close>

definition op_wf :: "Handler \<Rightarrow> Handler \<Rightarrow> task list \<Rightarrow> bool" where
  "op_wf h h' ts \<longleftrightarrow> handler_wf h' \<and> tasks_wf (h_rt h') ts \<and> rt_next (h_rt h) \<le> rt_next (h_rt h')"

lemma tasks_wf_mono: "tasks_wf rt ts \<Longrightarrow> rt_next rt \<le> rt_next rt' \<Longrightarrow> tasks_wf rt' ts"
  by (fastforce simp: tasks_wf_def)

lemma tasks_wf_simps [simp]:
  "tasks_wf rt []" "tasks_wf rt (ts @ ts') \<longleftrightarrow> tasks_wf rt ts \<and> tasks_wf rt ts'"
  "tasks_wf rt (t # ts) \<longleftrightarrow> (\<forall>ch. task_channel t = Some ch \<longrightarrow> ch < rt_next rt) \<and> tasks_wf rt ts"
  by (auto simp: tasks_wf_def)

section \<open>The store\<close>

lemma store_wf_put:
  assumes "store_wf db" and "Block_id b = i" and "\<forall>p. b = Partial p \<longrightarrow> partial_sized p"
  shows "store_wf (db\<lparr>db_blocks := (db_blocks db)(i \<mapsto> b)\<rparr>)"
  using assms by (auto simp: store_wf_def db_wf_def)

lemma store_wf_roots [simp]:
  "store_wf (set_pending_root db r) = store_wf db"
  "apply_pending db = Inr (old, db') \<Longrightarrow> store_wf db' = store_wf db"
  by (auto simp: store_wf_def db_wf_def set_pending_root_def apply_pending_def split: option.splits)

lemma store_wf_add:
  assumes "store_wf db" and "Partial_new i n = Inr p"
  shows "store_wf (BlockDb_add db (Partial p))"
proof -
  have "partial_sized p" using assms(2) by (auto simp: Partial_new_def outcome_simps partial_sized_def)
  then show ?thesis
    using assms(1) store_wf_put [OF assms(1), of "Partial p"] by (auto simp: BlockDb_add_def split: option.split)
qed

lemma store_wf_chunk:
  assumes wf: "store_wf db" and rc: "receive_chunk db t c = Inr db'"
  shows "store_wf db'"
proof -
  obtain p p' where p: "db_blocks db (tr_blockid t) = Some (Partial p)"
    and st: "store_chunk p (tp_chunkid c - tr_start t) (tp_data c) = Inr p'"
    and db': "db' = db\<lparr>db_blocks := (db_blocks db)(tr_blockid t \<mapsto> Partial p')\<rparr>"
    using rc by (auto simp: receive_chunk_def outcome_simps BlockDb_get_mut_def Block_partial_mut_def
        split: option.splits Block.splits)
  have "partial_id p = tr_blockid t" "partial_sized p"
    using wf p by (fastforce simp: store_wf_def db_wf_def)+
  moreover have "partial_id p' = partial_id p" "length (available p') = length (available p)"
    "length (partial_data p') = length (partial_data p)"
    using st by (auto simp: store_chunk_def outcome_simps split: if_splits)
  ultimately show ?thesis unfolding db' by (intro store_wf_put [OF wf]) (simp_all add: partial_sized_def)
qed

lemma store_wf_promote:
  assumes "store_wf db" and "try_promote db i = Inr (b, db')"
  shows "store_wf db'"
proof (cases b)
  case True
  then obtain p where "db_blocks db i = Some (Partial p)"
    "db' = db\<lparr>db_blocks := (db_blocks db)(i \<mapsto> Full \<lparr>full_id = partial_id p, full_data = partial_data p\<rparr>)\<rparr>"
    using assms(2) by (auto simp: try_promote_True)
  moreover from this have "partial_id p = i" using assms(1) by (fastforce simp: store_wf_def db_wf_def)
  ultimately show ?thesis
    using store_wf_put [OF assms(1), of "Full \<lparr>full_id = partial_id p, full_data = partial_data p\<rparr>" i] by simp
qed (use assms in \<open>auto simp: try_promote_False\<close>)

section \<open>Tables of senders\<close>

lemma senders_wfD: "senders_wf m good n \<Longrightarrow> m k = Some c \<Longrightarrow> c < n \<and> good c"
  by (simp add: senders_wf_def)

lemma senders_wf_inj: "senders_wf m good n \<Longrightarrow> m k = Some c \<Longrightarrow> m k' = Some c \<Longrightarrow> k = k'"
  by (simp add: senders_wf_def)

text \<open>Fewer senders, in channels that are still good.\<close>

lemma senders_wf_sub:
  assumes "senders_wf m good n" and "m' \<subseteq>\<^sub>m m" and "n \<le> n'"
    and "\<And>k c. m' k = Some c \<Longrightarrow> good c \<Longrightarrow> good' c"
  shows "senders_wf m' good' n'"
proof -
  have sub: "m k = Some c" if "m' k = Some c" for k c
    using assms(2) that by (metis domI map_le_def)
  have "c < n' \<and> good' c" if "m' k = Some c" for k c
    using senders_wfD [OF assms(1) sub [OF that]] assms(3,4) that by fastforce
  then show ?thesis using senders_wf_inj [OF assms(1)] sub unfolding senders_wf_def by blast
qed

text \<open>A sender of a new channel, in place of whatever was there.\<close>

lemma senders_wf_new:
  assumes "senders_wf m good n" and "good' n" and "\<And>x c. x \<noteq> k \<Longrightarrow> m x = Some c \<Longrightarrow> good c \<Longrightarrow> good' c"
  shows "senders_wf (m(k \<mapsto> n)) good' (Suc n)"
proof -
  have old: "c < n \<and> good' c" if "x \<noteq> k" "m x = Some c" for x c
    using senders_wfD [OF assms(1) that(2)] assms(3) that by blast
  show ?thesis
    unfolding senders_wf_def
  proof (intro conjI allI impI)
    fix x c
    assume "(m(k \<mapsto> n)) x = Some c"
    then show "c < Suc n" "good' c" using old [of x c] assms(2) by (auto split: if_splits)
  next
    fix x y c
    assume "(m(k \<mapsto> n)) x = Some c" "(m(k \<mapsto> n)) y = Some c"
    then show "x = y"
      using old [of x c] old [of y c] senders_wf_inj [OF assms(1), of x c y] by (auto split: if_splits)
  qed
qed

lemma requests_put:
  "cs a = Some cl \<Longrightarrow> pending_block_requests cl' = (pending_block_requests cl)(i := x) \<Longrightarrow>
   requests (cs(a \<mapsto> cl')) = (requests cs)((a, i) := x)"
  by (auto simp: requests_def fun_eq_iff split: option.splits)

lemma requests_same:
  "cs a = Some cl \<Longrightarrow> pending_block_requests cl' = pending_block_requests cl \<Longrightarrow>
   requests (cs(a \<mapsto> cl')) = requests cs"
  by (auto simp: requests_def fun_eq_iff)

lemma statuses_put: "statuses (cs(a \<mapsto> cl')) = (statuses cs)(a := ti_status_tx (transfer_in cl'))"
  by (auto simp: statuses_def)

lemma statuses_same:
  "cs a = Some cl \<Longrightarrow> ti_status_tx (transfer_in cl') = ti_status_tx (transfer_in cl) \<Longrightarrow>
   statuses (cs(a \<mapsto> cl')) = statuses cs"
  by (auto simp: statuses_def fun_eq_iff)

text \<open>A peer that goes, or is replaced by a new one, drops its senders.\<close>

lemma drop_client_next [simp]: "rt_next (drop_client rt c) = rt_next rt"
  by (simp add: drop_client_def mpsc_drop_tx_def split: option.split)

lemma drop_client_oneshot:
  "rt_oneshot (drop_client rt (Some cl)) n =
     (if n \<in> ran (pending_block_requests cl) \<and> rt_oneshot rt n = Waiting then Canceled else rt_oneshot rt n)"
  by (simp add: drop_client_def mpsc_drop_tx_def split: option.split)

lemma drop_client_mpsc:
  "ti_status_tx (transfer_in cl) \<noteq> Some n \<Longrightarrow> rt_mpsc (drop_client rt (Some cl)) n = rt_mpsc rt n"
  by (simp add: drop_client_def mpsc_drop_tx_def split: option.split)

lemma drop_client_None [simp]: "drop_client rt None = rt"
  by (simp add: drop_client_def)

lemma requests_wf_remove:
  assumes "requests_wf cs rt" and "\<And>b. b \<noteq> a \<Longrightarrow> cs' b = cs b"
    and "\<forall>cl. cs' a = Some cl \<longrightarrow> pending_block_requests cl = Map.empty"
  shows "requests_wf cs' (drop_client rt (cs a))"
proof (rule senders_wf_sub [OF assms(1)])
  have other: "fst k \<noteq> a \<and> requests cs k = Some c" if "requests cs' k = Some c" for k c
    using that assms(2,3) by (cases k) (fastforce simp: requests_def split: option.splits)
  then show "requests cs' \<subseteq>\<^sub>m requests cs" by (auto simp: map_le_def)
  show "rt_oneshot (drop_client rt (cs a)) c = Waiting"
    if "requests cs' k = Some c" "rt_oneshot rt c = Waiting" for k c
  proof (cases "cs a")
    case (Some cl)
    have "c \<notin> ran (pending_block_requests cl)"
    proof
      assume "c \<in> ran (pending_block_requests cl)"
      then obtain i where "requests cs (a, i) = Some c" using Some by (auto simp: requests_def ran_def)
      moreover have "requests cs k = Some c" "fst k \<noteq> a" using other that by blast+
      ultimately show False
        using senders_wf_inj [OF assms(1), of k c "(a, i)"] by simp
    qed
    then show ?thesis using that Some by (simp add: drop_client_oneshot)
  qed (use that in simp)
qed simp

lemma statuses_wf_remove:
  assumes "statuses_wf cs rt" and "\<And>b. b \<noteq> a \<Longrightarrow> cs' b = cs b"
    and "\<forall>cl. cs' a = Some cl \<longrightarrow> ti_status_tx (transfer_in cl) = None"
  shows "statuses_wf cs' (drop_client rt (cs a))"
proof (rule senders_wf_sub [OF assms(1)])
  have other: "b \<noteq> a \<and> statuses cs b = Some c" if "statuses cs' b = Some c" for b c
    using that assms(2,3) by (cases "b = a") (auto simp: statuses_def split: option.splits)
  then show "statuses cs' \<subseteq>\<^sub>m statuses cs" by (auto simp: map_le_def)
  show "mp_tx (rt_mpsc (drop_client rt (cs a)) c) \<and> mp_rx (rt_mpsc (drop_client rt (cs a)) c)"
    if "statuses cs' b = Some c" "mp_tx (rt_mpsc rt c) \<and> mp_rx (rt_mpsc rt c)" for b c
  proof (cases "cs a")
    case (Some cl)
    have "ti_status_tx (transfer_in cl) \<noteq> Some c"
    proof
      assume "ti_status_tx (transfer_in cl) = Some c"
      then have "statuses cs a = Some c" using Some by (simp add: statuses_def)
      moreover have "statuses cs b = Some c" "b \<noteq> a" using other that by blast+
      ultimately show False using senders_wf_inj [OF assms(1), of a c b] by simp
    qed
    then show ?thesis using that Some by (simp add: drop_client_mpsc)
  qed (use that in simp)
qed simp

section \<open>The operations\<close>

lemma handler_wfD:
  assumes "handler_wf h"
  shows "store_wf (h_blockdb h)" and "h_clients h a = Some cl \<Longrightarrow> ids_wf (transfer_out cl)"
    and "requests_wf (h_clients h) (h_rt h)" and "statuses_wf (h_clients h) (h_rt h)"
  using assms unfolding handler_wf_def by blast+

lemma op_wf_refl: "handler_wf h \<Longrightarrow> op_wf h h []"
  by (simp add: op_wf_def)

lemma op_wf_trans: "op_wf h h1 ts \<Longrightarrow> op_wf h1 h2 ts' \<Longrightarrow> op_wf h h2 (ts @ ts')"
  by (auto simp: op_wf_def intro: tasks_wf_mono)

lemma op_wf_send: "op_wf h h' [] \<Longrightarrow> \<forall>t \<in> set ts. task_channel t = None \<Longrightarrow> op_wf h h' ts"
  by (auto simp: op_wf_def tasks_wf_def)

text \<open>Changes that do not touch channels.\<close>

lemma op_wf_db: "handler_wf h \<Longrightarrow> store_wf db \<Longrightarrow> op_wf h (h\<lparr>h_blockdb := db\<rparr>) []"
  by (simp add: op_wf_def handler_wf_def)

lemma op_wf_client:
  assumes "handler_wf h" and "h_clients h a = Some cl"
    and "pending_block_requests cl' = pending_block_requests cl"
    and "ti_status_tx (transfer_in cl') = ti_status_tx (transfer_in cl)" and "ids_wf (transfer_out cl')"
  shows "op_wf h (put_client h a cl') []"
  using assms by (simp add: op_wf_def handler_wf_def put_client_def requests_same statuses_same)

lemma ids_wf_new: "ids_wf (TransferOut_default r)"
proof -
  have "(r mod 2 ^ 32 :: nat) < 2 ^ 64" by (rule less_trans [of _ "2 ^ 32"]) simp_all
  then show ?thesis by (simp add: ids_wf_def TransferOut_default_def)
qed

lemma insert_client_wf:
  assumes "handler_wf h"
  shows "op_wf h (insert_client h a r) []"
  using handler_wfD [OF assms] ids_wf_new
    requests_wf_remove [of "h_clients h" "h_rt h" a "(h_clients h)(a \<mapsto> Client2_default r)"]
    statuses_wf_remove [of "h_clients h" "h_rt h" a "(h_clients h)(a \<mapsto> Client2_default r)"]
  by (simp add: op_wf_def handler_wf_def insert_client_def put_client_def Client2_default_def TransferIn_default_def)

text \<open>A new request for a block: its sender takes the place of the one before, which is dropped.\<close>

lemma new_request_wf:
  assumes wf: "handler_wf h" and cl: "h_clients h a = Some cl"
    and ch: "oneshot_channel (h_rt h) = (otx, rt)"
  shows "op_wf h ((put_client h a (cl\<lparr>pending_block_requests := (pending_block_requests cl)(i \<mapsto> otx)\<rparr>))
      \<lparr>h_rt := case pending_block_requests cl i of None \<Rightarrow> rt | Some old \<Rightarrow> oneshot_drop rt old\<rparr>)
    [RetryTask own otx m addr]"
proof -
  let ?cl = "cl\<lparr>pending_block_requests := (pending_block_requests cl)(i \<mapsto> otx)\<rparr>"
  let ?rt = "case pending_block_requests cl i of None \<Rightarrow> rt | Some old \<Rightarrow> oneshot_drop rt old"
  note w = handler_wfD [OF wf]
  have otx: "otx = rt_next (h_rt h)"
    and rt: "rt = (h_rt h)\<lparr>rt_next := Suc otx, rt_oneshot := (rt_oneshot (h_rt h))(otx := Waiting)\<rparr>"
    using ch by (auto simp: oneshot_channel_def)
  have nxt: "rt_next ?rt = Suc otx" "rt_mpsc ?rt = rt_mpsc (h_rt h)"
    by (simp_all add: rt oneshot_drop_def split: option.split)
  have req: "requests ((h_clients h)(a \<mapsto> ?cl)) = (requests (h_clients h))((a, i) \<mapsto> otx)"
    using cl by (intro requests_put) simp_all
  have own: "requests (h_clients h) (a, i) = pending_block_requests cl i" using cl by (simp add: requests_def)
  have "senders_wf ((requests (h_clients h))((a, i) \<mapsto> rt_next (h_rt h)))
      (\<lambda>c. rt_oneshot ?rt c = Waiting) (Suc (rt_next (h_rt h)))"
  proof (rule senders_wf_new [OF w(3)])
    show "rt_oneshot ?rt (rt_next (h_rt h)) = Waiting"
      using senders_wfD [OF w(3), of "(a, i)"] own otx
      by (auto simp: rt oneshot_drop_def split: option.split)
    show "rt_oneshot ?rt c = Waiting"
      if "x \<noteq> (a, i)" "requests (h_clients h) x = Some c" "rt_oneshot (h_rt h) c = Waiting" for x c
      using senders_wf_inj [OF w(3), of "(a, i)" c x] own that
      by (auto simp: rt oneshot_drop_def split: option.split)
  qed
  moreover have "statuses_wf (h_clients h) ?rt"
    using w(4) nxt otx by (intro senders_wf_sub [OF w(4)]) simp_all
  ultimately show ?thesis
    using w cl nxt otx req
    by (simp add: op_wf_def handler_wf_def put_client_def statuses_same [of "h_clients h" a cl])
qed

lemma get_client_Inr: "get_client h a = Inr cl \<longleftrightarrow> h_clients h a = Some cl"
  by (simp add: get_client_def split: option.split)

lemma send_block_request_wf:
  assumes "handler_wf h" and "send_block_request h a req = Inr (h', ts)"
  shows "op_wf h h' ts"
proof -
  obtain cl where cl: "h_clients h a = Some cl" using assms(2)
    by (auto simp: send_block_request_def get_client_Inr bindE_eq_Inr)
  obtain otx rt where ch: "oneshot_channel (h_rt h) = (otx, rt)" by (cases "oneshot_channel (h_rt h)")
  show ?thesis
    using assms(2) new_request_wf [OF assms(1) cl ch, of "br_blockid req" True "BlockRequest req" a] cl ch
    by (simp add: send_block_request_def get_client_def)
qed

lemma root_update_response_wf:
  assumes "handler_wf h" and "root_update_response h a res = Inr (h', ts)"
  shows "op_wf h h' ts"
proof -
  obtain cl where cl: "h_clients h a = Some cl" using assms(2)
    by (auto simp: root_update_response_def get_client_Inr bindE_eq_Inr)
  obtain otx rt where ch: "oneshot_channel (h_rt h) = (otx, rt)" by (cases "oneshot_channel (h_rt h)")
  show ?thesis
    using assms(2) new_request_wf [OF assms(1) cl ch, of "rr_to_blockid res" False _ a] cl ch
    by (auto simp: root_update_response_def get_client_def)
qed

lemma unconnected_root_update_wf:
  assumes wf: "handler_wf h" and run: "unconnected_root_update h a u r = Inr (h', ts)"
  shows "op_wf h h' ts"
proof (cases "blockid (ru_to_blockref u) = blockid (BlockDb_root (h_blockdb h)) \<or> pending_root (h_blockdb h) \<noteq> None")
  case True
  then show ?thesis
    using run op_wf_refl [OF wf] by (auto simp: unconnected_root_update_def Let_def intro!: op_wf_send split: if_splits)
next
  case False
  let ?h1 = "insert_client h a r"
  let ?h2 = "?h1\<lparr>h_blockdb := set_pending_root (h_blockdb h) (ru_to_blockref u)\<rparr>"
  have w1: "op_wf h ?h1 []" by (rule insert_client_wf [OF wf])
  moreover have "op_wf ?h1 ?h2 []"
    using w1 handler_wfD(1) [OF wf] by (intro op_wf_db) (simp_all add: op_wf_def)
  moreover have "op_wf ?h2 h' ts"
    using run False calculation(2)
    by (intro send_block_request_wf) (auto simp: unconnected_root_update_def Let_def op_wf_def)
  ultimately show ?thesis using op_wf_trans by (metis append_Nil)
qed

lemma allocate_transfer_wf:
  assumes "ids_wf out" and "allocate_transfer db out i = Inr (tr, out')"
  shows "ids_wf out'"
  using assms
  by (auto simp: allocate_transfer_def outcome_simps ids_wf_def sorted_wrt_append Let_def split: option.splits)
    (metis fst_conv snd_conv trans_le_add1)

lemma block_request_wf:
  assumes wf: "handler_wf h" and run: "block_request h a req = Inr (h', ts)"
  shows "op_wf h h' ts"
proof -
  obtain cl tr out where cl: "h_clients h a = Some cl"
    and al: "allocate_transfer (h_blockdb h) (transfer_out cl) (br_blockid req) = Inr (tr, out)"
    and h': "h' = put_client h a (cl\<lparr>transfer_out := out\<rparr>)" and ts: "\<forall>t \<in> set ts. task_channel t = None"
    using run by (auto simp: block_request_def get_client_Inr outcome_simps)
  have "op_wf h h' []"
    unfolding h' using allocate_transfer_wf [OF handler_wfD(2) [OF wf cl] al]
    by (intro op_wf_client [OF wf cl]) simp_all
  then show ?thesis using ts by (rule op_wf_send)
qed

lemma transfer_status_wf:
  assumes wf: "handler_wf h" and run: "transfer_status h a st = Inr (h', ts)"
  shows "op_wf h h' ts"
proof -
  obtain cl cur where cl: "h_clients h a = Some cl"
    and h': "h' = put_client h a (cl\<lparr>transfer_out := (transfer_out cl)\<lparr>to_cursor := cur, to_todo := missing_ranges st\<rparr>\<rparr>)"
    and ts: "\<forall>t \<in> set ts. task_channel t = None"
    using run by (auto simp: transfer_status_def get_client_Inr outcome_simps Let_def split: if_splits)
  have "op_wf h h' []"
    unfolding h' using handler_wfD(2) [OF wf cl] by (intro op_wf_client [OF wf cl]) (simp_all add: ids_wf_def)
  then show ?thesis using ts by (rule op_wf_send)
qed

lemma oneshot_send_Inr:
  "oneshot_send rt c = Inr rt' \<longleftrightarrow>
     rt_oneshot rt c = Waiting \<and> rt' = rt\<lparr>rt_oneshot := (rt_oneshot rt)(c := Fired)\<rparr>"
  by (auto simp: oneshot_send_def)

lemma unbounded_send_Inr:
  "unbounded_send rt c = Inr rt' \<longleftrightarrow> mp_rx (rt_mpsc rt c) \<and>
     rt' = rt\<lparr>rt_mpsc := (rt_mpsc rt)(c := (rt_mpsc rt c)\<lparr>mp_queue := Suc (mp_queue (rt_mpsc rt c))\<rparr>)\<rparr>"
  by (auto simp: unbounded_send_def Let_def)

text \<open>An answered request: its sender is used and gone.\<close>

lemma answered_wf:
  assumes wf: "handler_wf h" and cl: "h_clients h a = Some cl"
    and send: "(case pending_block_requests cl i of None \<Rightarrow> Inr (h_rt h) | Some c \<Rightarrow> oneshot_send (h_rt h) c) = Inr rt"
  shows "handler_wf ((put_client h a (cl\<lparr>pending_block_requests := (pending_block_requests cl)(i := None)\<rparr>))\<lparr>h_rt := rt\<rparr>)"
    and "rt_next rt = rt_next (h_rt h)" and "rt_mpsc rt = rt_mpsc (h_rt h)"
proof -
  let ?cl = "cl\<lparr>pending_block_requests := (pending_block_requests cl)(i := None)\<rparr>"
  note w = handler_wfD [OF wf]
  show nxt: "rt_next rt = rt_next (h_rt h)" and mpsc: "rt_mpsc rt = rt_mpsc (h_rt h)"
    using send by (auto simp: oneshot_send_Inr split: option.splits)
  have own: "requests (h_clients h) (a, i) = pending_block_requests cl i" using cl by (simp add: requests_def)
  have req: "requests ((h_clients h)(a \<mapsto> ?cl)) = (requests (h_clients h))((a, i) := None)"
    using cl by (intro requests_put) simp_all
  have "senders_wf ((requests (h_clients h))((a, i) := None)) (\<lambda>c. rt_oneshot rt c = Waiting) (rt_next rt)"
  proof (rule senders_wf_sub [OF w(3)])
    show "(requests (h_clients h))((a, i) := None) \<subseteq>\<^sub>m requests (h_clients h)" by (auto simp: map_le_def)
    show "rt_oneshot rt c = Waiting"
      if "((requests (h_clients h))((a, i) := None)) k = Some c" "rt_oneshot (h_rt h) c = Waiting" for k c
      using senders_wf_inj [OF w(3), of "(a, i)" c k] own that send
      by (auto simp: oneshot_send_Inr split: option.splits if_splits)
  qed (simp add: nxt)
  then show "handler_wf ((put_client h a ?cl)\<lparr>h_rt := rt\<rparr>)"
    using w cl nxt mpsc req by (simp add: handler_wf_def put_client_def statuses_same [of "h_clients h" a cl])
qed

text \<open>A new status channel for a peer.\<close>

lemma new_status_wf:
  assumes wf: "handler_wf h" and cl: "h_clients h a = Some cl"
    and ch: "mpsc_unbounded (mpsc_drop_tx (h_rt h) (ti_status_tx (transfer_in cl))) = (tx, rt)"
    and cl': "pending_block_requests cl' = pending_block_requests cl" "transfer_out cl' = transfer_out cl"
      "ti_status_tx (transfer_in cl') = Some tx"
    and send: "unbounded_send rt tx = Inr rt'"
  shows "op_wf h ((put_client h a cl')\<lparr>h_rt := rt'\<rparr>) [StatusTask tx addr]"
proof -
  let ?rt0 = "mpsc_drop_tx (h_rt h) (ti_status_tx (transfer_in cl))"
  note w = handler_wfD [OF wf]
  have own: "statuses (h_clients h) a = ti_status_tx (transfer_in cl)" using cl by (simp add: statuses_def)
  have tx: "tx = rt_next (h_rt h)" "rt_next rt' = Suc tx" "rt_oneshot rt' = rt_oneshot (h_rt h)"
    "mp_tx (rt_mpsc rt' tx)" "mp_rx (rt_mpsc rt' tx)"
    "\<And>c. c \<noteq> tx \<Longrightarrow> rt_mpsc rt' c = rt_mpsc ?rt0 c"
    using ch send by (auto simp: unbounded_send_Inr mpsc_unbounded_def mpsc_drop_tx_def split: option.splits)
  have "senders_wf ((statuses (h_clients h))(a \<mapsto> rt_next (h_rt h)))
      (\<lambda>c. mp_tx (rt_mpsc rt' c) \<and> mp_rx (rt_mpsc rt' c)) (Suc (rt_next (h_rt h)))"
  proof (rule senders_wf_new [OF w(4)])
    show "mp_tx (rt_mpsc rt' (rt_next (h_rt h))) \<and> mp_rx (rt_mpsc rt' (rt_next (h_rt h)))" using tx by simp
    show "mp_tx (rt_mpsc rt' c) \<and> mp_rx (rt_mpsc rt' c)"
      if "x \<noteq> a" "statuses (h_clients h) x = Some c" "mp_tx (rt_mpsc (h_rt h) c) \<and> mp_rx (rt_mpsc (h_rt h) c)" for x c
    proof -
      have "c \<noteq> tx" using senders_wfD [OF w(4) that(2)] tx(1) by simp
      moreover have "ti_status_tx (transfer_in cl) \<noteq> Some c"
        using senders_wf_inj [OF w(4) that(2), of a] own that(1) by auto
      ultimately show ?thesis using tx(6) that(3) by (auto simp: mpsc_drop_tx_def split: option.splits)
    qed
  qed
  moreover have "requests_wf (h_clients h) rt'"
    using tx by (intro senders_wf_sub [OF w(3)]) simp_all
  ultimately show ?thesis
    using w(1,2) cl cl' tx(1,2)
    by (auto simp: op_wf_def handler_wf_def put_client_def requests_same [of "h_clients h" a cl] statuses_put)
qed

lemma block_request_response_wf:
  assumes wf: "handler_wf h" and run: "block_request_response h a res = Inr (h', ts)"
  shows "op_wf h h' ts"
proof -
  let ?i = "bq_blockid res"
  obtain cl rt p where cl: "h_clients h a = Some cl"
    and send: "(case pending_block_requests cl ?i of None \<Rightarrow> Inr (h_rt h) | Some c \<Rightarrow> oneshot_send (h_rt h) c) = Inr rt"
    and p: "Partial_new ?i (bq_len res) = Inr p"
    using run by (auto simp: block_request_response_def get_client_Inr bindE_eq_Inr Let_def)
  let ?cl = "cl\<lparr>pending_block_requests := (pending_block_requests cl)(?i := None)\<rparr>"
  let ?h1 = "((put_client h a ?cl)\<lparr>h_rt := rt\<rparr>)\<lparr>h_blockdb := BlockDb_add (h_blockdb h) (Partial p)\<rparr>"
  let ?ts = "ti_transfers (transfer_in cl) @ [\<lparr>tr_blockid = ?i, tr_start = bq_start_id res, tr_end = bq_end_id res\<rparr>]"
  note ans = answered_wf [OF wf cl send]
  have w1: "op_wf h ?h1 []"
    using op_wf_db [OF ans(1) store_wf_add [OF handler_wfD(1) [OF wf] p]] ans(2) by (simp add: op_wf_def)
  then have wf1: "handler_wf ?h1" by (simp add: op_wf_def)
  have cl1: "h_clients ?h1 a = Some ?cl" by (simp add: put_client_def)
  show ?thesis
  proof (cases "length ?ts = 1")
    case True
    obtain tx rt1 where ch: "mpsc_unbounded (mpsc_drop_tx rt (ti_status_tx (transfer_in cl))) = (tx, rt1)"
      by (cases "mpsc_unbounded (mpsc_drop_tx rt (ti_status_tx (transfer_in cl)))")
    let ?cl2 = "?cl\<lparr>transfer_in := \<lparr>ti_transfers = ?ts, ti_status_tx = Some tx\<rparr>\<rparr>"
    obtain rt2 where rt2: "unbounded_send rt1 tx = Inr rt2"
      and h': "h' = (put_client (h\<lparr>h_blockdb := BlockDb_add (h_blockdb h) (Partial p)\<rparr>) a ?cl2)\<lparr>h_rt := rt2\<rparr>"
      and ts: "ts = [StatusTask tx a]"
      using run True cl send p ch
      by (auto simp: block_request_response_def get_client_def bindE_eq_Inr Let_def)
    have "op_wf ?h1 ((put_client ?h1 a ?cl2)\<lparr>h_rt := rt2\<rparr>) [StatusTask tx a]"
      using ch rt2 by (intro new_status_wf [OF wf1 cl1, where rt = rt1]) simp_all
    moreover have "(put_client ?h1 a ?cl2)\<lparr>h_rt := rt2\<rparr> = h'" by (simp add: h' put_client_def)
    ultimately show ?thesis using op_wf_trans [OF w1] ts by simp
  next
    case False
    let ?cl2 = "?cl\<lparr>transfer_in := (transfer_in cl)\<lparr>ti_transfers := ?ts\<rparr>\<rparr>"
    have h': "h' = (put_client (h\<lparr>h_blockdb := BlockDb_add (h_blockdb h) (Partial p)\<rparr>) a ?cl2)\<lparr>h_rt := rt\<rparr>"
      and ts: "ts = []"
      using run False cl send p by (auto simp: block_request_response_def get_client_def bindE_eq_Inr Let_def)
    have "op_wf ?h1 (put_client ?h1 a ?cl2) []"
      using handler_wfD(2) [OF wf cl] by (intro op_wf_client [OF wf1 cl1]) simp_all
    moreover have "put_client ?h1 a ?cl2 = h'" by (simp add: h' put_client_def)
    ultimately show ?thesis using op_wf_trans [OF w1] ts by simp
  qed
qed

text \<open>Changes of channels that keep the ends of every channel whose sender is kept.\<close>

lemma op_wf_rt:
  assumes wf: "handler_wf h" and nxt: "rt_next rt = rt_next (h_rt h)"
    and one: "\<And>c. rt_oneshot (h_rt h) c = Waiting \<Longrightarrow> rt_oneshot rt c = Waiting"
    and mp: "\<And>c. mp_tx (rt_mpsc (h_rt h) c) \<Longrightarrow> mp_rx (rt_mpsc (h_rt h) c) \<Longrightarrow>
      mp_tx (rt_mpsc rt c) \<and> mp_rx (rt_mpsc rt c)"
  shows "op_wf h (h\<lparr>h_rt := rt\<rparr>) []"
proof -
  note w = handler_wfD [OF wf]
  have "requests_wf (h_clients h) rt" using one nxt by (intro senders_wf_sub [OF w(3)]) simp_all
  moreover have "statuses_wf (h_clients h) rt" using mp nxt by (intro senders_wf_sub [OF w(4)]) auto
  ultimately show ?thesis using w(1,2) nxt by (simp add: op_wf_def handler_wf_def)
qed

lemma request_missing_wf:
  "request_missing h a is = Inr (h', ts) \<Longrightarrow> handler_wf h \<Longrightarrow> op_wf h h' ts"
proof (induction h a "is" arbitrary: h' ts rule: request_missing.induct)
  case (1 h a)
  then show ?case by (simp add: op_wf_refl)
next
  case (2 h a i "is")
  show ?case
  proof (cases "contains (h_blockdb h) i")
    case True
    then show ?thesis using 2 by simp
  next
    case False
    then obtain h1 ts1 ts2 where s: "send_block_request h a \<lparr>br_blockid = i\<rparr> = Inr (h1, ts1)"
      and r: "request_missing h1 a is = Inr (h', ts2)" and ts: "ts = ts1 @ ts2"
      using "2.prems"(1) by (auto simp: bindE_eq_Inr)
    have w: "op_wf h h1 ts1" by (rule send_block_request_wf [OF "2.prems"(2) s])
    then have "op_wf h1 h' ts2" using "2.IH"(2) [OF False s refl r] by (simp add: op_wf_def)
    then show ?thesis using op_wf_trans [OF w] ts by simp
  qed
qed

lemma finish_update_wf:
  assumes wf: "handler_wf h" and run: "finish_update E h a = Inr (h', ts)"
  shows "op_wf h h' ts"
proof -
  obtain root db fs where ap: "apply_pending (h_blockdb h) = Inr (root, db)"
    and h': "h' = h\<lparr>h_blockdb := db, h_fs := fs, h_clients := (h_clients h)(a := None),
      h_rt := drop_client (h_rt h) (h_clients h a)\<rparr>" and ts: "\<forall>t \<in> set ts. task_channel t = None"
    using run by (auto simp: finish_update_def bindE_eq_Inr Let_def)
  note w = handler_wfD [OF wf]
  have "op_wf h h' []"
    using w(1,2) ap requests_wf_remove [OF w(3), of a "(h_clients h)(a := None)"]
      statuses_wf_remove [OF w(4), of a "(h_clients h)(a := None)"]
    by (auto simp: op_wf_def handler_wf_def h' split: if_splits)
  then show ?thesis using ts by (rule op_wf_send)
qed

lemma transfer_payload_wf:
  assumes wf: "handler_wf h" and run: "transfer_payload E h a c = Inr (h', ts)"
  shows "op_wf h h' ts"
proof -
  obtain cl tx rt tr db1 promoted db2 where cl: "h_clients h a = Some cl"
    and tx: "unbounded_send (h_rt h) tx = Inr rt"
    and rc: "receive_chunk (h_blockdb h) tr c = Inr db1"
    and pr: "try_promote db1 (tr_blockid tr) = Inr (promoted, db2)"
    and rest: "(let h1 = h\<lparr>h_blockdb := db2, h_rt := rt\<rparr> in
      if \<not> promoted then Inr (h1, [])
      else let h2 = put_client h1 a (cl\<lparr>transfer_in := (transfer_in cl)
             \<lparr>ti_transfers := remove1 tr (ti_transfers (transfer_in cl))\<rparr>\<rparr>)
           in bindE (resolve (e_api E) (e_stack E) db2 (tr_blockid tr) True) (\<lambda>dec.
              bindE (request_missing h2 a (child_ids dec)) (\<lambda>(h3, ts).
              bindE (verify (e_api E) (e_stack E) (h_blockdb h3) True) (\<lambda>complete.
              if \<not> complete then Inr (h3, ts)
              else bindE (finish_update E h3 a) (\<lambda>(h4, ts'). Inr (h4, ts @ ts'))))))
      = Inr (h', ts)"
    using run by (auto simp: transfer_payload_def Let_def bindE_eq_Inr get_client_Inr split del: if_split)
  let ?h1 = "h\<lparr>h_blockdb := db2, h_rt := rt\<rparr>"
  have "store_wf db2" using handler_wfD(1) [OF wf] store_wf_chunk [OF _ rc] store_wf_promote [OF _ pr] by blast
  then have "op_wf h (h\<lparr>h_blockdb := db2\<rparr>) []" by (rule op_wf_db [OF wf])
  moreover have "op_wf (h\<lparr>h_blockdb := db2\<rparr>) ?h1 []"
    by (rule op_wf_rt) (use calculation tx in \<open>auto simp: op_wf_def unbounded_send_Inr\<close>)
  ultimately have w1: "op_wf h ?h1 []" using op_wf_trans by (metis append_Nil)
  show ?thesis
  proof (cases promoted)
    case False
    then show ?thesis using rest w1 by auto
  next
    case True
    let ?cl = "cl\<lparr>transfer_in := (transfer_in cl)\<lparr>ti_transfers := remove1 tr (ti_transfers (transfer_in cl))\<rparr>\<rparr>"
    have "op_wf ?h1 (put_client ?h1 a ?cl) []"
      using w1 cl handler_wfD(2) [OF wf cl] by (intro op_wf_client [where cl = cl]) (simp_all add: op_wf_def)
    with op_wf_trans [OF w1] have w2: "op_wf h (put_client ?h1 a ?cl) []" by fastforce
    obtain dec h3 ts3 complete where rm: "request_missing (put_client ?h1 a ?cl) a (child_ids dec) = Inr (h3, ts3)"
      and "verify (e_api E) (e_stack E) (h_blockdb h3) True = Inr complete"
      and fin: "if complete then \<exists>ts4. finish_update E h3 a = Inr (h', ts4) \<and> ts = ts3 @ ts4
        else h' = h3 \<and> ts = ts3"
      using rest True by (auto simp: Let_def bindE_eq_Inr split: if_splits)
    have "op_wf (put_client ?h1 a ?cl) h3 ts3" using request_missing_wf [OF rm] w2 by (simp add: op_wf_def)
    with op_wf_trans [OF w2] have w3: "op_wf h h3 ts3" by fastforce
    show ?thesis
    proof (cases complete)
      case False
      then show ?thesis using fin w3 by simp
    next
      case True
      then obtain ts4 where f: "finish_update E h3 a = Inr (h', ts4)" "ts = ts3 @ ts4" using fin by auto
      have "op_wf h3 h' ts4" using finish_update_wf [OF _ f(1)] w3 by (simp add: op_wf_def)
      then show ?thesis using op_wf_trans [OF w3] f(2) by simp
    qed
  qed
qed

lemma dispatch_wf:
  assumes wf: "handler_wf h" and run: "dispatch E r h a m = Inr (h', ts)"
  shows "op_wf h h' ts"
proof (cases "client_state h a")
  case New
  then show ?thesis
    using run op_wf_refl [OF wf] unconnected_root_update_wf [OF wf]
    by (cases m) (auto simp: dispatch_def)
next
  case Known
  then show ?thesis
    using run op_wf_refl [OF wf] root_update_response_wf [OF wf] block_request_wf [OF wf]
      block_request_response_wf [OF wf] transfer_payload_wf [OF wf] transfer_status_wf [OF wf]
    by (cases m) (auto simp: dispatch_def split: if_splits)
qed

section \<open>The tasks\<close>

lemma retry_wait_wf: "handler_wf h \<Longrightarrow> retry_wait h ch d = Inr (h', r) \<Longrightarrow> op_wf h h' []"
  by (auto simp: retry_wait_def op_wf_refl split: oneshot.splits intro!: op_wf_rt)

lemma status_step_wf:
  assumes wf: "handler_wf h" and run: "status_step h ch a = Inr (h', r)"
  shows "op_wf h h' []"
proof -
  have "h' = h \<or> (\<not> mp_tx (rt_mpsc (h_rt h) ch) \<and> h' = h\<lparr>h_rt := mpsc_drop_rx (h_rt h) ch\<rparr>) \<or>
    (\<exists>q. h' = h\<lparr>h_rt := (h_rt h)\<lparr>rt_mpsc := (rt_mpsc (h_rt h))(ch := (rt_mpsc (h_rt h) ch)\<lparr>mp_queue := q\<rparr>)\<rparr>\<rparr>)"
    using run by (auto simp: status_step_def Let_def bindE_eq_Inr split: if_splits)
  then show ?thesis
    using wf by (auto simp: mpsc_drop_rx_def op_wf_refl intro!: op_wf_rt)
qed

lemma payload_step_wf:
  assumes wf: "handler_wf h" and run: "payload_step h a = Inr (h', r)"
  shows "op_wf h h' []"
proof -
  obtain cl where cl: "h_clients h a = Some cl"
    using run by (auto simp: payload_step_def bindE_eq_Inr get_client_Inr)
  have "h' = h \<or> (\<exists>cur. h' = put_client h a (cl\<lparr>transfer_out := (transfer_out cl)\<lparr>to_cursor := cur\<rparr>\<rparr>))"
    using run cl
    by (auto simp: payload_step_def get_client_def bindE_eq_Inr Let_def split: option.splits prod.splits)
  then show ?thesis
    using op_wf_refl [OF wf] handler_wfD(2) [OF wf cl]
    by (auto intro!: op_wf_client [OF wf cl] simp: ids_wf_def)
qed

lemma task_step_wf:
  assumes wf: "handler_wf h" and run: "task_step h d t = Inr (h', sent, t')"
    and t: "tasks_wf (h_rt h) [t]"
  shows "op_wf h h' [] \<and> tasks_wf (h_rt h') (case t' of None \<Rightarrow> [] | Some x \<Rightarrow> [x])"
proof -
  have keep: "tasks_wf (h_rt h') [t]" if "op_wf h h' []"
    using tasks_wf_mono [OF t] that by (auto simp: op_wf_def)
  have "op_wf h h' [] \<and> (\<forall>x. t' = Some x \<longrightarrow> task_channel x = task_channel t)"
  proof (cases t)
    case (RetryWait own ch m a)
    have "op_wf h (h\<lparr>h_rt := (h_rt h)\<lparr>rt_oneshot := (rt_oneshot (h_rt h))(ch := Closed)\<rparr>\<rparr>) []"
      if "retry_wait h ch d = Inl e" for e
      using that wf by (intro op_wf_rt) (auto simp: retry_wait_def split: oneshot.splits)
    then show ?thesis
      using run RetryWait retry_wait_wf [OF wf, of ch d]
      by (auto simp: task_step_def split: sum.splits loop_step.splits if_splits)
  next
    case (StatusTask ch a)
    then obtain h1 r where st: "status_step h ch a = Inr (h1, r)"
      using run by (auto simp: task_step_def bindE_eq_Inr)
    then show ?thesis
      using run StatusTask status_step_wf [OF wf st] by (cases r) (auto simp: task_step_def)
  next
    case (PayloadTask a)
    then show ?thesis
      using run payload_step_wf [OF wf, of a] by (auto simp: task_step_def bindE_eq_Inr split: option.splits)
  qed (use run op_wf_refl [OF wf] in \<open>auto simp: task_step_def\<close>)
  then show ?thesis using keep by (cases t') auto
qed

lemma node_step_wf:
  assumes "node_step E n ev n'" and wf: "node_wf n"
  shows "node_wf n'"
proof -
  have task: "node_wf n'" if run: "node_task n i d = Inr (n', sent)" for i d sent
  proof -
    obtain h t' where st: "task_step (nd_handler n) d (nd_tasks n ! i) = Inr (h, sent, t')"
      and i: "i < length (nd_tasks n)"
      and n': "n' = \<lparr>nd_handler = h, nd_tasks = take i (nd_tasks n) @
        (case t' of None \<Rightarrow> [] | Some x \<Rightarrow> [x]) @ drop (Suc i) (nd_tasks n)\<rparr>"
      using run by (auto simp: node_task_def outcome_simps)
    have "tasks_wf (h_rt (nd_handler n)) [nd_tasks n ! i]" using wf i by (auto simp: node_wf_def tasks_wf_def)
    with task_step_wf [OF _ st] wf
    have step: "op_wf (nd_handler n) h []" "tasks_wf (h_rt h) (case t' of None \<Rightarrow> [] | Some x \<Rightarrow> [x])"
      by (auto simp: node_wf_def)
    have "tasks_wf (h_rt h) (nd_tasks n)"
      using step(1) wf by (auto simp: node_wf_def op_wf_def intro: tasks_wf_mono)
    then show ?thesis
      using step by (auto simp: n' node_wf_def op_wf_def tasks_wf_def dest: in_set_takeD in_set_dropD)
  qed
  from assms(1) show ?thesis
  proof cases
    case (receive r a m)
    then obtain h ts where dp: "dispatch E r (nd_handler n) a m = Inr (h, ts)"
      and n': "n' = \<lparr>nd_handler = h, nd_tasks = nd_tasks n @ ts\<rparr>"
      by (auto simp: node_recv_def outcome_simps)
    have "op_wf (nd_handler n) h ts" using dispatch_wf [OF _ dp] wf by (simp add: node_wf_def)
    then show ?thesis
      using wf tasks_wf_mono by (auto simp: n' node_wf_def op_wf_def)
  qed (rule task, assumption)+
qed

section \<open>The start\<close>

interpretation node_invariant: preserved "\<lambda>n n'. \<exists>ev. node_step E n ev n'" node_wf for E
  by unfold_locales (blast intro: node_step_wf)

lemma scsync_main_wf:
  assumes A: "frontend_codec (e_api E)"
    and run: "scsync_main E parse rnd opt is_dir walk fs r nonce = Inr n"
  shows "node_wf n"
proof -
  obtain db delay where db: "blockdb_from_folder (e_api E) rnd (opt2_files opt) is_dir walk = Inr db"
    and n: "n = \<lparr>nd_handler = Handler_new (opt2_files opt) delay db fs, nd_tasks = []\<rparr> \<or>
      (\<exists>addr. n = \<lparr>nd_handler = fst (connect (Handler_new (opt2_files opt) delay db fs) addr r nonce),
            nd_tasks = snd (connect (Handler_new (opt2_files opt) delay db fs) addr r nonce)\<rparr>)"
  proof (cases "opt2_server opt")
    case True
    then show thesis using run that
      by (auto simp: scsync_main_def bindE_eq_Inr Let_def split: option.splits)
  next
    case False
    then show thesis using run that
      by (auto simp: scsync_main_def bindE_eq_Inr Let_def case_prod_beta split: option.splits)
  qed
  have "store_wf db"
    using frontend_codec.folder_db_blocks [OF A db] by (fastforce simp: store_wf_def db_wf_def)
  then have wf: "handler_wf (Handler_new (opt2_files opt) delay db fs)"
    by (simp add: handler_wf_def Handler_new_def senders_wf_def requests_def statuses_def)
  then show ?thesis
    using insert_client_wf [OF wf, of _ r] n by (auto simp: node_wf_def connect_def op_wf_def)
qed

section \<open>Properties\<close>

text \<open>C8: every node stays well-formed. From the start of the program on, whatever messages arrive from
  whomever, and however they interleave with the background tasks: blocks are stored under their ids,
  partial blocks have one flag per chunk, the chunk ids given to blocks do not overlap, every task
  waits on a channel that exists, and every sender the node keeps is the only one of its channel and
  has its receiver. So sending into these channels, which the handler unwraps, does not panic.\<close>

theorem node_well_formed:
  assumes "frontend_codec (e_api E)" and "scsync_main E parse rnd opt is_dir walk fs r nonce = Inr n0"
    and "(\<lambda>n n'. \<exists>ev. node_step E n ev n')\<^sup>*\<^sup>* n0 n"
  shows "node_wf n \<and> (\<forall>a client. h_clients (nd_handler n) a = Some client \<longrightarrow>
    (\<forall>i ch. pending_block_requests client i = Some ch \<longrightarrow> (\<exists>rt. oneshot_send (h_rt (nd_handler n)) ch = Inr rt)) \<and>
    (\<forall>ch. ti_status_tx (transfer_in client) = Some ch \<longrightarrow> (\<exists>rt. unbounded_send (h_rt (nd_handler n)) ch = Inr rt)))"
proof -
  have wf: "node_wf n"
    by (rule node_invariant.always [OF assms(3) scsync_main_wf [OF assms(1,2)]])
  then have req: "requests_wf (h_clients (nd_handler n)) (h_rt (nd_handler n))"
    and st: "statuses_wf (h_clients (nd_handler n)) (h_rt (nd_handler n))"
    by (auto simp: node_wf_def handler_wf_def)
  have "\<exists>rt. oneshot_send (h_rt (nd_handler n)) ch = Inr rt"
    if "h_clients (nd_handler n) a = Some client" "pending_block_requests client i = Some ch" for a client i ch
    using senders_wfD [OF req, of "(a, i)" ch] that by (simp add: requests_def oneshot_send_def)
  moreover have "\<exists>rt. unbounded_send (h_rt (nd_handler n)) ch = Inr rt"
    if "h_clients (nd_handler n) a = Some client" "ti_status_tx (transfer_in client) = Some ch" for a client ch
    using senders_wfD [OF st, of a ch] that by (simp add: statuses_def unbounded_send_def Let_def)
  ultimately show ?thesis using wf by blast
qed

theorem node_well_formed_witness:
  "\<exists>n client ch rt. (\<lambda>n n'. \<exists>ev. node_step demo_server_env n ev n')\<^sup>*\<^sup>* demo_server_node n \<and> node_wf n \<and>
     h_clients (nd_handler n) ([9], 9) = Some client \<and> pending_block_requests client [] = Some ch \<and>
     oneshot_send (h_rt (nd_handler n)) ch = Inr rt"
proof -
  let ?u = "\<lparr>ru_nonce = demo_nonce, ru_from_blockid = replicate 32 0, ru_to_blockref = BlockRef [] [] []\<rparr>"
  have "full_id demo_server_dir \<noteq> []" by (simp add: demo_server_dir_def sealed_def Let_def shift_api_def)
  then obtain n client ch where rc: "node_recv demo_server_env 0 demo_server_node ([9], 9) (RootUpdate ?u) = Inr n"
    and n: "h_clients (nd_handler n) ([9], 9) = Some client" "pending_block_requests client [] = Some ch"
    by (auto simp: node_recv_def dispatch_def client_state_def demo_server_node_def Handler_new_def demo_server_db_def
        unconnected_root_update_def BlockDb_new_def BlockDb_root_def pending_root_def send_block_request_def
        insert_client_def put_client_def get_client_def oneshot_channel_def Let_def split: option.split)
  have "(\<lambda>n n'. \<exists>ev. node_step demo_server_env n ev n')\<^sup>*\<^sup>* demo_server_node n"
    using node_step.receive [OF rc] by blast
  moreover have "frontend_codec (e_api demo_server_env)" using shift_frontend_codec by (simp add: demo_server_env_def)
  ultimately show ?thesis using node_well_formed [OF _ demo_server_node_start] n by blast
qed

end
