(* ===== verification/Block_Arrival.thy ===== *)
theory Block_Arrival
  imports Block_Transfer Node_Types
begin

text \<open>
  The store of a server between two blocks of a synchronisation: every block of the client is absent or
  complete, the complete ones can be reached from the new root, and each block that can be reached and
  is absent has been requested. One more block keeps this, or it was the last one and the folder is
  written.
\<close>

section \<open>A store that fills\<close>

definition reached :: "env2 \<Rightarrow> BlockRef \<Rightarrow> BlockDb \<Rightarrow> BlockId \<Rightarrow> bool" where
  "reached E root db i \<longleftrightarrow> (\<exists>ty r. reaches (e_api E) db (Directory, root) (ty, r) \<and> blockid r = i)"

definition wanted :: "env2 \<Rightarrow> BlockRef \<Rightarrow> BlockDb \<Rightarrow> BlockId \<Rightarrow> bool" where
  "wanted E root db i \<longleftrightarrow> reached E root db i \<and> \<not> is_full db i"

definition filling :: "env2 \<Rightarrow> server_spec \<Rightarrow> BlockDb \<Rightarrow> bool" where
  "filling E sp db \<longleftrightarrow>
     db_inv (sp_ref sp) db \<and> db_wf db \<and> db_pending_root db = Some (db_root (sp_ref sp)) \<and>
     (\<forall>j. full_at (sp_ref sp) j \<noteq> None \<longrightarrow>
        db_blocks db j = None \<or> is_full db j \<and> reached E (db_root (sp_ref sp)) db j)"

text \<open>The server can walk the client's tree, and no two of its nodes share a block.\<close>

definition walkable :: "env2 \<Rightarrow> server_spec \<Rightarrow> bool" where
  "walkable E sp \<longleftrightarrow> spec_ok E sp \<and> tree_depth (TDir (sp_kids sp)) \<le> e_stack E \<and>
     one_block_each (e_api E) (sp_ref sp) (db_root (sp_ref sp))"

lemma reached_tree:
  assumes "reaches (e_api E) db (Directory, db_root (sp_ref sp)) (ty, r)" and "db_inv (sp_ref sp) db" and "walkable E sp"
  obtains t where "holds (e_api E) (sp_ref sp) t ty r" and "full_at (sp_ref sp) (blockid r) \<noteq> None"
proof -
  have h: "holds (e_api E) (sp_ref sp) (TDir (sp_kids sp)) (fst (Directory, db_root (sp_ref sp)))
      (snd (Directory, db_root (sp_ref sp)))"
    using assms(3) by (simp add: walkable_def spec_ok_def)
  from reaches_tree [OF assms(1) db_inv_agrees [OF assms(2)] h] obtain t where "holds (e_api E) (sp_ref sp) t ty r"
    by auto
  then show ?thesis using holds_full [of "e_api E" "sp_ref sp" t ty r] that by blast
qed

lemma wanted_new:
  assumes "wanted E (db_root (sp_ref sp)) db i" and "filling E sp db" and "walkable E sp"
  obtains d where "db_blocks db i = None" and "full_at (sp_ref sp) i = Some d"
proof -
  obtain ty r where r: "reaches (e_api E) db (Directory, db_root (sp_ref sp)) (ty, r)" "blockid r = i" "\<not> is_full db i"
    using assms(1) by (auto simp: wanted_def reached_def)
  have "full_at (sp_ref sp) i \<noteq> None"
    using reached_tree [OF r(1) _ assms(3)] assms(2) r(2) by (auto simp: filling_def)
  then show ?thesis using that assms(2) r(3) by (auto simp: filling_def)
qed

lemma reached_absent_root: "\<not> is_full db (blockid root) \<Longrightarrow> reached E root db i \<Longrightarrow> i = blockid root"
proof -
  assume absent: "\<not> is_full db (blockid root)" and "reached E root db i"
  then obtain ty r where "reaches (e_api E) db (Directory, root) (ty, r)" "blockid r = i" by (auto simp: reached_def)
  then show "i = blockid root"
    by (cases rule: reachesE) (use absent in \<open>auto simp: is_full_def get_decoded_def outcome_simps\<close>)
qed

text \<open>One more block.\<close>

abbreviation with_block :: "BlockDb \<Rightarrow> BlockId \<Rightarrow> u8 list \<Rightarrow> BlockDb" where
  "with_block db i d \<equiv> db\<lparr>db_blocks := (db_blocks db)(i \<mapsto> Full \<lparr>full_id = i, full_data = d\<rparr>)\<rparr>"

lemma is_full_with_block [simp]: "is_full (with_block db i d) j \<longleftrightarrow> j = i \<or> is_full db j"
  by (simp add: is_full_def)

lemma with_block_more: "db_blocks db i = None \<Longrightarrow> db_blocks db \<subseteq>\<^sub>m db_blocks (with_block db i d)"
  by (auto simp: map_le_def)

lemma reached_mono: "reached E root db j \<Longrightarrow> db_blocks db i = None \<Longrightarrow> reached E root (with_block db i d) j"
  unfolding reached_def using reaches_mono [OF _ with_block_more] by blast

lemma filling_with_block:
  assumes fill: "filling E sp db" and want: "wanted E (db_root (sp_ref sp)) db i"
    and new: "db_blocks db i = None" "full_at (sp_ref sp) i = Some d"
  shows "filling E sp (with_block db i d)"
proof -
  have "db_inv (sp_ref sp) (with_block db i d)"
    using fill new(2) by (intro db_inv_update) (auto simp: filling_def)
  moreover have "db_wf (with_block db i d)" using fill by (auto simp: filling_def db_wf_def)
  moreover have "reached E (db_root (sp_ref sp)) (with_block db i d) i"
    using want reached_mono [OF _ new(1)] by (auto simp: wanted_def)
  ultimately show ?thesis using fill reached_mono [OF _ new(1)] by (auto simp: filling_def)
qed

lemma arriving_with_block:
  assumes fill: "filling E sp (with_block db i d)" and walk: "walkable E sp" and want: "wanted E (db_root (sp_ref sp)) db i"
  shows "arriving (e_api E) (e_stack E) (sp_ref sp) (TDir (sp_kids sp)) (db_root (sp_ref sp)) (with_block db i d)"
proof -
  have "is_full (with_block db i d) (blockid (db_root (sp_ref sp)))"
    using want reached_absent_root [of db "db_root (sp_ref sp)" E i] by (auto simp: wanted_def)
  then show ?thesis
    using fill walk db_inv_agrees by (auto simp: arriving_def filling_def walkable_def spec_ok_def)
qed

text \<open>The new block is found and read, and what is wanted now was wanted before or is one of its children.\<close>

lemma resolved_with_block:
  assumes fill: "filling E sp db" and walk: "walkable E sp" and want: "wanted E (db_root (sp_ref sp)) db i"
    and new: "db_blocks db i = None" "full_at (sp_ref sp) i = Some d"
  shows "\<exists>dec. resolve (e_api E) (e_stack E) (with_block db i d) i True = Inr dec \<and>
    (\<forall>j. wanted E (db_root (sp_ref sp)) (with_block db i d) j \<longrightarrow>
       wanted E (db_root (sp_ref sp)) db j \<and> j \<noteq> i \<or>
       j \<in> set (child_ids dec) \<and> \<not> contains (with_block db i d) j)"
proof -
  let ?A = "e_api E" and ?root = "db_root (sp_ref sp)" and ?db = "with_block db i d"
  note fill' = filling_with_block [OF fill want new]
  note arr = arriving_with_block [OF fill' walk want]
  have dbi: "db_inv (sp_ref sp) db" "db_inv (sp_ref sp) ?db" using fill fill' by (auto simp: filling_def)
  obtain ty r where r: "reaches ?A db (Directory, ?root) (ty, r)" "blockid r = i"
    using want by (auto simp: wanted_def reached_def)
  have r': "reaches ?A ?db (Directory, ?root) (ty, r)" by (rule reaches_mono [OF r(1) with_block_more [OF new(1)]])
  obtain t where t: "holds ?A (sp_ref sp) t ty r" using reached_tree [OF r(1) dbi(1) walk] by blast
  have here: "db_blocks ?db (blockid r) = Some (Full \<lparr>full_id = i, full_data = d\<rparr>)" using r(2) by simp
  then obtain dec where dec: "decode_as ?A ty \<lparr>full_id = i, full_data = d\<rparr> (key r) = Inr dec"
    using decode_arrived [OF t db_inv_agrees [OF dbi(2)]] by blast
  have res: "resolve ?A (e_stack E) ?db i True = Inr dec" using resolve_arriving [OF arr r' here dec] r(2) by simp
  have one: "one_block_each ?A (sp_ref sp) ?root"
    and tree: "holds ?A (sp_ref sp) (TDir (sp_kids sp)) Directory ?root"
    using walk by (auto simp: walkable_def spec_ok_def)
  have "wanted E ?root db j \<and> j \<noteq> i \<or> j \<in> set (child_ids dec) \<and> \<not> contains ?db j" if j: "wanted E ?root ?db j" for j
  proof -
    obtain ty' r2 where r2: "reaches ?A ?db (Directory, ?root) (ty', r2)" "blockid r2 = j" "j \<noteq> i" "\<not> is_full db j"
      using j by (auto simp: wanted_def reached_def)
    have seen: "\<exists>ty r. reaches ?A db (Directory, ?root) (ty, r) \<and> blockid r = j"
      if "full_at (sp_ref sp) j \<noteq> None" "is_full db j \<or> j = i" for j
      using that fill r by (auto simp: filling_def reached_def is_full_def)
    have "reaches ?A db (Directory, ?root) (ty', r2) \<or>
      (\<exists>r d' c. reaches ?A db (Directory, ?root) (Directory, r) \<and> blockid r = i \<and>
         get_decoded (Dir_from_full ?A) ?db i (key r) = Inr d' \<and> c \<in> set (dir_children d') \<and>
         (ty', r2) = (child_type c, child_blockref c))"
      using reaches_new_block [OF db_inv_agrees [OF dbi(2)] tree one _ with_block_more [OF new(1)] seen r2(1)] by simp
    then show ?thesis
    proof
      assume "reaches ?A db (Directory, ?root) (ty', r2)"
      then show ?thesis using r2 by (auto simp: wanted_def reached_def)
    next
      assume "\<exists>r d' c. reaches ?A db (Directory, ?root) (Directory, r) \<and> blockid r = i \<and>
         get_decoded (Dir_from_full ?A) ?db i (key r) = Inr d' \<and> c \<in> set (dir_children d') \<and>
         (ty', r2) = (child_type c, child_blockref c)"
      then obtain r3 d' c where r3: "reaches ?A db (Directory, ?root) (Directory, r3)" "blockid r3 = i"
        "get_decoded (Dir_from_full ?A) ?db i (key r3) = Inr d'" "c \<in> set (dir_children d')" "r2 = child_blockref c"
        by auto
      have "(Directory, r3) = (ty, r)"
        using reaches_tree [OF r3(1) db_inv_agrees [OF dbi(1)], of "TDir (sp_kids sp)"]
          reaches_tree [OF r(1) db_inv_agrees [OF dbi(1)], of "TDir (sp_kids sp)"] r3(2) r(2) tree one
        unfolding one_block_each_def by force
      then have "dec = Decoded.Dir d'"
        using dec r3(3) r(2) by (auto simp: decode_as_def get_decoded_def BlockDb_get_def outcome_simps)
      then have "j \<in> set (child_ids dec)" using r3(4,5) r2(2) by (auto simp: child_ids_def)
      moreover have "\<not> contains ?db j"
      proof -
        have "full_at (sp_ref sp) j \<noteq> None" using reached_tree [OF r2(1) dbi(2) walk] r2(2) by blast
        then have "db_blocks db j = None" using fill r2(4) by (auto simp: filling_def)
        then show ?thesis using r2(3) by (simp add: contains_def)
      qed
      ultimately show ?thesis by blast
    qed
  qed
  then show ?thesis using res by blast
qed

section \<open>The last chunk of a block\<close>

text \<open>A complete store is written to the folder.\<close>

lemma finish_update_runs:
  assumes "walkable E sp" and "filling E sp (h_blockdb h)"
    and "all_full (e_api E) (h_blockdb h) Directory (db_root (sp_ref sp))"
    and "h_fs h = sp_fs sp" and "h_folder h = sp_folder sp"
  shows "\<exists>h' ts. finish_update E h a = Inr (h', ts) \<and> db_root (h_blockdb h') = db_root (sp_ref sp)"
proof -
  have pend: "db_pending_root (h_blockdb h) = Some (db_root (sp_ref sp))" and dbi: "db_inv (sp_ref sp) (h_blockdb h)"
    using assms(2) by (auto simp: filling_def)
  let ?db = "(h_blockdb h)\<lparr>db_root := db_root (sp_ref sp), db_pending_root := None\<rparr>"
  have ap: "apply_pending (h_blockdb h) = Inr (db_root (h_blockdb h), ?db)" using pend by (simp add: apply_pending_def)
  have ok: "spec_ok E sp" using assms(1) by (simp add: walkable_def)
  have "holds (e_api E) (h_blockdb h) (TDir (sp_kids sp)) Directory (db_root (sp_ref sp))"
    using ok by (intro holds_agrees(1) [OF _ db_inv_agrees [OF dbi] assms(3)]) (simp add: spec_ok_def)
  then have "holds (e_api E) ?db (TDir (sp_kids sp)) Directory (db_root ?db)"
    using holds_mono(1) [of "e_api E" "h_blockdb h" _ _ _ ?db] by (simp del: holds.simps)
  then have "write_to_dir (e_api E) (e_stack E) ?db (e_cwd E) (h_folder h) (h_fs h) = Inr (sp_target E sp)"
    unfolding sp_target_def assms(4,5)
    using ok by (intro write_to_dir_holds) (auto simp: spec_ok_def sp_place_def)
  then show ?thesis using ap by (simp add: finish_update_def Let_def)
qed

lemma block_arrives:
  assumes walk: "walkable E sp" and fill: "filling E sp db" and want: "wanted E (db_root (sp_ref sp)) db i"
    and new: "db_blocks db i = None" "full_at (sp_ref sp) i = Some d"
    and rcv: "receiving h a cl i f d k" "Suc k = nchunks d" "length d < 2 ^ 64"
    and h: "h_blockdb h = db\<lparr>db_blocks := (db_blocks db)(i := b)\<rparr>" "h_fs h = sp_fs sp" "h_folder h = sp_folder sp"
    and req: "\<forall>j. wanted E (db_root (sp_ref sp)) db j \<and> j \<noteq> i \<longrightarrow> requested a cl ts0 j"
  shows "\<exists>h' ts. transfer_payload E h a \<lparr>tp_chunkid = f + k, tp_data = chunk_of CHUNK_SIZE d k\<rparr> = Inr (h', ts) \<and>
    (db_root (h_blockdb h') = db_root (sp_ref sp) \<or>
     h_blockdb h' = with_block db i d \<and> (\<exists>j. wanted E (db_root (sp_ref sp)) (with_block db i d) j) \<and>
     (\<exists>cl'. h_clients h' a = Some cl' \<and> ti_transfers (transfer_in cl') = [] \<and>
        (\<forall>j. wanted E (db_root (sp_ref sp)) (with_block db i d) j \<longrightarrow> requested a cl' (ts0 @ ts) j)))"
proof -
  let ?root = "db_root (sp_ref sp)" and ?db = "with_block db i d"
  let ?cl = "cl\<lparr>transfer_in := (transfer_in cl)\<lparr>ti_transfers := []\<rparr>\<rparr>"
  note fill' = filling_with_block [OF fill want new]
  note arr = arriving_with_block [OF fill' walk want]
  have db: "(h_blockdb h)\<lparr>db_blocks := (db_blocks (h_blockdb h))(i \<mapsto> Full \<lparr>full_id = i, full_data = d\<rparr>)\<rparr> = ?db"
    using h(1) by simp
  obtain dec where dec: "resolve (e_api E) (e_stack E) ?db i True = Inr dec"
    "\<forall>j. wanted E ?root ?db j \<longrightarrow> wanted E ?root db j \<and> j \<noteq> i \<or> j \<in> set (child_ids dec) \<and> \<not> contains ?db j"
    using resolved_with_block [OF fill walk want new] by blast
  obtain rt where pay: "transfer_payload E h a \<lparr>tp_chunkid = f + k, tp_data = chunk_of CHUNK_SIZE d k\<rparr> =
      bindE (request_missing (put_client (h\<lparr>h_blockdb := ?db, h_rt := rt\<rparr>) a ?cl) a (child_ids dec)) (\<lambda>(h3, ts).
      bindE (verify (e_api E) (e_stack E) (h_blockdb h3) True) (\<lambda>complete.
      if \<not> complete then Inr (h3, ts)
      else bindE (finish_update E h3 a) (\<lambda>(h4, ts'). Inr (h4, ts @ ts'))))"
    using payload_completes [OF rcv, of E] dec(1) unfolding Let_def db by auto
  define h2 where "h2 = put_client (h\<lparr>h_blockdb := ?db, h_rt := rt\<rparr>) a ?cl"
  have h2: "h_clients h2 a = Some ?cl" "h_blockdb h2 = ?db" "h_fs h2 = sp_fs sp" "h_folder h2 = sp_folder sp"
    using h by (simp_all add: h2_def put_client_def)
  from requests_missing [OF h2(1), of "child_ids dec"] obtain h3 ts cl' where
    rm: "request_missing h2 a (child_ids dec) = Inr (h3, ts)" "h_clients h3 = (h_clients h2)(a \<mapsto> cl')"
      "transfer_in cl' = transfer_in ?cl" "h_blockdb h3 = h_blockdb h2" "h_fs h3 = h_fs h2" "h_folder h3 = h_folder h2"
    and asked: "\<forall>j \<in> set (child_ids dec). \<not> contains (h_blockdb h2) j \<longrightarrow> requested a cl' ts j"
      "\<forall>j ts0. requested a ?cl ts0 j \<longrightarrow> requested a cl' (ts0 @ ts) j"
    by blast
  have db3: "h_blockdb h3 = ?db" using rm(4) h2(2) by simp
  have vf: "verify (e_api E) (e_stack E) ?db True = Inr (all_full (e_api E) ?db Directory ?root)"
    by (rule verify_arriving [OF arr])
  note pay' = pay [folded h2_def, unfolded rm(1)]
  show ?thesis
  proof (cases "all_full (e_api E) ?db Directory ?root")
    case True
    then obtain h4 ts' where "finish_update E h3 a = Inr (h4, ts')" "db_root (h_blockdb h4) = ?root"
      using finish_update_runs [OF walk, of h3 a] fill' db3 rm(5,6) h2(3,4) by auto
    then show ?thesis using pay' vf db3 True by auto
  next
    case False
    then have run: "transfer_payload E h a \<lparr>tp_chunkid = f + k, tp_data = chunk_of CHUNK_SIZE d k\<rparr> = Inr (h3, ts)"
      using pay' vf db3 by simp
    have left: "\<exists>j. wanted E ?root ?db j" using False by (auto simp: all_full_def wanted_def reached_def)
    have "requested a cl' (ts0 @ ts) j" if wj: "wanted E ?root ?db j" for j
    proof -
      consider "wanted E ?root db j \<and> j \<noteq> i" | "j \<in> set (child_ids dec)" "\<not> contains ?db j" using dec(2) wj by blast
      then show ?thesis
      proof cases
        case 1
        then have "requested a cl ts0 j" using req by blast
        then have "requested a ?cl ts0 j" by (simp add: requested_def)
        then show ?thesis using asked(2) by blast
      next
        case 2
        then have "requested a cl' ts j" using asked(1) h2(2) by simp
        then show ?thesis by (auto simp: requested_def)
      qed
    qed
    moreover have "h_clients h3 a = Some cl'" "ti_transfers (transfer_in cl') = []" using rm(2,3) by simp_all
    ultimately show ?thesis using run db3 left by blast
  qed
qed

end
