(* ===== verification/Sync_Liveness.thy ===== *)
theory Sync_Liveness
  imports Block_Arrival
begin

text \<open>
  A synchronisation of version 2 can be completed: as long as a block is missing, some run of client,
  server and network transfers one more, and the last one makes the server write the folder. The run
  is the one without losses: request, answer, status update, chunks.
\<close>

section \<open>Single steps\<close>

definition carried :: "sync_env \<Rightarrow> Msg \<Rightarrow> bool" where
  "carried Y m \<longleftrightarrow> (\<exists>bs rest. sync_encode Y m = Inr bs \<and> sync_decode Y bs = Inr (Some m, rest))"

definition told_server :: "sync_env \<Rightarrow> Sync \<Rightarrow> Msg \<Rightarrow> bool" where
  "told_server Y s m \<longleftrightarrow> (\<exists>bs \<in> to_server s. \<exists>rest. sync_decode Y bs = Inr (Some m, rest))"

definition told_client :: "sync_env \<Rightarrow> Sync \<Rightarrow> Msg \<Rightarrow> bool" where
  "told_client Y s m \<longleftrightarrow> (\<exists>bs \<in> to_client s. \<exists>rest. sync_decode Y bs = Inr (Some m, rest))"

lemma node_task_run:
  assumes "t \<in> set (nd_tasks n)" and "task_step (nd_handler n) dl t = Inr (h, sent, t')"
  obtains i n' where "node_task n i dl = Inr (n', sent)" and "nd_handler n' = h"
    and "set (nd_tasks n) - {t} \<subseteq> set (nd_tasks n')" and "set_option t' \<subseteq> set (nd_tasks n')"
proof -
  obtain i where i: "i < length (nd_tasks n)" "nd_tasks n ! i = t" using assms(1) by (metis in_set_conv_nth)
  let ?ts = "take i (nd_tasks n) @ (case t' of None \<Rightarrow> [] | Some x \<Rightarrow> [x]) @ drop (Suc i) (nd_tasks n)"
  have "node_task n i dl = Inr (\<lparr>nd_handler = h, nd_tasks = ?ts\<rparr>, sent)"
    using i assms(2) by (simp add: node_task_def slice_get_def)
  moreover have "set (nd_tasks n) = set (take i (nd_tasks n)) \<union> {t} \<union> set (drop (Suc i) (nd_tasks n))"
    using arg_cong [OF id_take_nth_drop [OF i(1)], of set] i(2) by simp
  then have "set (nd_tasks n) - {t} \<subseteq> set ?ts" by auto
  ultimately show ?thesis using that by (auto split: option.splits)
qed

lemma server_sends_msg:
  assumes "t \<in> set (nd_tasks (sy_server s))" and "carried Y m"
    and "task_step (nd_handler (sy_server s)) dl t = Inr (h, Some (m, y_client_addr Y), t')"
  obtains s' where "sync_step Y s s'" and "told_client Y s' m" and "sy_client s' = sy_client s"
    and "nd_handler (sy_server s') = h" and "set (nd_tasks (sy_server s)) - {t} \<subseteq> set (nd_tasks (sy_server s'))"
proof -
  obtain i n' where n': "node_task (sy_server s) i dl = Inr (n', Some (m, y_client_addr Y))" "nd_handler n' = h"
    "set (nd_tasks (sy_server s)) - {t} \<subseteq> set (nd_tasks n')"
    by (rule node_task_run [OF assms(1,3)])
  obtain bs rest where bs: "sync_encode Y m = Inr bs" "sync_decode Y bs = Inr (Some m, rest)"
    using assms(2) by (auto simp: carried_def)
  from sync_step.server_sends [OF node_step.send [OF n'(1)] bs(1)]
  have "sync_step Y s (s\<lparr>sy_server := n', to_client := insert bs (to_client s)\<rparr>)" by simp
  then show ?thesis using that n'(2,3) bs(2) by (force simp: told_client_def)
qed

lemma client_sends_msg:
  assumes "t \<in> set (nd_tasks (sy_client s))" and "carried Y m"
    and "task_step (nd_handler (sy_client s)) dl t = Inr (h, Some (m, y_server_addr Y), t')"
  obtains s' where "sync_step Y s s'" and "told_server Y s' m" and "sy_server s' = sy_server s"
    and "nd_handler (sy_client s') = h" and "set_option t' \<subseteq> set (nd_tasks (sy_client s'))"
proof -
  obtain i n' where n': "node_task (sy_client s) i dl = Inr (n', Some (m, y_server_addr Y))" "nd_handler n' = h"
    "set_option t' \<subseteq> set (nd_tasks n')"
    by (rule node_task_run [OF assms(1,3)])
  obtain bs rest where bs: "sync_encode Y m = Inr bs" "sync_decode Y bs = Inr (Some m, rest)"
    using assms(2) by (auto simp: carried_def)
  from sync_step.client_sends [OF node_step.send [OF n'(1)] bs(1)]
  have "sync_step Y s (s\<lparr>sy_client := n', to_server := insert bs (to_server s)\<rparr>)" by simp
  then show ?thesis using that n'(2,3) bs(2) by (force simp: told_server_def)
qed

lemma server_gets_msg:
  assumes "told_server Y s m" and "dispatch (y_server Y) r (nd_handler (sy_server s)) (y_client_addr Y) m = Inr (h, ts)"
  shows "sync_step Y s (s\<lparr>sy_server := \<lparr>nd_handler = h, nd_tasks = nd_tasks (sy_server s) @ ts\<rparr>\<rparr>)"
proof -
  obtain bs rest where bs: "bs \<in> to_server s" "sync_decode Y bs = Inr (Some m, rest)"
    using assms(1) by (auto simp: told_server_def)
  have "node_recv (y_server Y) r (sy_server s) (y_client_addr Y) m
      = Inr \<lparr>nd_handler = h, nd_tasks = nd_tasks (sy_server s) @ ts\<rparr>"
    using assms(2) by (simp add: node_recv_def)
  from sync_step.server_receives [OF bs node_step.receive [OF this]] show ?thesis .
qed

lemma client_gets_msg:
  assumes "told_client Y s m" and "dispatch (y_client Y) r (nd_handler (sy_client s)) (y_server_addr Y) m = Inr (h, ts)"
  shows "sync_step Y s (s\<lparr>sy_client := \<lparr>nd_handler = h, nd_tasks = nd_tasks (sy_client s) @ ts\<rparr>\<rparr>)"
proof -
  obtain bs rest where bs: "bs \<in> to_client s" "sync_decode Y bs = Inr (Some m, rest)"
    using assms(1) by (auto simp: told_client_def)
  have "node_recv (y_client Y) r (sy_client s) (y_server_addr Y) m
      = Inr \<lparr>nd_handler = h, nd_tasks = nd_tasks (sy_client s) @ ts\<rparr>"
    using assms(2) by (simp add: node_recv_def)
  from sync_step.client_receives [OF bs node_step.receive [OF this]] show ?thesis .
qed

text \<open>What holds in every state of a run.\<close>

definition sync_good :: "sync_env \<Rightarrow> server_spec \<Rightarrow> Sync \<Rightarrow> bool" where
  "sync_good Y sp s \<longleftrightarrow> sync_ok Y sp \<and> sync_inv Y sp s \<and> node_wf (sy_server s)"

lemma sync_good_step: "sync_step Y s s' \<Longrightarrow> sync_good Y sp s \<Longrightarrow> sync_good Y sp s'"
proof -
  assume step: "sync_step Y s s'" and good: "sync_good Y sp s"
  from step have "sy_server s' = sy_server s \<or> (\<exists>ev. node_step (y_server Y) (sy_server s) ev (sy_server s'))"
    by cases auto
  then have "node_wf (sy_server s')" using good node_step_wf by (metis sync_good_def)
  then show ?thesis using good sync_step_inv [OF step] by (simp add: sync_good_def)
qed

interpretation sync_runs: preserved "sync_step Y" "sync_good Y sp" for Y sp
  by unfold_locales (rule sync_good_step)

lemmas sync_good_steps = sync_runs.always

lemma sync_good_client:
  assumes "sync_good Y sp s"
  obtains cl where "h_blockdb (nd_handler (sy_client s)) = sp_ref sp"
    and "h_clients (nd_handler (sy_client s)) (y_server_addr Y) = Some cl"
    and "alloc_ok (sp_ref sp) (to_transfers (transfer_out cl)) (to_transfer_cursor (transfer_out cl))"
    and "client_out (y_server_addr Y) (sy_client s) = transfer_out cl"
    and "client_state (nd_handler (sy_client s)) (y_server_addr Y) = Known"
proof -
  have "client_node_inv (sp_ref sp) (y_server_addr Y) (sy_client s)"
    using assms by (simp add: sync_good_def sync_inv_def)
  then show ?thesis by (rule client_node_invE) (use that in \<open>auto simp: client_state_def\<close>)
qed

section \<open>Messages that fit\<close>

text \<open>
  The buffer has room for the messages of the protocol, and a number below \<open>2 ^ 63\<close> takes at most nine
  bytes, so a full chunk and its id fit one segment.
\<close>

definition msgs_fit :: "sync_env \<Rightarrow> BlockDb \<Rightarrow> bool" where
  "msgs_fit Y ref \<longleftrightarrow>
     MTU2 \<le> y_room Y \<and> (\<forall>n < 2 ^ 63. length (enc_varint (y_varint Y) n) \<le> 9) \<and>
     (\<forall>u. RootUpdate_ok u \<and> ru_to_blockref u = db_root ref \<longrightarrow>
        1 + length (to_writer (s_root_update (y_serde Y)) u) \<le> y_room Y) \<and>
     (\<forall>r. BlockRequest_ok r \<longrightarrow> 1 + length (to_writer (s_block_request (y_serde Y)) r) \<le> y_room Y) \<and>
     (\<forall>r. BlockRequestResponse_ok r \<longrightarrow>
        1 + length (to_writer (s_block_request_response (y_serde Y)) r) \<le> y_room Y)"

lemma carried_ok:
  assumes "msg_codec (y_varint Y) (y_serde Y)" and "msgs_fit Y ref" and "Msg_ok (y_varint Y) (y_serde Y) (y_room Y) m"
  shows "carried Y m"
  using msg_read_back [OF assms(1) _ assms(3)] assms(2)
  by (auto simp: carried_def sync_encode_def sync_decode_def msgs_fit_def)

lemma carried_msgs:
  assumes "msg_codec (y_varint Y) (y_serde Y)" and "msgs_fit Y ref"
  shows "RootUpdate_ok u \<Longrightarrow> ru_to_blockref u = db_root ref \<Longrightarrow> carried Y (RootUpdate u)"
    and "BlockRequest_ok q \<Longrightarrow> carried Y (BlockRequest q)"
    and "BlockRequestResponse_ok p \<Longrightarrow> carried Y (BlockRequestResponse p)"
    and "x \<le> y \<Longrightarrow> y < 2 ^ 64 \<Longrightarrow> carried Y (TransferStatus \<lparr>missing_ranges = [(x, y)]\<rparr>)"
    and "c < 2 ^ 63 \<Longrightarrow> length bs \<le> CHUNK_SIZE \<Longrightarrow> carried Y (TransferPayload \<lparr>tp_chunkid = c, tp_data = bs\<rparr>)"
proof -
  show "carried Y (TransferPayload \<lparr>tp_chunkid = c, tp_data = bs\<rparr>)" if "c < 2 ^ 63" "length bs \<le> CHUNK_SIZE"
  proof (rule carried_ok [OF assms])
    have "length (enc_varint (y_varint Y) c) \<le> 9" using assms(2) that(1) by (simp add: msgs_fit_def)
    then show "Msg_ok (y_varint Y) (y_serde Y) (y_room Y) (TransferPayload \<lparr>tp_chunkid = c, tp_data = bs\<rparr>)"
      using that by (simp add: Msg_ok_def MTU2_def CHUNK_SIZE_def)
  qed
  have V: "varint_codec (y_varint Y)" using assms(1) by (simp add: msg_codec_def)
  show "carried Y (TransferStatus \<lparr>missing_ranges = [(x, y)]\<rparr>)" if "x \<le> y" "y < 2 ^ 64"
    using that status_size_one [OF V that] by (intro carried_ok [OF assms]) (simp add: Msg_ok_def)
qed (use assms(2) in \<open>auto simp: msgs_fit_def Msg_ok_def MTU2_def intro!: carried_ok [OF assms]\<close>)

section \<open>One block\<close>

text \<open>
  What a run needs of the parameters: every message can be sent, the server can walk the tree, and no
  block is empty.
\<close>

definition sync_feasible :: "sync_env \<Rightarrow> server_spec \<Rightarrow> bool" where
  "sync_feasible Y sp \<longleftrightarrow>
     msgs_fit Y (sp_ref sp) \<and> walkable (y_server Y) sp \<and> finite (dom (db_blocks (sp_ref sp))) \<and>
     (\<forall>i d. full_at (sp_ref sp) i = Some d \<longrightarrow> d \<noteq> [])"

lemma sync_good_codec: "sync_good Y sp s \<Longrightarrow> msg_codec (y_varint Y) (y_serde Y)"
  by (simp add: sync_good_def sync_ok_def)

text \<open>The server while it fetches a block: its store but for that block, and the other requests.\<close>

definition fetching :: "sync_env \<Rightarrow> server_spec \<Rightarrow> BlockDb \<Rightarrow> BlockId \<Rightarrow> Client2 \<Rightarrow> Node \<Rightarrow> bool" where
  "fetching Y sp db i cl n \<longleftrightarrow>
     h_clients (nd_handler n) (y_client_addr Y) = Some cl \<and>
     (\<exists>b. h_blockdb (nd_handler n) = db\<lparr>db_blocks := (db_blocks db)(i := b)\<rparr>) \<and>
     (\<forall>j. wanted (y_server Y) (db_root (sp_ref sp)) db j \<and> j \<noteq> i \<longrightarrow> requested (y_client_addr Y) cl (nd_tasks n) j)"

text \<open>The client with the chunk ids of a block.\<close>

definition offers :: "sync_env \<Rightarrow> Sync \<Rightarrow> BlockId \<Rightarrow> nat \<Rightarrow> u8 list \<Rightarrow> nat \<Rightarrow> bool" where
  "offers Y s i f d n \<longleftrightarrow> (f, f + length d, i) \<in> set (to_transfers (client_out (y_server_addr Y) (sy_client s))) \<and>
     f + length d < 2 ^ 63 \<and> to_transfer_cursor (client_out (y_server_addr Y) (sy_client s)) \<le> n"

lemma block_asked:
  assumes good: "sync_good Y sp s" and fit: "msgs_fit Y (sp_ref sp)"
    and req: "requested (y_client_addr Y) cl (nd_tasks (sy_server s)) i" and i: "length i = 32"
    and cl: "h_clients (nd_handler (sy_server s)) (y_client_addr Y) = Some cl"
    and rest: "\<forall>j. wanted (y_server Y) (db_root (sp_ref sp)) (h_blockdb (nd_handler (sy_server s))) j \<longrightarrow>
      requested (y_client_addr Y) cl (nd_tasks (sy_server s)) j"
    and new: "db_blocks (h_blockdb (nd_handler (sy_server s))) i = None"
  obtains s' where "sync_step Y s s'" and "told_client Y s' (BlockRequest \<lparr>br_blockid = i\<rparr>)"
    and "sy_client s' = sy_client s" and "nd_handler (sy_server s') = nd_handler (sy_server s)"
    and "fetching Y sp (h_blockdb (nd_handler (sy_server s))) i cl (sy_server s')"
proof -
  let ?m = "BlockRequest \<lparr>br_blockid = i\<rparr>" and ?a = "y_client_addr Y"
  obtain ch where ch: "pending_block_requests cl i = Some ch" "RetryTask True ch ?m ?a \<in> set (nd_tasks (sy_server s))"
    using req by (auto simp: requested_def)
  have "carried Y ?m"
    using carried_msgs(2) [OF sync_good_codec [OF good] fit] i by (simp add: BlockRequest_ok_def BlockId_ok_def)
  then obtain s' where s': "sync_step Y s s'" "told_client Y s' ?m" "sy_client s' = sy_client s"
    "nd_handler (sy_server s') = nd_handler (sy_server s)"
    "set (nd_tasks (sy_server s)) - {RetryTask True ch ?m ?a} \<subseteq> set (nd_tasks (sy_server s'))"
    by (rule server_sends_msg [OF ch(2)]) (simp_all add: task_step_def)
  have "requested ?a cl (nd_tasks (sy_server s')) j"
    if "wanted (y_server Y) (db_root (sp_ref sp)) (h_blockdb (nd_handler (sy_server s))) j" "j \<noteq> i" for j
    using rest that s'(5) by (force simp: requested_def)
  moreover have "h_blockdb (nd_handler (sy_server s)) = (h_blockdb (nd_handler (sy_server s)))
      \<lparr>db_blocks := (db_blocks (h_blockdb (nd_handler (sy_server s))))(i := None)\<rparr>"
    using new by (simp add: fun_upd_idem)
  ultimately have "fetching Y sp (h_blockdb (nd_handler (sy_server s))) i cl (sy_server s')"
    using cl s'(4) unfolding fetching_def by metis
  then show ?thesis using that s' by blast
qed

lemma block_answered:
  assumes good: "sync_good Y sp s" and fit: "msgs_fit Y (sp_ref sp)"
    and told: "told_client Y s (BlockRequest \<lparr>br_blockid = i\<rparr>)" and d: "full_at (sp_ref sp) i = Some d"
    and cur: "to_transfer_cursor (client_out (y_server_addr Y) (sy_client s)) + length d \<le> n" "n < 2 ^ 63"
      "to_cursor (client_out (y_server_addr Y) (sy_client s)) = None"
  obtains s' f where "(sync_step Y)\<^sup>*\<^sup>* s s'" and "sy_server s' = sy_server s" and "offers Y s' i f d n"
    and "to_cursor (client_out (y_server_addr Y) (sy_client s')) = None"
    and "told_server Y s' (BlockRequestResponse
      \<lparr>bq_blockid = i, bq_start_id = f, bq_end_id = f + length d, bq_len = length d\<rparr>)"
proof -
  let ?h = "nd_handler (sy_client s)" and ?a = "y_server_addr Y"
  obtain cl where cl: "h_blockdb ?h = sp_ref sp" "h_clients ?h ?a = Some cl"
    "alloc_ok (sp_ref sp) (to_transfers (transfer_out cl)) (to_transfer_cursor (transfer_out cl))"
    "client_out ?a (sy_client s) = transfer_out cl" "client_state ?h ?a = Known"
    by (rule sync_good_client [OF good])
  have ref: "ref_ok (sp_ref sp)" using good by (simp add: sync_good_def sync_ok_def spec_ok_def)
  have i: "length i = 32" using ref d unfolding ref_ok_def full_at_eq_Some by blast
  let ?m = "\<lambda>f. BlockRequestResponse \<lparr>bq_blockid = i, bq_start_id = f, bq_end_id = f + length d, bq_len = length d\<rparr>"
  have small: "to_transfer_cursor (transfer_out cl) + length d < 2 ^ 64" using cur cl(4) by simp
  from request_answered [OF ref cl(1,2,3) d small] obtain f out where
    ans: "block_request ?h ?a \<lparr>br_blockid = i\<rparr> = Inr (put_client ?h ?a (cl\<lparr>transfer_out := out\<rparr>), [SendTask (?m f) ?a])"
      "(f, f + length d, i) \<in> set (to_transfers out)" "to_cursor out = to_cursor (transfer_out cl)"
      "to_transfer_cursor out \<le> to_transfer_cursor (transfer_out cl) + length d" "f + length d \<le> to_transfer_cursor out"
    by blast
  let ?h1 = "put_client ?h ?a (cl\<lparr>transfer_out := out\<rparr>)"
  define s1 where "s1 = s\<lparr>sy_client := \<lparr>nd_handler = ?h1, nd_tasks = nd_tasks (sy_client s) @ [SendTask (?m f) ?a]\<rparr>\<rparr>"
  have "dispatch (y_client Y) 0 ?h ?a (BlockRequest \<lparr>br_blockid = i\<rparr>) = Inr (?h1, [SendTask (?m f) ?a])"
    using cl(5) ans(1) by (simp add: dispatch_def)
  then have step1: "sync_step Y s s1" unfolding s1_def by (rule client_gets_msg [OF told])
  have mem: "SendTask (?m f) ?a \<in> set (nd_tasks (sy_client s1))" by (simp add: s1_def)
  have bound: "f + length d \<le> n" using ans(4,5) cur(1) cl(4) by simp
  then have "carried Y (?m f)"
    using carried_msgs(3) [OF sync_good_codec [OF good] fit] i cur(2)
    by (simp add: BlockRequestResponse_ok_def BlockId_ok_def)
  then obtain s2 where s2: "sync_step Y s1 s2" "told_server Y s2 (?m f)" "sy_server s2 = sy_server s1"
    "nd_handler (sy_client s2) = ?h1"
    by (rule client_sends_msg [OF mem]) (simp_all add: s1_def task_step_def)
  have out: "client_out ?a (sy_client s2) = out" using s2(4) by (simp add: client_out_def put_client_def)
  show ?thesis
  proof (rule that [of s2 f])
    show "(sync_step Y)\<^sup>*\<^sup>* s s2" using step1 s2(1) by (meson r_into_rtranclp rtranclp_trans)
    show "offers Y s2 i f d n" using out ans(2,4) bound cur(1,2) cl(4) by (simp add: offers_def)
  qed (use s2 out ans(3) cur(3) cl(4) in \<open>simp_all add: s1_def\<close>)
qed

text \<open>The server starts to receive, and its first status update asks for everything.\<close>

lemma block_accepted:
  assumes good: "sync_good Y sp s" and fit: "msgs_fit Y (sp_ref sp)"
    and told: "told_server Y s (BlockRequestResponse
      \<lparr>bq_blockid = i, bq_start_id = f, bq_end_id = f + length d, bq_len = length d\<rparr>)"
    and fetch: "fetching Y sp db i cl (sy_server s)" and new: "db_blocks (h_blockdb (nd_handler (sy_server s))) i = None"
    and cl: "ti_transfers (transfer_in cl) = []" "pending_block_requests cl i = Some ch"
    and d: "d \<noteq> []" "f + length d < 2 ^ 63"
  obtains s' cl' where "(sync_step Y)\<^sup>*\<^sup>* s s'" and "sy_client s' = sy_client s"
    and "fetching Y sp db i cl' (sy_server s')"
    and "receiving (nd_handler (sy_server s')) (y_client_addr Y) cl' i f d 0"
    and "told_client Y s' (TransferStatus \<lparr>missing_ranges = [(f, f + nchunks d)]\<rparr>)"
proof -
  let ?h = "nd_handler (sy_server s)" and ?a = "y_client_addr Y"
  let ?m = "BlockRequestResponse \<lparr>bq_blockid = i, bq_start_id = f, bq_end_id = f + length d, bq_len = length d\<rparr>"
  have c: "h_clients ?h ?a = Some cl" using fetch by (simp add: fetching_def)
  have req: "requests (h_clients ?h) (?a, i) = Some ch" using c cl(2) by (simp add: requests_def)
  have wf: "requests_wf (h_clients ?h) (h_rt ?h)"
    using good by (simp add: sync_good_def node_wf_def handler_wf_def)
  have wait: "rt_oneshot (h_rt ?h) ch = Waiting" using senders_wfD [OF wf req] by simp
  have "length d + CHUNK_SIZE < 2 ^ 64" using d(2) by (simp add: CHUNK_SIZE_def)
  from response_accepted [OF c cl wait new this, of f] obtain h' tx cl' b where
    acc: "block_request_response ?h ?a \<lparr>bq_blockid = i, bq_start_id = f, bq_end_id = f + length d, bq_len = length d\<rparr>
        = Inr (h', [StatusTask tx ?a])" "receiving h' ?a cl' i f d 0" "0 < mp_queue (rt_mpsc (h_rt h') tx)"
      "h_blockdb h' = (h_blockdb ?h)\<lparr>db_blocks := (db_blocks (h_blockdb ?h))(i \<mapsto> b)\<rparr>"
      "pending_block_requests cl' = (pending_block_requests cl)(i := None)"
    by blast
  define s1 where "s1 = s\<lparr>sy_server := \<lparr>nd_handler = h', nd_tasks = nd_tasks (sy_server s) @ [StatusTask tx ?a]\<rparr>\<rparr>"
  have "dispatch (y_server Y) 0 ?h ?a ?m = Inr (h', [StatusTask tx ?a])"
    using c acc(1) by (simp add: dispatch_def client_state_def)
  then have step1: "sync_step Y s s1" unfolding s1_def by (rule server_gets_msg [OF told])
  have mem: "StatusTask tx ?a \<in> set (nd_tasks (sy_server s1))" by (simp add: s1_def)
  have "f + length d < 2 ^ 64" using d(2) by simp
  from status_of_new_block [OF acc(2) d(1) this acc(3)] obtain rt where
    rt: "status_step h' tx ?a = Inr (h'\<lparr>h_rt := rt\<rparr>, Continue \<lparr>missing_ranges = [(f, f + nchunks d)]\<rparr>)"
      "\<forall>c. mp_rx (rt_mpsc rt c) = mp_rx (rt_mpsc (h_rt h') c)" by blast
  have "carried Y (TransferStatus \<lparr>missing_ranges = [(f, f + nchunks d)]\<rparr>)"
    using carried_msgs(4) [OF sync_good_codec [OF good] fit, of f "f + nchunks d"] nchunks_le [of d] d(2) by simp
  then obtain s2 where s2: "sync_step Y s1 s2" "told_client Y s2 (TransferStatus \<lparr>missing_ranges = [(f, f + nchunks d)]\<rparr>)"
    "sy_client s2 = sy_client s1" "nd_handler (sy_server s2) = h'\<lparr>h_rt := rt\<rparr>"
    "set (nd_tasks (sy_server s1)) - {StatusTask tx ?a} \<subseteq> set (nd_tasks (sy_server s2))"
    by (rule server_sends_msg [OF mem]) (simp_all add: s1_def task_step_def rt(1))
  have tasks: "requested ?a cl' (nd_tasks (sy_server s2)) j" if "requested ?a cl (nd_tasks (sy_server s)) j" "j \<noteq> i" for j
    using that s2(5) acc(5) by (auto simp: requested_def s1_def)
  show ?thesis
  proof (rule that [of s2 cl'])
    show "(sync_step Y)\<^sup>*\<^sup>* s s2" using step1 s2(1) by (meson r_into_rtranclp rtranclp_trans)
    show "receiving (nd_handler (sy_server s2)) ?a cl' i f d 0"
      using acc(2) rt(2) s2(4) by (simp add: receiving_def)
    show "fetching Y sp db i cl' (sy_server s2)"
      using fetch acc(2,4) s2(4) tasks by (auto simp: fetching_def receiving_def)
  qed (use s2 in \<open>simp_all add: s1_def\<close>)
qed

text \<open>The client begins to send.\<close>

definition sending :: "sync_env \<Rightarrow> Sync \<Rightarrow> nat \<Rightarrow> u8 list \<Rightarrow> nat \<Rightarrow> bool" where
  "sending Y s f d k \<longleftrightarrow>
     (let out = client_out (y_server_addr Y) (sy_client s) in
      to_cursor out = (if k < nchunks d then Some (f + k) else None) \<and> to_todo out = [(f, f + nchunks d)]) \<and>
     PayloadTask (y_server_addr Y) \<in> set (nd_tasks (sy_client s))"

lemma sending_starts:
  assumes good: "sync_good Y sp s" and d: "d \<noteq> []"
    and told: "told_client Y s (TransferStatus \<lparr>missing_ranges = [(f, f + nchunks d)]\<rparr>)"
    and off: "offers Y s i f d n" and cur: "to_cursor (client_out (y_server_addr Y) (sy_client s)) = None"
  obtains s' where "sync_step Y s s'" and "sy_server s' = sy_server s" and "offers Y s' i f d n" and "sending Y s' f d 0"
proof -
  let ?h = "nd_handler (sy_client s)" and ?a = "y_server_addr Y"
  obtain cl where cl: "h_clients ?h ?a = Some cl" "client_out ?a (sy_client s) = transfer_out cl" "client_state ?h ?a = Known"
    by (rule sync_good_client [OF good])
  let ?cl = "cl\<lparr>transfer_out := (transfer_out cl)\<lparr>to_cursor := Some f, to_todo := [(f, f + nchunks d)]\<rparr>\<rparr>"
  let ?s = "s\<lparr>sy_client := \<lparr>nd_handler = put_client ?h ?a ?cl, nd_tasks = nd_tasks (sy_client s) @ [PayloadTask ?a]\<rparr>\<rparr>"
  have "dispatch (y_client Y) 0 ?h ?a (TransferStatus \<lparr>missing_ranges = [(f, f + nchunks d)]\<rparr>)
      = Inr (put_client ?h ?a ?cl, [PayloadTask ?a])"
    using cl cur by (simp add: dispatch_def transfer_status_def get_client_def Let_def)
  from client_gets_msg [OF told this] have "sync_step Y s ?s" .
  moreover have "client_out ?a (sy_client ?s) = transfer_out ?cl" by (simp add: client_out_def put_client_def)
  ultimately show ?thesis
    using that [of ?s] off cl(2) nchunks_pos [OF d] by (simp add: offers_def sending_def)
qed

lemma chunk_told:
  assumes good: "sync_good Y sp s" and fit: "msgs_fit Y (sp_ref sp)" and d: "full_at (sp_ref sp) i = Some d"
    and off: "offers Y s i f d n" and snd: "sending Y s f d k" "k < nchunks d"
  obtains s' where "sync_step Y s s'" and "sy_server s' = sy_server s" and "offers Y s' i f d n"
    and "sending Y s' f d (Suc k)"
    and "told_server Y s' (TransferPayload \<lparr>tp_chunkid = f + k, tp_data = chunk_of CHUNK_SIZE d k\<rparr>)"
proof -
  let ?h = "nd_handler (sy_client s)" and ?a = "y_server_addr Y"
  let ?m = "TransferPayload \<lparr>tp_chunkid = f + k, tp_data = chunk_of CHUNK_SIZE d k\<rparr>"
  obtain cl where cl: "h_blockdb ?h = sp_ref sp" "h_clients ?h ?a = Some cl"
    "alloc_ok (sp_ref sp) (to_transfers (transfer_out cl)) (to_transfer_cursor (transfer_out cl))"
    "client_out ?a (sy_client s) = transfer_out cl"
    by (rule sync_good_client [OF good])
  let ?cl = "cl\<lparr>transfer_out := (transfer_out cl)\<lparr>to_cursor := if Suc k < nchunks d then Some (f + Suc k) else None\<rparr>\<rparr>"
  have "to_cursor (transfer_out cl) = Some (f + k)" "to_todo (transfer_out cl) = [(f, f + nchunks d)]"
    "(f, f + length d, i) \<in> set (to_transfers (transfer_out cl))" "f + length d < 2 ^ 64"
    using snd off cl(4) by (simp_all add: sending_def offers_def Let_def)
  then have st: "payload_step ?h ?a = Inr (put_client ?h ?a ?cl,
      Some \<lparr>tp_chunkid = f + k, tp_data = chunk_of CHUNK_SIZE d k\<rparr>)"
    using cl d snd(2) by (intro chunk_sent) auto
  have "f + k < 2 ^ 63" using off snd(2) nchunks_le [of d] by (simp add: offers_def)
  then have "carried Y ?m"
    using carried_msgs(5) [OF sync_good_codec [OF good] fit] by (simp add: chunk_of_def)
  moreover have mem: "PayloadTask ?a \<in> set (nd_tasks (sy_client s))" using snd(1) by (simp add: sending_def)
  ultimately obtain s' where s': "sync_step Y s s'" "told_server Y s' ?m" "sy_server s' = sy_server s"
    "nd_handler (sy_client s') = put_client ?h ?a ?cl" "set_option (Some (PayloadTask ?a)) \<subseteq> set (nd_tasks (sy_client s'))"
    using client_sends_msg [OF mem, of Y ?m False] st by (auto simp: task_step_def)
  have "client_out ?a (sy_client s') = transfer_out ?cl" using s'(4) by (simp add: client_out_def put_client_def)
  then show ?thesis
    using that [of s'] s' off snd cl(4) by (simp add: offers_def sending_def Let_def)
qed

lemma chunks_transferred:
  assumes good: "sync_good Y sp s" and fit: "msgs_fit Y (sp_ref sp)" and d: "full_at (sp_ref sp) i = Some d"
    and start: "offers Y s i f d n" "sending Y s f d 0" "fetching Y sp db i cl (sy_server s)"
      "receiving (nd_handler (sy_server s)) (y_client_addr Y) cl i f d 0"
    and k: "k < nchunks d"
  shows "\<exists>s'. (sync_step Y)\<^sup>*\<^sup>* s s' \<and> offers Y s' i f d n \<and> sending Y s' f d k \<and> fetching Y sp db i cl (sy_server s') \<and>
    receiving (nd_handler (sy_server s')) (y_client_addr Y) cl i f d k"
  using k
proof (induction k)
  case 0
  then show ?case using start by blast
next
  case (Suc k)
  then obtain s1 where s1: "(sync_step Y)\<^sup>*\<^sup>* s s1" "offers Y s1 i f d n" "sending Y s1 f d k"
    "fetching Y sp db i cl (sy_server s1)" "receiving (nd_handler (sy_server s1)) (y_client_addr Y) cl i f d k"
    by auto
  have kd: "k < nchunks d" using Suc.prems by simp
  note good1 = sync_good_steps [OF s1(1) good]
  obtain s2 where s2: "sync_step Y s1 s2" "sy_server s2 = sy_server s1" "offers Y s2 i f d n" "sending Y s2 f d (Suc k)"
    "told_server Y s2 (TransferPayload \<lparr>tp_chunkid = f + k, tp_data = chunk_of CHUNK_SIZE d k\<rparr>)"
    by (rule chunk_told [OF good1 fit d s1(2,3) kd])
  have len: "length d < 2 ^ 64" using start(1) by (simp add: offers_def)
  from payload_stored [OF s1(5) Suc.prems len, of "y_server Y"] obtain h b where
    h: "transfer_payload (y_server Y) (nd_handler (sy_server s1)) (y_client_addr Y)
        \<lparr>tp_chunkid = f + k, tp_data = chunk_of CHUNK_SIZE d k\<rparr> = Inr (h, [])"
      "receiving h (y_client_addr Y) cl i f d (Suc k)"
      "h_blockdb h = (h_blockdb (nd_handler (sy_server s1)))
        \<lparr>db_blocks := (db_blocks (h_blockdb (nd_handler (sy_server s1))))(i \<mapsto> b)\<rparr>"
    by blast
  let ?s = "s2\<lparr>sy_server := \<lparr>nd_handler = h, nd_tasks = nd_tasks (sy_server s2) @ []\<rparr>\<rparr>"
  have "sync_step Y s2 ?s"
    using s1(5) h(1) s2(2) by (intro server_gets_msg [OF s2(5), of 0]) (simp add: dispatch_def client_state_def receiving_def)
  then have "(sync_step Y)\<^sup>*\<^sup>* s ?s" using s1(1) s2(1) by (meson r_into_rtranclp rtranclp_trans)
  moreover have "offers Y ?s i f d n" "sending Y ?s f d (Suc k)" using s2(3,4) by (simp_all add: offers_def sending_def)
  moreover have "fetching Y sp db i cl (sy_server ?s)"
    using s1(4) h(2,3) s2(2) by (auto simp: fetching_def receiving_def)
  ultimately show ?case using h(2) by auto
qed

section \<open>Rounds\<close>

definition missing_blocks :: "server_spec \<Rightarrow> BlockDb \<Rightarrow> BlockId set" where
  "missing_blocks sp db = {j. full_at (sp_ref sp) j \<noteq> None \<and> \<not> is_full db j}"

definition blocks_size :: "BlockDb \<Rightarrow> BlockId set \<Rightarrow> nat" where
  "blocks_size ref J = (\<Sum>j \<in> J. length (the (full_at ref j)))"

text \<open>
  Between two blocks: the client sends nothing, and there are chunk ids below \<open>2 ^ 63\<close> for all blocks
  that are missing; the server has no transfer and a request for every block it wants.
\<close>

definition sync_rest :: "sync_env \<Rightarrow> server_spec \<Rightarrow> Sync \<Rightarrow> bool" where
  "sync_rest Y sp s \<longleftrightarrow> sync_good Y sp s \<and>
     (let out = client_out (y_server_addr Y) (sy_client s); n = sy_server s; db = h_blockdb (nd_handler n) in
      to_cursor out = None \<and> to_transfer_cursor out + blocks_size (sp_ref sp) (missing_blocks sp db) < 2 ^ 63 \<and>
      filling (y_server Y) sp db \<and> (\<exists>j. wanted (y_server Y) (db_root (sp_ref sp)) db j) \<and>
      (\<exists>cl. h_clients (nd_handler n) (y_client_addr Y) = Some cl \<and> ti_transfers (transfer_in cl) = [] \<and>
         (\<forall>j. wanted (y_server Y) (db_root (sp_ref sp)) db j \<longrightarrow> requested (y_client_addr Y) cl (nd_tasks n) j)))"

definition sync_done :: "server_spec \<Rightarrow> Sync \<Rightarrow> bool" where
  "sync_done sp s \<longleftrightarrow> db_root (h_blockdb (nd_handler (sy_server s))) = db_root (sp_ref sp)"

definition sync_left :: "server_spec \<Rightarrow> Sync \<Rightarrow> nat" where
  "sync_left sp s = card (missing_blocks sp (h_blockdb (nd_handler (sy_server s))))"

lemma missing_finite: "sync_feasible Y sp \<Longrightarrow> finite (missing_blocks sp db)"
proof -
  assume "sync_feasible Y sp"
  then have "finite (dom (db_blocks (sp_ref sp)))" by (simp add: sync_feasible_def)
  moreover have "missing_blocks sp db \<subseteq> dom (db_blocks (sp_ref sp))"
    by (auto simp: missing_blocks_def full_at_def split: option.splits)
  ultimately show ?thesis by (rule finite_subset [rotated])
qed

lemma missing_with_block:
  assumes "sync_feasible Y sp" and "full_at (sp_ref sp) i = Some d" and "\<not> is_full db i"
  shows "card (missing_blocks sp (with_block db i d)) < card (missing_blocks sp db)"
    and "blocks_size (sp_ref sp) (missing_blocks sp db) = length d + blocks_size (sp_ref sp) (missing_blocks sp (with_block db i d))"
proof -
  have i: "i \<in> missing_blocks sp db" using assms(2,3) by (simp add: missing_blocks_def)
  have eq: "missing_blocks sp (with_block db i d) = missing_blocks sp db - {i}" by (auto simp: missing_blocks_def)
  show "card (missing_blocks sp (with_block db i d)) < card (missing_blocks sp db)"
    unfolding eq by (rule card_Diff1_less [OF missing_finite [OF assms(1)] i])
  show "blocks_size (sp_ref sp) (missing_blocks sp db) = length d + blocks_size (sp_ref sp) (missing_blocks sp (with_block db i d))"
    unfolding eq blocks_size_def using assms(2) by (simp add: sum.remove [OF missing_finite [OF assms(1)] i])
qed

lemma sync_good_pending:
  assumes "sync_good Y sp s" and "db_pending_root (h_blockdb (nd_handler (sy_server s))) \<noteq> None"
  shows "h_fs (nd_handler (sy_server s)) = sp_fs sp" and "h_folder (nd_handler (sy_server s)) = sp_folder sp"
  using assms by (auto simp: sync_good_def sync_inv_def server_inv_def srv_inv_def)

text \<open>A wanted block is fetched up to its last chunk.\<close>

lemma block_fetched:
  assumes feas: "sync_feasible Y sp" and rest: "sync_rest Y sp s"
    and want: "wanted (y_server Y) (db_root (sp_ref sp)) (h_blockdb (nd_handler (sy_server s))) i"
    and new: "db_blocks (h_blockdb (nd_handler (sy_server s))) i = None" "full_at (sp_ref sp) i = Some d"
  obtains s' f cl where "(sync_step Y)\<^sup>*\<^sup>* s s'"
    and "offers Y s' i f d (to_transfer_cursor (client_out (y_server_addr Y) (sy_client s)) + length d)"
    and "sending Y s' f d (nchunks d - 1)"
    and "fetching Y sp (h_blockdb (nd_handler (sy_server s))) i cl (sy_server s')"
    and "receiving (nd_handler (sy_server s')) (y_client_addr Y) cl i f d (nchunks d - 1)"
proof -
  let ?db = "h_blockdb (nd_handler (sy_server s))"
  define n where "n = to_transfer_cursor (client_out (y_server_addr Y) (sy_client s)) + length d"
  have fit: "msgs_fit Y (sp_ref sp)" and d: "d \<noteq> []" using feas new(2) by (auto simp: sync_feasible_def)
  have good: "sync_good Y sp s" and cur: "to_cursor (client_out (y_server_addr Y) (sy_client s)) = None"
    and bound: "to_transfer_cursor (client_out (y_server_addr Y) (sy_client s)) +
      blocks_size (sp_ref sp) (missing_blocks sp ?db) < 2 ^ 63"
    using rest by (simp_all add: sync_rest_def Let_def)
  obtain cl where cl: "h_clients (nd_handler (sy_server s)) (y_client_addr Y) = Some cl" "ti_transfers (transfer_in cl) = []"
    "\<forall>j. wanted (y_server Y) (db_root (sp_ref sp)) ?db j \<longrightarrow> requested (y_client_addr Y) cl (nd_tasks (sy_server s)) j"
    using rest by (auto simp: sync_rest_def Let_def)
  have n: "n < 2 ^ 63"
    using bound missing_with_block(2) [OF feas new(2), of ?db] want by (simp add: n_def wanted_def)
  have req: "requested (y_client_addr Y) cl (nd_tasks (sy_server s)) i" using cl(3) want by blast
  have "ref_ok (sp_ref sp)" using good by (simp add: sync_good_def sync_ok_def spec_ok_def)
  then have i: "length i = 32" using new(2) unfolding ref_ok_def full_at_eq_Some by blast
  obtain s1 where s1: "sync_step Y s s1" "told_client Y s1 (BlockRequest \<lparr>br_blockid = i\<rparr>)" "sy_client s1 = sy_client s"
    "nd_handler (sy_server s1) = nd_handler (sy_server s)" "fetching Y sp ?db i cl (sy_server s1)"
    by (rule block_asked [OF good fit req i cl(1,3) new(1)])
  note good1 = sync_good_step [OF s1(1) good]
  obtain s2 f where s2: "(sync_step Y)\<^sup>*\<^sup>* s1 s2" "sy_server s2 = sy_server s1" "offers Y s2 i f d n"
    "to_cursor (client_out (y_server_addr Y) (sy_client s2)) = None"
    "told_server Y s2 (BlockRequestResponse
      \<lparr>bq_blockid = i, bq_start_id = f, bq_end_id = f + length d, bq_len = length d\<rparr>)"
    by (rule block_answered [OF good1 fit s1(2) new(2) _ n]) (use s1(3) cur in \<open>simp_all add: n_def\<close>)
  note good2 = sync_good_steps [OF s2(1) good1]
  obtain ch where ch: "pending_block_requests cl i = Some ch" using req by (auto simp: requested_def)
  have new2: "db_blocks (h_blockdb (nd_handler (sy_server s2))) i = None" using s2(2) s1(4) new(1) by simp
  have fd: "f + length d < 2 ^ 63" using s2(3) by (simp add: offers_def)
  obtain s3 cl' where s3: "(sync_step Y)\<^sup>*\<^sup>* s2 s3" "sy_client s3 = sy_client s2" "fetching Y sp ?db i cl' (sy_server s3)"
    "receiving (nd_handler (sy_server s3)) (y_client_addr Y) cl' i f d 0"
    "told_client Y s3 (TransferStatus \<lparr>missing_ranges = [(f, f + nchunks d)]\<rparr>)"
    by (rule block_accepted [OF good2 fit s2(5) _ new2 cl(2) ch d fd, of ?db]) (use s1(5) s2(2) in simp_all)
  note good3 = sync_good_steps [OF s3(1) good2]
  obtain s4 where s4: "sync_step Y s3 s4" "sy_server s4 = sy_server s3" "offers Y s4 i f d n" "sending Y s4 f d 0"
    by (rule sending_starts [OF good3 d s3(5), of i n]) (use s2(3,4) s3(2) in \<open>simp_all add: offers_def\<close>)
  have "nchunks d - 1 < nchunks d" using nchunks_pos [OF d] by simp
  from chunks_transferred [OF sync_good_step [OF s4(1) good3] fit new(2) s4(3,4) _ _ this, of ?db cl'] s3(3,4) s4(2)
  obtain s5 where s5: "(sync_step Y)\<^sup>*\<^sup>* s4 s5" "offers Y s5 i f d n" "sending Y s5 f d (nchunks d - 1)"
    "fetching Y sp ?db i cl' (sy_server s5)"
    "receiving (nd_handler (sy_server s5)) (y_client_addr Y) cl' i f d (nchunks d - 1)" by auto
  have "(sync_step Y)\<^sup>*\<^sup>* s s5"
    using s1(1) s2(1) s3(1) s4(1) s5(1) by (meson r_into_rtranclp rtranclp_trans)
  then show ?thesis using that s5(2-5) unfolding n_def by blast
qed

text \<open>With its last chunk the block is in the store, and the synchronisation is done or waits for the next.\<close>

definition next_wanted :: "sync_env \<Rightarrow> server_spec \<Rightarrow> BlockDb \<Rightarrow> Node \<Rightarrow> bool" where
  "next_wanted Y sp db n \<longleftrightarrow>
     h_blockdb (nd_handler n) = db \<and> (\<exists>j. wanted (y_server Y) (db_root (sp_ref sp)) db j) \<and>
     (\<exists>cl. h_clients (nd_handler n) (y_client_addr Y) = Some cl \<and> ti_transfers (transfer_in cl) = [] \<and>
        (\<forall>j. wanted (y_server Y) (db_root (sp_ref sp)) db j \<longrightarrow> requested (y_client_addr Y) cl (nd_tasks n) j))"

lemma block_delivered:
  assumes feas: "sync_feasible Y sp" and rest: "sync_rest Y sp s" and db: "db = h_blockdb (nd_handler (sy_server s))"
    and want: "wanted (y_server Y) (db_root (sp_ref sp)) db i"
    and new: "db_blocks db i = None" "full_at (sp_ref sp) i = Some d"
  obtains s' where "(sync_step Y)\<^sup>*\<^sup>* s s'" and "to_cursor (client_out (y_server_addr Y) (sy_client s')) = None"
    and "to_transfer_cursor (client_out (y_server_addr Y) (sy_client s'))
      \<le> to_transfer_cursor (client_out (y_server_addr Y) (sy_client s)) + length d"
    and "sync_done sp s' \<or> next_wanted Y sp (with_block db i d) (sy_server s')"
proof -
  let ?root = "db_root (sp_ref sp)" and ?E = "y_server Y" and ?a = "y_client_addr Y"
  let ?k = "nchunks d - 1" and ?n = "to_transfer_cursor (client_out (y_server_addr Y) (sy_client s)) + length d"
  have fit: "msgs_fit Y (sp_ref sp)" and walk: "walkable ?E sp" and "d \<noteq> []"
    using feas new(2) by (auto simp: sync_feasible_def)
  then have k: "Suc ?k = nchunks d" "?k < nchunks d" using nchunks_pos [of d] by simp_all
  have good: "sync_good Y sp s" and fill: "filling ?E sp db" using rest db by (simp_all add: sync_rest_def Let_def)
  obtain s1 f cl where s1: "(sync_step Y)\<^sup>*\<^sup>* s s1" "offers Y s1 i f d ?n" "sending Y s1 f d ?k"
    "fetching Y sp db i cl (sy_server s1)" "receiving (nd_handler (sy_server s1)) ?a cl i f d ?k"
    using block_fetched [OF feas rest, folded db, OF want new] by metis
  note good1 = sync_good_steps [OF s1(1) good]
  obtain s2 where s2: "sync_step Y s1 s2" "sy_server s2 = sy_server s1" "offers Y s2 i f d ?n" "sending Y s2 f d (Suc ?k)"
    "told_server Y s2 (TransferPayload \<lparr>tp_chunkid = f + ?k, tp_data = chunk_of CHUNK_SIZE d ?k\<rparr>)"
    by (rule chunk_told [OF good1 fit new(2) s1(2,3) k(2)])
  obtain b where b: "h_blockdb (nd_handler (sy_server s1)) = db\<lparr>db_blocks := (db_blocks db)(i := b)\<rparr>"
    and req: "\<forall>j. wanted ?E ?root db j \<and> j \<noteq> i \<longrightarrow> requested ?a cl (nd_tasks (sy_server s1)) j"
    using s1(4) by (auto simp: fetching_def)
  have "db_pending_root (h_blockdb (nd_handler (sy_server s1))) \<noteq> None" using b fill by (simp add: filling_def)
  note old = sync_good_pending [OF good1 this]
  have len: "length d < 2 ^ 64" using s1(2) by (simp add: offers_def)
  from block_arrives [OF walk fill want new s1(5) k(1) len b old req] obtain h ts where
    run: "transfer_payload ?E (nd_handler (sy_server s1)) ?a
        \<lparr>tp_chunkid = f + ?k, tp_data = chunk_of CHUNK_SIZE d ?k\<rparr> = Inr (h, ts)"
    and res: "db_root (h_blockdb h) = ?root \<or>
      next_wanted Y sp (with_block db i d) \<lparr>nd_handler = h, nd_tasks = nd_tasks (sy_server s1) @ ts\<rparr>"
    unfolding next_wanted_def by auto
  let ?s = "s2\<lparr>sy_server := \<lparr>nd_handler = h, nd_tasks = nd_tasks (sy_server s2) @ ts\<rparr>\<rparr>"
  have "sync_step Y s2 ?s"
    using s1(5) run s2(2) by (intro server_gets_msg [OF s2(5), of 0]) (simp add: dispatch_def client_state_def receiving_def)
  then have "(sync_step Y)\<^sup>*\<^sup>* s ?s" using s1(1) s2(1) by (meson r_into_rtranclp rtranclp_trans)
  then show ?thesis
    using that [of ?s] s2(2,3,4) k(1) res by (simp add: offers_def sending_def Let_def sync_done_def)
qed

lemma sync_round:
  assumes feas: "sync_feasible Y sp" and rest: "sync_rest Y sp s"
  shows "\<exists>s'. (sync_step Y)\<^sup>*\<^sup>* s s' \<and> (sync_done sp s' \<or> sync_rest Y sp s' \<and> sync_left sp s' < sync_left sp s)"
proof -
  define db where "db = h_blockdb (nd_handler (sy_server s))"
  have walk: "walkable (y_server Y) sp" using feas by (simp add: sync_feasible_def)
  have good: "sync_good Y sp s" and fill: "filling (y_server Y) sp db"
    and bound: "to_transfer_cursor (client_out (y_server_addr Y) (sy_client s)) +
      blocks_size (sp_ref sp) (missing_blocks sp db) < 2 ^ 63"
    using rest by (simp_all add: sync_rest_def Let_def db_def)
  obtain i where want: "wanted (y_server Y) (db_root (sp_ref sp)) db i"
    using rest by (auto simp: sync_rest_def Let_def db_def)
  obtain d where new: "db_blocks db i = None" "full_at (sp_ref sp) i = Some d" by (rule wanted_new [OF want fill walk])
  have absent: "\<not> is_full db i" using new(1) by (simp add: is_full_def)
  note fewer = missing_with_block [OF feas new(2) absent]
  obtain s' where s': "(sync_step Y)\<^sup>*\<^sup>* s s'" "to_cursor (client_out (y_server_addr Y) (sy_client s')) = None"
    "to_transfer_cursor (client_out (y_server_addr Y) (sy_client s'))
      \<le> to_transfer_cursor (client_out (y_server_addr Y) (sy_client s)) + length d"
    "sync_done sp s' \<or> next_wanted Y sp (with_block db i d) (sy_server s')"
    by (rule block_delivered [OF feas rest db_def want new])
  have "sync_rest Y sp s' \<and> sync_left sp s' < sync_left sp s" if "next_wanted Y sp (with_block db i d) (sy_server s')"
    using that sync_good_steps [OF s'(1) good] s'(2,3) bound fewer filling_with_block [OF fill want new]
    by (simp add: sync_rest_def Let_def next_wanted_def sync_left_def db_def)
  then show ?thesis using s'(1,4) by blast
qed

interpretation sync: progress "sync_step Y" "\<lambda>s. sync_feasible Y sp \<and> sync_rest Y sp s" "sync_done sp" "sync_left sp" for Y sp
  by unfold_locales (use sync_round in blast)

section \<open>From the start\<close>

text \<open>
  What a synchronisation needs to get through: room for its messages, a stack that is deep enough for the
  tree, no shared blocks, none that the server has under another root, none that is empty, and chunk ids
  for all of them whatever 32-bit number they start at.
\<close>

definition sync_possible :: "sync_env \<Rightarrow> (u8 list \<times> tree) list \<Rightarrow> Node \<Rightarrow> Node \<Rightarrow> bool" where
  "sync_possible Y kids c s \<longleftrightarrow>
     (let ref = h_blockdb (nd_handler c); db = h_blockdb (nd_handler s) in
      msgs_fit Y ref \<and> tree_depth (TDir kids) \<le> e_stack (y_server Y) \<and>
      one_block_each (e_api (y_server Y)) ref (db_root ref) \<and>
      dom (db_blocks db) \<inter> dom (db_blocks ref) = {} \<and> blockid (db_root db) \<noteq> blockid (db_root ref) \<and>
      (\<forall>i d. full_at ref i = Some d \<longrightarrow> d \<noteq> []) \<and>
      2 ^ 32 + blocks_size ref (dom (db_blocks ref)) < 2 ^ 63)"

lemma scsync_client_start:
  assumes "scsync_main E parse rnd opt is_dir walk fs r nonce = Inr c" and "\<not> opt2_server opt"
    and "parse (opt2_host opt) = Some ip"
  shows "nd_tasks c = [SendTask (RootUpdate \<lparr>ru_nonce = nonce, ru_from_blockid = replicate 32 0,
      ru_to_blockref = db_root (h_blockdb (nd_handler c))\<rparr>) (ip, opt2_port opt)]"
    and "client_out (ip, opt2_port opt) c = TransferOut_default r"
proof -
  obtain db delay where "c = \<lparr>nd_handler = fst (connect (Handler_new (opt2_files opt) delay db fs) (ip, opt2_port opt) r nonce),
      nd_tasks = snd (connect (Handler_new (opt2_files opt) delay db fs) (ip, opt2_port opt) r nonce)\<rparr>"
    using assms by (auto simp: scsync_main_def outcome_simps Let_def case_prod_beta)
  then show "nd_tasks c = [SendTask (RootUpdate \<lparr>ru_nonce = nonce, ru_from_blockid = replicate 32 0,
      ru_to_blockref = db_root (h_blockdb (nd_handler c))\<rparr>) (ip, opt2_port opt)]"
    and "client_out (ip, opt2_port opt) c = TransferOut_default r"
    by (simp_all add: connect_def insert_client_def put_client_def Handler_new_def client_out_def Client2_default_def
        BlockDb_root_def)
qed

text \<open>The server takes the announcement of a new root and asks for the root's block.\<close>

lemma root_accepted:
  assumes walk: "walkable E sp" and inv: "db_inv (sp_ref sp) (h_blockdb h)" "db_wf (h_blockdb h)"
    and h: "h_clients h = Map.empty" "db_pending_root (h_blockdb h) = None"
    and u: "ru_to_blockref u = db_root (sp_ref sp)" "blockid (db_root (sp_ref sp)) \<noteq> blockid (db_root (h_blockdb h))"
    and new: "dom (db_blocks (h_blockdb h)) \<inter> dom (db_blocks (sp_ref sp)) = {}"
  shows "\<exists>h' ts cl. dispatch E r h a (RootUpdate u) = Inr (h', ts) \<and>
    h_blockdb h' = set_pending_root (h_blockdb h) (db_root (sp_ref sp)) \<and> filling E sp (h_blockdb h') \<and>
    wanted E (db_root (sp_ref sp)) (h_blockdb h') (blockid (db_root (sp_ref sp))) \<and>
    h_clients h' a = Some cl \<and> ti_transfers (transfer_in cl) = [] \<and>
    (\<forall>j. wanted E (db_root (sp_ref sp)) (h_blockdb h') j \<longrightarrow> requested a cl ts j)"
proof -
  let ?root = "db_root (sp_ref sp)" and ?db = "set_pending_root (h_blockdb h) (db_root (sp_ref sp))"
  define h1 where "h1 = (insert_client h a r)\<lparr>h_blockdb := ?db\<rparr>"
  have h1: "h_clients h1 a = Some (Client2_default r)" "h_blockdb h1 = ?db"
    by (simp_all add: h1_def insert_client_def put_client_def)
  obtain otx rt where ch: "oneshot_channel (h_rt h1) = (otx, rt)" by (cases "oneshot_channel (h_rt h1)")
  let ?cl = "(Client2_default r)\<lparr>pending_block_requests := [blockid ?root \<mapsto> otx]\<rparr>"
  let ?ts = "[RetryTask True otx (BlockRequest \<lparr>br_blockid = blockid ?root\<rparr>) a]"
  let ?h = "(put_client h1 a ?cl)\<lparr>h_rt := rt\<rparr>"
  have "send_block_request h1 a \<lparr>br_blockid = blockid ?root\<rparr> = Inr (?h, ?ts)"
    using h1(1) ch by (simp add: send_block_request_def get_client_def Let_def Client2_default_def)
  then have "dispatch E r h a (RootUpdate u) = Inr (?h, ?ts)"
    using h u
    by (simp add: dispatch_def client_state_def unconnected_root_update_def Let_def pending_root_def BlockDb_root_def h1_def)
  note run = this
  have absent: "db_blocks ?db j = None" if "full_at (sp_ref sp) j \<noteq> None" for j
    using new that by (auto simp: set_pending_root_def full_at_def dom_def disjoint_iff split: option.splits)
  moreover have dbi: "db_inv (sp_ref sp) ?db" using inv(1) by simp
  ultimately have fill: "filling E sp ?db"
    using inv(2) unfolding filling_def by (auto simp: db_wf_def set_pending_root_def)
  have "full_at (sp_ref sp) (blockid ?root) \<noteq> None"
    by (rule reached_tree [OF reaches.here inv(1) walk])
  then have noroot: "\<not> is_full ?db (blockid ?root)" using absent by (simp add: is_full_def)
  then have "wanted E ?root ?db (blockid ?root)" by (auto simp: wanted_def reached_def intro: reaches.here)
  moreover have "requested a ?cl ?ts j" if "wanted E ?root ?db j" for j
    using reached_absent_root [OF noroot] that by (auto simp: wanted_def requested_def)
  ultimately show ?thesis
    using run fill h1(2) by (intro exI [of _ ?h] exI [of _ ?ts] exI [of _ ?cl])
      (simp add: put_client_def Client2_default_def TransferIn_default_def)
qed

lemma sync_setup_start:
  assumes su: "sync_setup Y A folder kids c s"
  obtains r nonce where "length nonce = 12"
    and "nd_tasks c = [SendTask (RootUpdate \<lparr>ru_nonce = nonce, ru_from_blockid = replicate 32 0,
      ru_to_blockref = db_root (h_blockdb (nd_handler c))\<rparr>) (y_server_addr Y)]"
    and "client_out (y_server_addr Y) c = TransferOut_default r"
    and "node_wf s" and "h_clients (nd_handler s) = Map.empty" and "nd_tasks s = []"
    and "db_pending_root (h_blockdb (nd_handler s)) = None"
proof -
  obtain ni where ni: "frontend_codec A" "e_api (y_server Y) = A\<lparr>supports_aesni := ni\<rparr>"
    using su by (auto simp: sync_setup_def)
  obtain parse rnd opt fs r nonce where cm: "length nonce = 12" "\<not> opt2_server opt"
      "map_option (\<lambda>ip. (ip, opt2_port opt)) (parse (opt2_host opt)) = Some (y_server_addr Y)"
      "scsync_main (y_client Y) parse rnd opt True (map Some (walk_tree (opt2_files opt) (TDir kids))) fs r nonce
        = Inr c"
    using su unfolding sync_setup_def by blast
  then obtain ip where ip: "parse (opt2_host opt) = Some ip" "y_server_addr Y = (ip, opt2_port opt)" by auto
  obtain parse' rnd' opt' is_dir walk fs' r' nonce' where sm: "opt2_server opt'"
      "scsync_main (y_server Y) parse' rnd' opt' is_dir walk fs' r' nonce' = Inr s"
    using su unfolding sync_setup_def by blast
  note server = scsync_server_start [OF sm(2,1)]
  have "node_wf s" using scsync_main_wf [OF _ sm(2)] frontend_codec_ni [OF ni(1)] ni(2) by simp
  then show ?thesis
    using that [OF cm(1) scsync_client_start [OF cm(4,2) ip(1), folded ip(2)] _ server(4,5)]
      from_folder_pending [OF server(1)] by blast
qed

text \<open>The client announces its root.\<close>

lemma root_announced:
  assumes su: "sync_setup Y A folder kids c s" and fit: "msgs_fit Y (h_blockdb (nd_handler c))"
    and root: "BlockRef_ok (db_root (h_blockdb (nd_handler c)))"
  obtains s1 r u where "sync_step Y (sync_start c s) s1" and "told_server Y s1 (RootUpdate u)"
    and "ru_to_blockref u = db_root (h_blockdb (nd_handler c))" and "sy_server s1 = s"
    and "client_out (y_server_addr Y) (sy_client s1) = TransferOut_default r"
proof -
  obtain r nonce where c: "length nonce = 12"
    "nd_tasks c = [SendTask (RootUpdate \<lparr>ru_nonce = nonce, ru_from_blockid = replicate 32 0,
      ru_to_blockref = db_root (h_blockdb (nd_handler c))\<rparr>) (y_server_addr Y)]"
    "client_out (y_server_addr Y) c = TransferOut_default r"
    by (rule sync_setup_start [OF su])
  let ?u = "\<lparr>ru_nonce = nonce, ru_from_blockid = replicate 32 0, ru_to_blockref = db_root (h_blockdb (nd_handler c))\<rparr>"
  have "msg_codec (y_varint Y) (y_serde Y)" using su by (simp add: sync_setup_def)
  then have "carried Y (RootUpdate ?u)"
    using carried_msgs(1) [of Y "h_blockdb (nd_handler c)" ?u] c(1) fit root by (simp add: RootUpdate_ok_def BlockId_ok_def)
  moreover have mem: "SendTask (RootUpdate ?u) (y_server_addr Y) \<in> set (nd_tasks (sy_client (sync_start c s)))"
    using c(2) by (simp add: sync_start_def)
  ultimately obtain s1 where s1: "sync_step Y (sync_start c s) s1" "told_server Y s1 (RootUpdate ?u)"
    "sy_server s1 = s" "nd_handler (sy_client s1) = nd_handler c"
    using client_sends_msg [OF mem, of Y "RootUpdate ?u" False "nd_handler c" None]
    by (auto simp: task_step_def sync_start_def)
  moreover have "client_out (y_server_addr Y) (sy_client s1) = TransferOut_default r"
    using c(3) s1(4) by (simp add: client_out_def)
  ultimately show ?thesis using that by simp
qed

lemma ids_for_all:
  assumes "finite (dom (db_blocks (sp_ref sp)))" and "2 ^ 32 + blocks_size (sp_ref sp) (dom (db_blocks (sp_ref sp))) < 2 ^ 63"
  shows "r mod 2 ^ 32 + blocks_size (sp_ref sp) (missing_blocks sp db) < 2 ^ 63"
proof -
  have "missing_blocks sp db \<subseteq> dom (db_blocks (sp_ref sp))"
    by (auto simp: missing_blocks_def full_at_def split: option.splits)
  then have "blocks_size (sp_ref sp) (missing_blocks sp db) \<le> blocks_size (sp_ref sp) (dom (db_blocks (sp_ref sp)))"
    unfolding blocks_size_def by (intro sum_mono2 [OF assms(1)]) simp_all
  moreover have "r mod 2 ^ 32 < (2 ^ 32 :: nat)" by simp
  ultimately show ?thesis using assms(2) by linarith
qed

lemma sync_starts:
  assumes su: "sync_setup Y A folder kids c s" and poss: "sync_possible Y kids c s"
  defines "sp \<equiv> \<lparr>sp_ref = h_blockdb (nd_handler c), sp_client = y_client_addr Y,
    sp_root = db_root (h_blockdb (nd_handler s)), sp_fs = h_fs (nd_handler s), sp_folder = folder,
    sp_kids = kids\<rparr>"
  shows "sync_feasible Y sp" and "\<exists>st. (sync_step Y)\<^sup>*\<^sup>* (sync_start c s) st \<and> sync_rest Y sp st"
proof -
  have inv: "sync_inv Y sp (sync_start c s)" and ok: "sync_ok Y sp"
    using sync_setup_inv [OF su] unfolding sp_def by blast+
  have fin: "finite (dom (db_blocks (h_blockdb (nd_handler c))))"
    using su by (intro card_ge_0_finite) (simp add: sync_setup_def)
  then show feas: "sync_feasible Y sp"
    using poss ok by (simp add: sync_feasible_def sync_possible_def walkable_def sync_ok_def sp_def Let_def)
  obtain r nonce where srv: "node_wf s" "h_clients (nd_handler s) = Map.empty" "nd_tasks s = []"
    "db_pending_root (h_blockdb (nd_handler s)) = None"
    by (rule sync_setup_start [OF su])
  then have good: "sync_good Y sp (sync_start c s)" and wf: "db_wf (h_blockdb (nd_handler s))"
    using inv ok by (simp_all add: sync_good_def sync_start_def node_wf_def handler_wf_def store_wf_def)
  have fit: "msgs_fit Y (h_blockdb (nd_handler c))" using poss by (simp add: sync_possible_def Let_def)
  have "BlockRef_ok (db_root (h_blockdb (nd_handler c)))"
    using ok by (simp add: sync_ok_def spec_ok_def ref_ok_def sp_def)
  then obtain s1 r u where s1: "sync_step Y (sync_start c s) s1" "told_server Y s1 (RootUpdate u)"
    "ru_to_blockref u = db_root (h_blockdb (nd_handler c))" "sy_server s1 = s"
    "client_out (y_server_addr Y) (sy_client s1) = TransferOut_default r"
    by (rule root_announced [OF su fit])
  have walk: "walkable (y_server Y) sp" using feas by (simp add: sync_feasible_def)
  have "db_inv (sp_ref sp) (h_blockdb (nd_handler s))"
    using inv by (simp add: sync_inv_def server_inv_def srv_inv_def sync_start_def)
  from root_accepted [OF walk this wf srv(2,4), of u 0 "y_client_addr Y"] poss s1(3)
  obtain h ts cl where run: "dispatch (y_server Y) 0 (nd_handler s) (y_client_addr Y) (RootUpdate u) = Inr (h, ts)"
      "filling (y_server Y) sp (h_blockdb h)"
      "wanted (y_server Y) (db_root (sp_ref sp)) (h_blockdb h) (blockid (db_root (sp_ref sp)))"
      "h_clients h (y_client_addr Y) = Some cl" "ti_transfers (transfer_in cl) = []"
      "\<forall>j. wanted (y_server Y) (db_root (sp_ref sp)) (h_blockdb h) j \<longrightarrow> requested (y_client_addr Y) cl ts j"
    by (auto simp: sync_possible_def sp_def Let_def)
  define s2 where "s2 = s1\<lparr>sy_server := \<lparr>nd_handler = h, nd_tasks = nd_tasks (sy_server s1) @ ts\<rparr>\<rparr>"
  have "sync_step Y s1 s2" unfolding s2_def using run(1) s1(4) by (intro server_gets_msg [OF s1(2)]) simp
  then have steps: "(sync_step Y)\<^sup>*\<^sup>* (sync_start c s) s2" using s1(1) by (meson r_into_rtranclp rtranclp_trans)
  have "r mod 2 ^ 32 + blocks_size (sp_ref sp) (missing_blocks sp (h_blockdb h)) < 2 ^ 63"
    by (rule ids_for_all) (use fin poss in \<open>simp_all add: sp_def sync_possible_def Let_def\<close>)
  then have "sync_rest Y sp s2"
    using sync_good_steps [OF steps good] run(2-6) srv(3) s1(4,5)
    by (auto simp: sync_rest_def Let_def s2_def TransferOut_default_def)
  then show "\<exists>st. (sync_step Y)\<^sup>*\<^sup>* (sync_start c s) st \<and> sync_rest Y sp st" using steps by blast
qed

text \<open>
  C4: A synchronisation can be completed. Let the messages fit their buffers and the stack be as deep as
  the client's folder, let no two nodes of the folder share a block, no block be empty, the server have
  none of the blocks and another root, and all sizes stay below \<open>2 ^ 63\<close>. Then from every start some run of the two and the network ends with the client's root on the
  server and with exactly the client's tree in the server's folder, whatever the tree.
\<close>

theorem sync_can_complete:
  assumes "sync_setup Y A folder kids c s" and "sync_possible Y kids c s"
    and "P = resolve_path (e_cwd (y_server Y)) folder"
  shows "\<exists>st. (sync_step Y)\<^sup>*\<^sup>* (sync_start c s) st \<and>
    db_root (h_blockdb (nd_handler (sy_server st))) = db_root (h_blockdb (nd_handler c)) \<and>
    h_fs (nd_handler (sy_server st)) = (\<lambda>q. if take (length P) q = P
      then map_of (tree_nodes P (TDir kids)) q else h_fs (nd_handler s) q)"
proof -
  let ?sp = "\<lparr>sp_ref = h_blockdb (nd_handler c), sp_client = y_client_addr Y,
    sp_root = db_root (h_blockdb (nd_handler s)), sp_fs = h_fs (nd_handler s), sp_folder = folder,
    sp_kids = kids\<rparr>"
  obtain s1 where s1: "(sync_step Y)\<^sup>*\<^sup>* (sync_start c s) s1" "sync_feasible Y ?sp \<and> sync_rest Y ?sp s1"
    using sync_starts [OF assms(1,2)] by blast
  from sync.reaches_goal [OF s1(2)] obtain st where st: "(sync_step Y)\<^sup>*\<^sup>* s1 st" "sync_done ?sp st" by blast
  have "sync_good Y ?sp st" using s1(2) sync_good_steps [OF st(1)] by (simp add: sync_rest_def)
  then have "srv_inv (y_server Y) ?sp (sync_alloc Y st) (nd_handler (sy_server st))"
    by (simp add: sync_good_def sync_inv_def server_inv_def)
  moreover have "db_root (h_blockdb (nd_handler s)) \<noteq> db_root (h_blockdb (nd_handler c))"
    using assms(2) by (auto simp: sync_possible_def Let_def)
  ultimately have "h_fs (nd_handler (sy_server st)) = sp_target (y_server Y) ?sp"
    using st(2) by (auto simp: sync_done_def srv_inv_def)
  then show ?thesis
    using rtranclp_trans [OF s1(1) st(1)] st(2) unfolding assms(3)
    by (intro exI [of _ st]) (simp add: sync_done_def sp_target_def sp_place_def cong: if_cong)
qed

section \<open>The demonstration can complete\<close>

lemma leb_enc_septets: "n < 2 ^ (7 * Suc m) \<Longrightarrow> length (leb_enc n) \<le> Suc m"
proof (induction m arbitrary: n)
  case 0
  then show ?case by (simp add: leb_enc.simps)
next
  case (Suc m)
  have "n < 2 ^ (7 * Suc m) * 128" using Suc.prems by (simp add: power_add)
  then have "n div 128 < 2 ^ (7 * Suc m)" by (rule less_mult_imp_div_less)
  then show ?case using Suc.IH [of "n div 128"] by (subst leb_enc.simps) simp
qed

lemma demo_msgs_fit: "msgs_fit demo_sync demo_db"
proof -
  have "length (leb_enc n) \<le> 9" if "n < 2 ^ 63" for n using leb_enc_septets [of n 8] that by simp
  moreover have "1 + length (to_writer (s_root_update item_msgs) u) \<le> 8192"
    if "RootUpdate_ok u" "ru_to_blockref u = demo_root" for u
    using that item_bytes_length [of "ru_nonce u"] item_bytes_length [of "ru_from_blockid u"]
      item_bytes_length [of "full_id demo_dir"] item_bytes_length [of "replicate 16 2"] demo_ids(3)
    by (simp add: RootUpdate_ok_def BlockId_ok_def demo_root_def item_msgs_def item_serde_def RootUpdate_item_def)
  moreover have "1 + length (to_writer (s_block_request item_msgs) q) \<le> 8192" if "BlockRequest_ok q" for q
    using that item_bytes_length [of "br_blockid q"]
    by (simp add: BlockRequest_ok_def BlockId_ok_def item_msgs_def item_serde_def BlockRequest_item_def)
  moreover have "1 + length (to_writer (s_block_request_response item_msgs) q) \<le> 8192" if "BlockRequestResponse_ok q" for q
    using that item_bytes_length [of "bq_blockid q"] leb_enc_short [of "bq_start_id q"] leb_enc_short [of "bq_end_id q"]
      leb_enc_short [of "bq_len q"]
    by (simp add: BlockRequestResponse_ok_def BlockId_ok_def item_msgs_def item_serde_def BlockRequestResponse_item_def)
  moreover have "db_root demo_db = demo_root" by (simp add: demo_db_def BlockDb_new_def)
  ultimately show ?thesis by (simp add: msgs_fit_def demo_sync_def MTU2_def leb_api_def)
qed

lemma demo_one_block_each: "one_block_each (shift_api False) demo_db demo_root"
proof -
  let ?leaf = "(BlockType.Leaf, BlockRef (full_id demo_leaf) (replicate 16 1) [])"
  have two: "x = (Directory, demo_root) \<or> x = ?leaf" if "reaches (shift_api False) demo_db (Directory, demo_root) x" for x
    using that
  proof (rule reaches_down [where P = "\<lambda>x. x = (Directory, demo_root) \<or> x = ?leaf"])
    fix r d c
    assume "(Directory, r) = (Directory, demo_root) \<or> (Directory, r) = ?leaf"
      and "get_decoded (Dir_from_full (shift_api False)) demo_db (blockid r) (key r) = Inr d" and "c \<in> set (dir_children d)"
    then have "c = demo_child"
      using demo_ids(1) demo_from_full(1) [of False]
      by (auto simp: get_decoded_def BlockDb_get_def demo_db_def BlockDb_new_def demo_root_simps unwrap_opt_def)
    then show "(child_type c, child_blockref c) = (Directory, demo_root) \<or> (child_type c, child_blockref c) = ?leaf"
      by (simp add: demo_child_simps)
  qed simp
  have "x = y" if "reaches (shift_api False) demo_db (Directory, demo_root) x"
    "reaches (shift_api False) demo_db (Directory, demo_root) y" "blockid (snd x) = blockid (snd y)" for x y
    using two [OF that(1)] two [OF that(2)] that(3) demo_ids(1) by (auto simp: demo_root_simps)
  then show ?thesis unfolding one_block_each_def by blast
qed

lemma demo_possible: "sync_possible demo_sync demo_kids demo_client_node demo_server_node"
proof -
  have db: "h_blockdb (nd_handler demo_client_node) = demo_db" "h_blockdb (nd_handler demo_server_node) = demo_server_db"
    by (simp_all add: demo_client_node_def connect_def insert_client_def put_client_def Handler_new_def demo_server_node_def)
  have full: "full_at demo_db i = (if i = full_id demo_dir then Some (full_data demo_dir)
      else if i = full_id demo_leaf then Some (full_data demo_leaf) else None)" for i
    by (simp add: full_at_def demo_db_def BlockDb_new_def)
  have dom: "dom (db_blocks demo_db) = {full_id demo_dir, full_id demo_leaf}"
    "dom (db_blocks demo_server_db) = {full_id demo_server_dir}"
    by (auto simp: demo_db_def demo_server_db_def BlockDb_new_def)
  have roots: "db_root demo_db = demo_root" "blockid (db_root demo_server_db) = full_id demo_server_dir"
    by (simp_all add: demo_db_def demo_server_db_def BlockDb_new_def)
  have "blocks_size demo_db (dom (db_blocks demo_db)) = 152"
    using demo_ids(1) by (simp add: blocks_size_def dom(1) full demo_lengths)
  moreover have "d \<noteq> []" if "full_at demo_db i = Some d" for i d
    using that demo_lengths by (auto simp: full split: if_splits)
  ultimately show ?thesis
    using demo_msgs_fit demo_one_block_each demo_kids_ok(2) demo_server_ids dom(2)
    by (simp add: sync_possible_def db roots demo_sync_simps Let_def demo_root_simps) (simp add: dom(1))
qed

theorem sync_can_complete_witness:
  "\<exists>st. (sync_step demo_sync)\<^sup>*\<^sup>* (sync_start demo_client_node demo_server_node) st \<and>
     db_root (h_blockdb (nd_handler (sy_server st))) = demo_root \<and>
     h_fs (nd_handler (sy_server st)) [[103], [97]] = Some (FsFile [104, 105])"
proof -
  have "db_root (h_blockdb (nd_handler demo_client_node)) = demo_root"
    by (simp add: demo_client_node_def connect_def insert_client_def put_client_def Handler_new_def demo_db_def BlockDb_new_def)
  moreover have "[[103]] = resolve_path (e_cwd (y_server demo_sync)) (False, [[103]])"
    by (simp add: demo_sync_simps resolve_path_def has_root_def dot_def)
  ultimately show ?thesis
    using sync_can_complete [OF demo_setup demo_possible, of "[[103]]"] by (auto simp: demo_kids_def)
qed

end
