(* ===== verification/Spec2Isabelle.thy ===== *)
theory Spec2Isabelle
  imports Upload_Liveness Server_Run Repeated_Login Unit_Tests Csync Sync_Liveness Handler_Properties Frontend_Properties
begin

text \<open>
  A model of \<^emph>\<open>das-protokoll\<close>, two generations of a file synchronisation protocol over UDP, and the
  theorems that make it correct.

  \<^bold>\<open>The program.\<close> Version 1 (\<^verbatim>\<open>v1/csync\<close>, with the bitmap crate \<^verbatim>\<open>v1/bitte-ein-bit\<close>)
  uploads single files. A client logs in with an upload request, sends the file in chunks of one
  datagram each, and listens for status updates, in which the server reports, run-length encoded,
  which chunks it has. The server keeps the file and a bitmap of the chunks on disk. A connection has
  two halves, a receiver that writes chunks and a sender of status updates, joined by a channel.
  Version 2 (\<^verbatim>\<open>v2/scsync\<close>) synchronises folders. A folder becomes a database of encrypted blocks
  named by their digests; a client announces its root block, the server requests the blocks it does
  not have, each block travels in numbered chunks, and when the tree of the new root is complete the
  server writes it out as a folder.

  \<^bold>\<open>Shared theories.\<close>
  \<^item> \<^verbatim>\<open>Prelude\<close>: how a Rust function ends (a result, an \<^verbatim>\<open>io::Error\<close>, a panic with its reason,
    or the model's fuel running out), sequencing with \<open>bindE\<close>, arithmetic on 64 bits with overflow
    checks, slices with bounds checks; the collection \<open>outcome_simps\<close> inverts successful computations.
  \<^item> \<^verbatim>\<open>Varints\<close>: the crate \<^verbatim>\<open>varmint\<close> as a parameter, its contract as the locale
    \<open>varint_codec\<close>, and LEB128 as an instance.
  \<^item> \<^verbatim>\<open>Serde\<close>: the serialiser \<^verbatim>\<open>serde_cbor\<close> as a parameter with the locale \<open>serde_codec\<close>.
  \<^item> \<^verbatim>\<open>File_System\<close>: paths and files as the program uses them. \<^verbatim>\<open>Chunking\<close>: byte sequences cut
    into chunks. \<^verbatim>\<open>Progress\<close>: the locales \<open>preserved\<close>, invariants of runs, and \<open>progress\<close>, runs
    that reach a goal, which the systems of both versions interpret.

  \<^bold>\<open>Version 1.\<close>
  \<^item> \<^verbatim>\<open>Bit_Map\<close> (\<^verbatim>\<open>lib.rs\<close>, \<^verbatim>\<open>range.rs\<close>): every method of the bitmap and its iterator. The
    interface of an array of bits is the locale \<open>bit_array\<close>; the bitmap implements it below its length.
  \<^item> \<^verbatim>\<open>Codec\<close> and \<^verbatim>\<open>Runlength\<close> (\<^verbatim>\<open>codec.rs\<close>): login messages, chunk packets, the search for
    the size of the index field, status updates and the iteration over missing chunks. Round trips,
    termination of the search, and that a status update cut at one segment still reports correctly.
  \<^item> \<^verbatim>\<open>Congestion\<close> (\<^verbatim>\<open>server/congestion.rs\<close>), \<^verbatim>\<open>Timeout\<close> (\<^verbatim>\<open>timeout.rs\<close>),
    \<^verbatim>\<open>Sender\<close> (\<^verbatim>\<open>server/sender.rs\<close>), \<^verbatim>\<open>Receiver\<close> (\<^verbatim>\<open>server/receiver.rs\<close>),
    \<^verbatim>\<open>Server\<close> (\<^verbatim>\<open>server/listener.rs\<close>, \<^verbatim>\<open>server/mod.rs\<close>), \<^verbatim>\<open>Client\<close>
    (\<^verbatim>\<open>client.rs\<close>), \<^verbatim>\<open>Csync\<close> (\<^verbatim>\<open>main.rs\<close>): one definition per method; a poll takes the
    answers of the operating system as arguments and gives the new state. \<^verbatim>\<open>Congestion\<close> bounds the
    rounding of the running average, \<^verbatim>\<open>Timeout\<close> says when silence is a timeout, and \<^verbatim>\<open>Csync\<close> how
    the client program ends.
  \<^item> \<^verbatim>\<open>Packets\<close>, \<^verbatim>\<open>Receiver_Safety\<close>, \<^verbatim>\<open>Receiver_Properties\<close>: the invariant \<open>recv_inv\<close>,
    that every chunk marked in the bitmap is on disk, kept by every poll.
  \<^item> \<^verbatim>\<open>Upload\<close>, \<^verbatim>\<open>Upload_Properties\<close>: client, connection and network as one step relation. A client
    that stops because it was told so leaves the server with its file. \<^verbatim>\<open>Upload_Liveness\<close>: some run
    gets there, by rounds in the sense of the locale \<open>progress\<close>.
  \<^item> \<^verbatim>\<open>Server_Run\<close>: the server loop with all its connections on one file system. Uploads to
    different paths do not disturb each other. \<^verbatim>\<open>Repeated_Login\<close>: a second copy of a login is
    stored as a chunk.
  \<^item> \<^verbatim>\<open>Unit_Tests\<close>: the unit tests of both crates, run on the model.

  \<^bold>\<open>Version 2.\<close>
  \<^item> \<^verbatim>\<open>Block_Db\<close> (\<^verbatim>\<open>blockdb.rs\<close>) and \<^verbatim>\<open>Codec2\<close> (\<^verbatim>\<open>codec.rs\<close>): the store of blocks and
    the six messages with their encoding.
  \<^item> \<^verbatim>\<open>Frontend\<close> (\<^verbatim>\<open>frontend/mod.rs\<close>) and \<^verbatim>\<open>Visitor\<close> (\<^verbatim>\<open>frontend/visitor.rs\<close>):
    encryption, a folder as a database and back, the traversal of a database. \<^verbatim>\<open>Folder\<close> says what
    the database of a tree is (\<open>holds\<close>) and that writing it out gives the tree; \<^verbatim>\<open>Verify\<close> says what
    \<open>verify\<close> decides; \<^verbatim>\<open>Frontend_Items\<close> has a concrete cipher and serialiser, and
    \<^verbatim>\<open>Frontend_Properties\<close> the theorems.
  \<^item> \<^verbatim>\<open>Handler\<close> (\<^verbatim>\<open>handler.rs\<close>) and \<^verbatim>\<open>Scsync\<close> (\<^verbatim>\<open>main.rs\<close>): the operation of each
    message, the background loops, and a node as a step relation that interleaves messages and tasks.
  \<^item> \<^verbatim>\<open>Blocks_In_Transit\<close>, \<^verbatim>\<open>Sync_Client\<close>, \<^verbatim>\<open>Sync_Server\<close>: the invariants of a transfer and of
    both sides; \<^verbatim>\<open>Sync\<close>: two nodes and the network. At every moment the server's folder is the old
    one or exactly the client's. \<^verbatim>\<open>Sync_Run\<close> and \<^verbatim>\<open>Sync_Demo\<close> run one synchronisation to its end.
  \<^item> \<^verbatim>\<open>Node_Types\<close>: what is well-formed about every node whatever it receives; sending into the
    channels the handler keeps never panics.
  \<^item> \<^verbatim>\<open>Traversal\<close>: traversals of a store in which part of a tree has arrived; \<^verbatim>\<open>Block_Transfer\<close>:
    what each operation does on the way of one block; \<^verbatim>\<open>Block_Arrival\<close>: what one more block makes of
    the store; \<^verbatim>\<open>Sync_Liveness\<close>: block by block, some run ends with the client's folder on the
    server, by the locale \<open>progress\<close> again.
  \<^item> \<^verbatim>\<open>Handler_Properties\<close>: the payload and status loops, block requests, single chunks.

  \<^bold>\<open>Parameters.\<close> Third-party code enters as arguments: varints, the serialiser, ciphers and digest,
  random numbers, the entries a folder walk yields, the order of a hash map's keys, parsing of an
  address, the float computation of the number of packets. What the program relies on is the
  assumptions of the locales \<open>varint_codec\<close>, \<open>serde_codec\<close>, \<open>msg_codec\<close> and \<open>frontend_codec\<close>, which
  are interpreted on concrete functions. Of Tokio and its channels the model has the documented
  behaviour: a oneshot or unbounded channel with its ends, and tasks that run in any order. What an
  interval answers is an argument, as a function of the firings taken from it before; that it has one
  firing due for every period that has ended is the hypothesis \<open>fires_every\<close>.

  \<^bold>\<open>Fuel.\<close> Draining an iterator over bytes takes one more unit than there are bytes, since each
  element takes a byte at least. The loops of version 1 are total functions with a measure. The
  recursions of version 2 over a received tree are bounded by the stack only; their fuel is the number
  of nested calls it has room for, and the theorems ask for the depth of the tree at most.

  \<^bold>\<open>The network.\<close> A datagram once sent can arrive at any later time, any number of times or never,
  so loss, repetition and reordering are all covered, with one exception in version 1: the login opens
  the connection, and the system \<open>upload_step\<close> and the theorems about it let it arrive there only once.
  \<^verbatim>\<open>Repeated_Login\<close> shows what a second copy does. Forged datagrams are not part of the two systems:
  the properties about panics say what they do.

  \<^bold>\<open>Not modelled.\<close> Creating and binding sockets, the Tokio runtime, logging and \<^verbatim>\<open>Debug\<close> output, and
  the parsing of command lines. Durations between packets are data and not time. Locks: an operation
  of the handler holds its locks from beginning to end and is one step; the order in which it takes
  them is not modelled. The package \<^verbatim>\<open>udp-multiplex-test\<close> is an experiment with two sockets and has
  no logic of its own.
\<close>

end
